(* ===== verification/Trinity_Prelude.thy ===== *)
theory Trinity_Prelude
  imports Main "HOL-Library.Word" "HOL-Library.List_Lexorder" "HOL-Library.Product_Lexorder"
begin

text \<open>
  Shared vocabulary of the development.

  \<^item> \<open>res\<close> is Rust's \<open>Result\<close> with a third outcome \<open>Panic\<close>, so that every \<open>expect\<close>,
    \<open>unwrap\<close> and out-of-range index of the source is a value of the model.
    \<open>res_bind\<close> is the \<open>?\<close> operator.
  \<^item> \<open>for_in\<close> is a \<open>for (i, x) in xs.iter().enumerate()\<close> loop whose body may return early.
  \<^item> \<open>sat_add\<close>, \<open>sat_sub\<close>, \<open>sat_mul\<close>, \<open>checked_add\<close>, \<open>checked_sub\<close>, \<open>div_ceil\<close> are the
    integer methods of the Rust standard library at their width.
  \<^item> \<open>nat_to_le\<close> and \<open>le_to_nat\<close> carry \<open>to_le_bytes\<close> and \<open>from_le_bytes\<close>; the locale
    \<open>fixed_codec\<close> states what a fixed-width field codec promises.
  \<^item> \<open>btree_insert\<close>, \<open>btree_get\<close> model \<open>std::collections::BTreeMap\<close> as the association
    list of its in-order traversal; the locale \<open>ordered_map\<close> is its contract.
  The named collections \<open>res_simps\<close> (inversion of \<open>?\<close>-chains), \<open>word_nat_simps\<close> (words read
  as naturals) and \<open>codec_simps\<close> (byte layouts) carry the component proofs.
\<close>

named_theorems res_simps "inversion rules for chains of fallible calls"
named_theorems word_nat_simps "machine arithmetic read through unat"
named_theorems codec_simps "lengths and round trips of byte encodings"

subsection \<open>Types\<close>

type_synonym u8 = "8 word"
type_synonym u16 = "16 word"
type_synonym u32 = "32 word"
type_synonym u64 = "64 word"
type_synonym u128 = "128 word"
type_synonym bytes = "u8 list"

datatype ('a, 'e) res = Ok 'a | Err 'e | Panic

subsection \<open>Fallible calls\<close>

primrec res_bind :: "('a, 'e) res \<Rightarrow> ('a \<Rightarrow> ('b, 'e) res) \<Rightarrow> ('b, 'e) res" where
  "res_bind (Ok x) f = f x"
| "res_bind (Err e) f = Err e"
| "res_bind Panic f = Panic"

primrec res_map_err :: "('e \<Rightarrow> 'f) \<Rightarrow> ('a, 'e) res \<Rightarrow> ('a, 'f) res" where
  "res_map_err g (Ok x) = Ok x"
| "res_map_err g (Err e) = Err (g e)"
| "res_map_err g Panic = Panic"

primrec ok_or :: "'a option \<Rightarrow> 'e \<Rightarrow> ('a, 'e) res" where
  "ok_or None e = Err e"
| "ok_or (Some x) e = Ok x"

primrec expect :: "'a option \<Rightarrow> ('a, 'e) res" where
  "expect None = Panic"
| "expect (Some x) = Ok x"

primrec res_ok :: "('a, 'e) res \<Rightarrow> 'a option" where
  "res_ok (Ok x) = Some x"
| "res_ok (Err e) = None"
| "res_ok Panic = None"

definition ensure :: "bool \<Rightarrow> 'e \<Rightarrow> (unit, 'e) res" where
  "ensure b e = (if b then Ok () else Err e)"

subsection \<open>Loops with an early return\<close>

primrec for_in :: "(nat \<Rightarrow> 'x \<Rightarrow> 's \<Rightarrow> ('s, 'e) res) \<Rightarrow> nat \<Rightarrow> 'x list \<Rightarrow> 's \<Rightarrow> ('s, 'e) res" where
  "for_in f i [] s = Ok s"
| "for_in f i (x # xs) s = res_bind (f i x s) (for_in f (Suc i) xs)"

abbreviation for_check :: "(nat \<Rightarrow> 'x \<Rightarrow> (unit, 'e) res) \<Rightarrow> nat \<Rightarrow> 'x list \<Rightarrow> (unit, 'e) res" where
  "for_check f i xs \<equiv> for_in (\<lambda>i x _. f i x) i xs ()"

subsection \<open>Integer methods of the Rust standard library\<close>

definition sat_add :: "'a::len word \<Rightarrow> 'a word \<Rightarrow> 'a word" where
  "sat_add a b = (if unat a + unat b < 2 ^ LENGTH('a) then a + b else - 1)"

definition sat_sub :: "'a::len word \<Rightarrow> 'a word \<Rightarrow> 'a word" where
  "sat_sub a b = (if b \<le> a then a - b else 0)"

definition sat_mul :: "'a::len word \<Rightarrow> 'a word \<Rightarrow> 'a word" where
  "sat_mul a b = (if unat a * unat b < 2 ^ LENGTH('a) then a * b else - 1)"

definition checked_add :: "'a::len word \<Rightarrow> 'a word \<Rightarrow> 'a word option" where
  "checked_add a b = (if unat a + unat b < 2 ^ LENGTH('a) then Some (a + b) else None)"

definition checked_sub :: "'a::len word \<Rightarrow> 'a word \<Rightarrow> 'a word option" where
  "checked_sub a b = (if b \<le> a then Some (a - b) else None)"

definition div_ceil :: "'a::len word \<Rightarrow> 'a word \<Rightarrow> 'a word option" where
  "div_ceil a b =
     (if b = 0 then None
      else Some (if 0 < a mod b then a div b + 1 else a div b))"

abbreviation u64_max :: u64 where "u64_max \<equiv> - 1"
abbreviation u32_max :: u32 where "u32_max \<equiv> - 1"

subsection \<open>Little-endian bytes\<close>

primrec nat_to_le :: "nat \<Rightarrow> nat \<Rightarrow> bytes" where
  "nat_to_le 0 n = []"
| "nat_to_le (Suc k) n = of_nat (n mod 256) # nat_to_le k (n div 256)"

primrec le_to_nat :: "bytes \<Rightarrow> nat" where
  "le_to_nat [] = 0"
| "le_to_nat (b # bs) = unat b + 256 * le_to_nat bs"

definition u16_to_le :: "u16 \<Rightarrow> bytes" where "u16_to_le w = nat_to_le 2 (unat w)"
definition u32_to_le :: "u32 \<Rightarrow> bytes" where "u32_to_le w = nat_to_le 4 (unat w)"
definition u64_to_le :: "u64 \<Rightarrow> bytes" where "u64_to_le w = nat_to_le 8 (unat w)"
definition u16_from_le :: "bytes \<Rightarrow> u16" where "u16_from_le bs = of_nat (le_to_nat bs)"
definition u32_from_le :: "bytes \<Rightarrow> u32" where "u32_from_le bs = of_nat (le_to_nat bs)"
definition u64_from_le :: "bytes \<Rightarrow> u64" where "u64_from_le bs = of_nat (le_to_nat bs)"
definition u32_to_be :: "u32 \<Rightarrow> bytes" where "u32_to_be w = rev (u32_to_le w)"

definition slice :: "'a list \<Rightarrow> nat \<Rightarrow> nat \<Rightarrow> 'a list" where
  "slice xs i j = take (j - i) (drop i xs)"

subsection \<open>Ordered maps and sets\<close>

primrec btree_insert :: "'k::linorder \<Rightarrow> 'v \<Rightarrow> ('k \<times> 'v) list \<Rightarrow> ('k \<times> 'v) list" where
  "btree_insert k v [] = [(k, v)]"
| "btree_insert k v (p # m) =
     (if k < fst p then (k, v) # p # m
      else if k = fst p then (k, v) # m
      else p # btree_insert k v m)"

definition btree_get :: "('k \<times> 'v) list \<Rightarrow> 'k \<Rightarrow> 'v option" where
  "btree_get m k = map_of m k"

definition btree_wf :: "('k::linorder \<times> 'v) list \<Rightarrow> bool" where
  "btree_wf m \<longleftrightarrow> sorted_wrt (<) (map fst m)"

definition btree_set_of :: "'k::linorder list \<Rightarrow> 'k list" where
  "btree_set_of xs = sort (remdups xs)"

subsection \<open>Text\<close>

fun digits_of :: "nat \<Rightarrow> string" where
  "digits_of k = (if k < 10 then [char_of (48 + k)] else digits_of (k div 10) @ [char_of (48 + k mod 10)])"

declare digits_of.simps [simp del]

definition str_to_ascii_lowercase :: "string \<Rightarrow> string" where
  "str_to_ascii_lowercase s =
     map (\<lambda>c. let n = (of_char c :: nat) in if 65 \<le> n \<and> n \<le> 90 then char_of (n + 32) else c) s"

fun contains_str :: "string \<Rightarrow> string \<Rightarrow> bool" where
  "contains_str [] p \<longleftrightarrow> p = []"
| "contains_str (c # s) p \<longleftrightarrow> take (length p) (c # s) = p \<or> contains_str s p"

section \<open>Lemmas\<close>

subsection \<open>Inverting fallible calls\<close>

lemma res_bind_eq_Ok [res_simps]: "res_bind m f = Ok y \<longleftrightarrow> (\<exists>x. m = Ok x \<and> f x = Ok y)"
  by (cases m) auto

lemma res_bind_eq_Err: "res_bind m f = Err e \<longleftrightarrow> m = Err e \<or> (\<exists>x. m = Ok x \<and> f x = Err e)"
  by (cases m) auto

lemma res_bind_eq_Panic: "res_bind m f = Panic \<longleftrightarrow> m = Panic \<or> (\<exists>x. m = Ok x \<and> f x = Panic)"
  by (cases m) auto

lemma res_map_err_eq_Ok [res_simps]: "res_map_err g m = Ok y \<longleftrightarrow> m = Ok y"
  by (cases m) auto

lemma res_map_err_eq_Panic: "res_map_err g m = Panic \<longleftrightarrow> m = Panic"
  by (cases m) auto

lemma ok_or_eq_Ok [res_simps]: "ok_or x e = Ok y \<longleftrightarrow> x = Some y"
  by (cases x) auto

lemma ok_or_not_Panic [simp]: "ok_or x e \<noteq> Panic"
  by (cases x) auto

lemma expect_eq_Ok [res_simps]: "expect x = Ok y \<longleftrightarrow> x = Some y"
  by (cases x) auto

lemma expect_eq_Panic [simp]: "expect x = Panic \<longleftrightarrow> x = None"
  by (cases x) simp_all

lemma ensure_eq_Ok [res_simps]: "ensure b e = Ok u \<longleftrightarrow> b"
  by (simp add: ensure_def)

lemma ensure_not_Panic [simp]: "ensure b e \<noteq> Panic"
  by (simp add: ensure_def)

lemma res_ok_eq_Some [res_simps]: "res_ok r = Some x \<longleftrightarrow> r = Ok x"
  by (cases r) auto

lemma all_less_Suc_shift: "(\<forall>j < Suc n. P j) \<longleftrightarrow> P 0 \<and> (\<forall>j < n. P (Suc j))"
  by (auto simp: less_Suc_eq_0_disj)

lemma for_check_Ok:
  "for_check f i xs = Ok u \<longleftrightarrow> (\<forall>j < length xs. f (i + j) (xs ! j) = Ok ())"
proof (induction xs arbitrary: i)
  case Nil
  then show ?case by simp
next
  case (Cons x xs)
  have "for_check f i (x # xs) = Ok u \<longleftrightarrow> f i x = Ok () \<and> for_check f (Suc i) xs = Ok u"
    by (auto simp: res_bind_eq_Ok)
  also have "\<dots> \<longleftrightarrow> f i x = Ok () \<and> (\<forall>j < length xs. f (Suc i + j) (xs ! j) = Ok ())"
    using Cons.IH by simp
  also have "\<dots> \<longleftrightarrow> (\<forall>j < length (x # xs). f (i + j) ((x # xs) ! j) = Ok ())"
    by (auto simp: less_Suc_eq_0_disj nth_Cons split: nat.splits)
  finally show ?case .
qed

lemma for_check_iff:
  assumes "\<And>i x. f i x = Ok () \<longleftrightarrow> P x"
  shows "for_check f i xs = Ok u \<longleftrightarrow> list_all P xs"
  unfolding for_check_Ok assms by (simp add: list_all_length)

lemma for_check_not_Panic:
  assumes "\<And>i x. x \<in> set xs \<Longrightarrow> f i x \<noteq> Panic"
  shows "for_check f i xs \<noteq> Panic"
  using assms by (induction xs arbitrary: i) (auto simp: res_bind_eq_Panic)

lemma for_in_collect:
  "for_in (\<lambda>i x out. res_bind (f i x) (\<lambda>c. Ok (out @ [c]))) k xs acc = Ok r \<longleftrightarrow>
   (\<exists>cs. r = acc @ cs \<and> length cs = length xs \<and> (\<forall>j < length xs. f (k + j) (xs ! j) = Ok (cs ! j)))"
proof (induction xs arbitrary: k acc)
  case (Cons x xs)
  have "for_in (\<lambda>i x out. res_bind (f i x) (\<lambda>c. Ok (out @ [c]))) k (x # xs) acc = Ok r \<longleftrightarrow>
      (\<exists>c cs. f k x = Ok c \<and> r = acc @ c # cs \<and> length cs = length xs
         \<and> (\<forall>j < length xs. f (Suc k + j) (xs ! j) = Ok (cs ! j)))"
    using Cons.IH by (auto simp: res_bind_eq_Ok)
  also have "\<dots> \<longleftrightarrow> (\<exists>cs. r = acc @ cs \<and> length cs = length (x # xs)
      \<and> (\<forall>j < length (x # xs). f (k + j) ((x # xs) ! j) = Ok (cs ! j)))"
    by (auto simp: length_Suc_conv all_less_Suc_shift)
  finally show ?case .
qed auto

lemma for_in_invariant:
  assumes "for_in f i xs s = Ok t" and "P i s"
    and "\<And>j x s s'. j < length xs \<Longrightarrow> x = xs ! j \<Longrightarrow> P (i + j) s \<Longrightarrow> f (i + j) x s = Ok s'
      \<Longrightarrow> P (Suc (i + j)) s'"
  shows "P (i + length xs) t"
  using assms
proof (induction xs arbitrary: i s)
  case Nil
  then show ?case by simp
next
  case (Cons x xs)
  then obtain s1 where s1: "f i x s = Ok s1" "for_in f (Suc i) xs s1 = Ok t"
    by (auto simp: res_bind_eq_Ok)
  have "P (Suc i) s1"
    using Cons.prems(3) [of 0 x s s1] Cons.prems(2) s1(1) by simp
  moreover have "P (Suc (Suc i + j)) s''"
    if "j < length xs" "y = xs ! j" "P (Suc i + j) s'" "f (Suc i + j) y s' = Ok s''" for j y s' s''
    using Cons.prems(3) [of "Suc j" y s' s''] that by simp
  ultimately show ?case
    using Cons.IH [OF s1(2)] by simp
qed

lemma for_in_map: "for_in f i (map g xs) s = for_in (\<lambda>i x. f i (g x)) i xs s"
proof (induction xs arbitrary: i s)
  case (Cons x xs)
  then show ?case by (cases "f i (g x) s") simp_all
qed simp

lemma for_in_not_Panic:
  assumes "\<And>j x s. x \<in> set xs \<Longrightarrow> f j x s \<noteq> Panic"
  shows "for_in f i xs s \<noteq> Panic"
  using assms
proof (induction xs arbitrary: i s)
  case (Cons x xs)
  then show ?case by (cases "f i x s") auto
qed simp

lemma for_in_total:
  assumes "\<And>j s. j < length xs \<Longrightarrow> \<exists>s'. f (i + j) (xs ! j) s = Ok s'"
  shows "\<exists>t. for_in f i xs s = Ok t"
  using assms
proof (induction xs arbitrary: i s)
  case (Cons x xs)
  obtain s' where s': "f i x s = Ok s'" using Cons.prems [of 0] by auto
  have "\<exists>t. for_in f (Suc i) xs s' = Ok t"
    using Cons.prems [of "Suc _"] by (intro Cons.IH) auto
  then show ?case using s' by simp
qed simp

subsection \<open>Machine integers read as naturals\<close>

lemma unat_lt2p: "unat (w :: 'a::len word) < 2 ^ LENGTH('a)"
  by (rule unsigned_less)

lemma unat_minus_1 [word_nat_simps]: "unat (- 1 :: 'a::len word) = 2 ^ LENGTH('a) - 1"
  by (simp add: unsigned_minus_1_eq_mask mask_eq_exp_minus_1)

lemma unat_sat_add [word_nat_simps]:
  "unat (sat_add a b :: 'a::len word) = min (unat a + unat b) (2 ^ LENGTH('a) - 1)"
  by (auto simp: sat_add_def unat_minus_1 unat_word_ariths min_def)

lemma unat_sat_sub [word_nat_simps]: "unat (sat_sub a b) = unat a - unat b"
  by (auto simp: sat_sub_def unat_sub word_le_nat_alt)

lemma unat_sat_mul [word_nat_simps]:
  "unat (sat_mul a b :: 'a::len word) = min (unat a * unat b) (2 ^ LENGTH('a) - 1)"
proof (cases "unat a * unat b < 2 ^ LENGTH('a)")
  case True
  then have "unat a * unat b \<le> 2 ^ LENGTH('a) - 1" by linarith
  with True show ?thesis by (simp add: sat_mul_def unat_word_ariths)
next
  case False
  then have "2 ^ LENGTH('a) - 1 \<le> unat a * unat b" by linarith
  with False show ?thesis by (simp add: sat_mul_def unat_minus_1)
qed

lemma checked_add_eq_Some:
  "checked_add a b = Some c \<longleftrightarrow> unat c = unat a + unat b"
proof
  assume "checked_add a b = Some c"
  then show "unat c = unat a + unat b"
    by (auto simp: checked_add_def unat_word_ariths split: if_splits)
next
  assume eq: "unat c = unat a + unat b"
  then have "unat a + unat b < 2 ^ LENGTH('a)"
    using unat_lt2p [of c] by simp
  moreover have "a + b = c"
    using eq calculation by (simp add: word_unat_eq_iff unat_word_ariths)
  ultimately show "checked_add a b = Some c"
    by (simp add: checked_add_def)
qed

lemma checked_sub_eq_Some:
  "checked_sub a b = Some c \<longleftrightarrow> unat a = unat b + unat c"
proof
  assume "checked_sub a b = Some c"
  then show "unat a = unat b + unat c"
    by (auto simp: checked_sub_def unat_sub word_le_nat_alt split: if_splits)
next
  assume eq: "unat a = unat b + unat c"
  then have "b \<le> a" by (simp add: word_le_nat_alt)
  moreover have "a - b = c"
    using eq calculation by (simp add: word_unat_eq_iff unat_sub)
  ultimately show "checked_sub a b = Some c"
    by (simp add: checked_sub_def)
qed

lemma fold_sat_add:
  "unat (foldl sat_add z xs :: 'a::len word) = min (unat z + sum_list (map unat xs)) (2 ^ LENGTH('a) - 1)"
proof (induction xs arbitrary: z)
  case Nil
  have "unat z \<le> 2 ^ LENGTH('a) - 1" using unat_lt2p [of z] by linarith
  then show ?case by simp
next
  case (Cons x xs)
  then show ?case by (auto simp: unat_sat_add min_def)
qed

lemma for_in_checked_sum:
  "for_in (\<lambda>_ x s. ok_or (checked_add s (g x)) e) i xs (z :: u64) = Ok t \<longleftrightarrow>
     unat t = unat z + (\<Sum>x\<leftarrow>xs. unat (g x))"
proof (induction xs arbitrary: i z)
  case Nil
  show ?case by (auto simp: word_unat_eq_iff)
next
  case (Cons x xs)
  show ?case
  proof (cases "checked_add z (g x)")
    case None
    then have "2 ^ 64 \<le> unat z + unat (g x)" by (simp add: checked_add_def split: if_splits)
    then show ?thesis using None unat_lt2p [of t] by simp
  next
    case (Some c)
    then have "unat c = unat z + unat (g x)" by (simp add: checked_add_eq_Some)
    with Some Cons.IH [of "Suc i" c] show ?thesis by (simp add: add.assoc)
  qed
qed

subsection \<open>Little-endian round trips\<close>

lemma length_nat_to_le [simp, codec_simps]: "length (nat_to_le k n) = k"
  by (induction k arbitrary: n) auto

lemma le_to_nat_to_le: "le_to_nat (nat_to_le k n) = n mod 256 ^ k"
proof (induction k arbitrary: n)
  case (Suc k)
  have "n mod 256 ^ Suc k = n mod 256 + 256 * (n div 256 mod 256 ^ k)"
    by (simp add: mod_mult2_eq)
  then show ?case using Suc by (simp add: unat_of_nat)
qed simp

lemma le_to_nat_bound: "le_to_nat bs < 256 ^ length bs"
proof (induction bs)
  case (Cons b bs)
  have "unat b < 256" using unat_lt2p [of b] by simp
  with Cons show ?case by simp
qed simp

lemma nat_to_le_to_nat: "nat_to_le (length bs) (le_to_nat bs) = bs"
proof (induction bs)
  case (Cons b bs)
  have "unat b < 256" using unat_lt2p [of b] by simp
  then have "(unat b + 256 * le_to_nat bs) mod 256 = unat b"
    and "(unat b + 256 * le_to_nat bs) div 256 = le_to_nat bs" by simp_all
  with Cons show ?case by simp
qed simp

text \<open>What a fixed-width field codec promises: width, and both directions of the round trip.\<close>

locale fixed_codec =
  fixes enc :: "'a \<Rightarrow> bytes" and dec :: "bytes \<Rightarrow> 'a" and width :: nat
  assumes width_enc: "length (enc x) = width"
    and dec_enc: "dec (enc x) = x"
    and enc_dec: "length bs = width \<Longrightarrow> enc (dec bs) = bs"
begin

lemma take_field: "take width (enc x @ rest) = enc x"
  by (simp add: width_enc)

lemma drop_field: "drop width (enc x @ rest) = rest"
  by (simp add: width_enc)

lemma read_field: "dec (take width (enc x @ rest)) = x"
  by (simp only: take_field dec_enc)

lemma write_field: "width \<le> length bs \<Longrightarrow> enc (dec (take width bs)) @ drop width bs = bs"
  by (simp add: enc_dec)

lemma enc_inject: "enc x = enc y \<longleftrightarrow> x = y"
  using dec_enc by metis

end

interpretation le16: fixed_codec u16_to_le u16_from_le 2
proof unfold_locales
  fix bs :: bytes assume "length bs = 2"
  then show "u16_to_le (u16_from_le bs) = bs"
    using le_to_nat_bound [of bs] nat_to_le_to_nat [of bs]
    by (simp add: u16_to_le_def u16_from_le_def unat_of_nat)
qed (simp_all add: u16_to_le_def u16_from_le_def le_to_nat_to_le unsigned_less
    unat_lt2p [where 'a = 16, simplified])

interpretation le32: fixed_codec u32_to_le u32_from_le 4
proof unfold_locales
  fix bs :: bytes assume "length bs = 4"
  then show "u32_to_le (u32_from_le bs) = bs"
    using le_to_nat_bound [of bs] nat_to_le_to_nat [of bs]
    by (simp add: u32_to_le_def u32_from_le_def unat_of_nat)
qed (simp_all add: u32_to_le_def u32_from_le_def le_to_nat_to_le
    unat_lt2p [where 'a = 32, simplified])

interpretation le64: fixed_codec u64_to_le u64_from_le 8
proof unfold_locales
  fix bs :: bytes assume "length bs = 8"
  then show "u64_to_le (u64_from_le bs) = bs"
    using le_to_nat_bound [of bs] nat_to_le_to_nat [of bs]
    by (simp add: u64_to_le_def u64_from_le_def unat_of_nat)
qed (simp_all add: u64_to_le_def u64_from_le_def le_to_nat_to_le
    unat_lt2p [where 'a = 64, simplified])

lemmas le_widths [simp, codec_simps] = le16.width_enc le32.width_enc le64.width_enc

lemmas le_reads [simp, codec_simps] = le16.dec_enc le32.dec_enc le64.dec_enc

subsection \<open>Ordered maps\<close>

text \<open>What the callers of a \<open>BTreeMap\<close> rely on.\<close>

locale ordered_map =
  fixes insert :: "'k \<Rightarrow> 'v \<Rightarrow> 'm \<Rightarrow> 'm" and get :: "'m \<Rightarrow> 'k \<Rightarrow> 'v option" and wf :: "'m \<Rightarrow> bool"
  assumes get_insert: "wf m \<Longrightarrow> get (insert k v m) k' = (if k' = k then Some v else get m k')"
    and wf_insert: "wf m \<Longrightarrow> wf (insert k v m)"
begin

lemma get_insert_same: "wf m \<Longrightarrow> get (insert k v m) k = Some v"
  by (simp add: get_insert)

lemma get_insert_other: "wf m \<Longrightarrow> k' \<noteq> k \<Longrightarrow> get (insert k v m) k' = get m k'"
  by (simp add: get_insert)

lemma insert_keeps_keys: "wf m \<Longrightarrow> get m k' \<noteq> None \<Longrightarrow> get (insert k v m) k' \<noteq> None"
  by (simp add: get_insert)

end

lemma set_btree_insert: "set (map fst (btree_insert k v m)) = Set.insert k (set (map fst m))"
  by (induction m) auto

lemma entries_btree_insert: "set (btree_insert k v m) \<subseteq> insert (k, v) (set m)"
  by (induction m) (auto split: if_splits)

lemma map_of_btree_insert:
  "sorted_wrt (<) (map fst m) \<Longrightarrow> map_of (btree_insert k v m) k' = (if k' = k then Some v else map_of m k')"
proof (induction m)
  case (Cons p m)
  then show ?case by (cases p) auto
qed simp

lemma sorted_btree_insert:
  "sorted_wrt (<) (map fst m) \<Longrightarrow> sorted_wrt (<) (map fst (btree_insert k v m))"
proof (induction m)
  case (Cons p m)
  have "\<forall>x \<in> set (map fst m). fst p < x" using Cons.prems by auto
  moreover have "set (map fst (btree_insert k v m)) = Set.insert k (set (map fst m))"
    by (rule set_btree_insert)
  ultimately show ?case using Cons by (auto simp del: set_map)
qed simp

interpretation bt: ordered_map btree_insert btree_get btree_wf
  by unfold_locales (auto simp: btree_get_def btree_wf_def map_of_btree_insert sorted_btree_insert)

lemma set_btree_set_of [simp]: "set (btree_set_of xs) = set xs"
  by (simp add: btree_set_of_def)

lemma distinct_btree_set_of [simp]: "distinct (btree_set_of xs)"
  by (simp add: btree_set_of_def)

lemma sorted_btree_set_of [simp]: "sorted (btree_set_of xs)"
  by (simp add: btree_set_of_def)

end
