(* ===== verification/Trinity_Types.thy ===== *)
theory Trinity_Types
  imports Trinity_Prelude
begin

text \<open>
  The value types of \<open>crates/trinity-types/src\<close>: key slots, word counts, networks, master
  fingerprints with their hexadecimal form, balances, the PSBT verdict, fee targets and
  extended public keys with origin. Enums are datatypes, structs are records. The lemmas
  show that the wire encodings (slot byte, word count, hexadecimal) round-trip and that the
  spend-policy reference of a balance ignores foreign unconfirmed money.
\<close>

unbundle bit_operations_syntax

subsection \<open>Slots, word counts, networks\<close>

datatype key_slot = SlotA | SlotB | SlotC

definition key_slot_all :: "key_slot list" where
  "key_slot_all = [SlotA, SlotB, SlotC]"

fun slot_as_u8 :: "key_slot \<Rightarrow> u8" where
  "slot_as_u8 SlotA = 0"
| "slot_as_u8 SlotB = 1"
| "slot_as_u8 SlotC = 2"

definition slot_from_u8 :: "u8 \<Rightarrow> key_slot option" where
  "slot_from_u8 v =
     (if v = 0 then Some SlotA
      else if v = 1 then Some SlotB
      else if v = 2 then Some SlotC
      else None)"

fun has_device_blob :: "key_slot \<Rightarrow> bool" where
  "has_device_blob SlotA = True"
| "has_device_blob SlotB = True"
| "has_device_blob SlotC = False"

datatype word_count = Words12 | Words24

fun wc_words :: "word_count \<Rightarrow> u8" where
  "wc_words Words12 = 12"
| "wc_words Words24 = 24"

fun wc_entropy_bytes :: "word_count \<Rightarrow> u8" where
  "wc_entropy_bytes Words12 = 16"
| "wc_entropy_bytes Words24 = 32"

fun wc_quiz_sample_size :: "word_count \<Rightarrow> u8" where
  "wc_quiz_sample_size Words12 = 3"
| "wc_quiz_sample_size Words24 = 4"

definition wc_from_words :: "u8 \<Rightarrow> word_count option" where
  "wc_from_words n = (if n = 12 then Some Words12 else if n = 24 then Some Words24 else None)"

datatype network = Bitcoin | Testnet | Signet | Regtest

fun coin_type :: "network \<Rightarrow> u32" where
  "coin_type Bitcoin = 0"
| "coin_type Testnet = 1"
| "coin_type Signet = 1"
| "coin_type Regtest = 1"

fun is_test_network :: "network \<Rightarrow> bool" where
  "is_test_network Bitcoin = False"
| "is_test_network _ = True"

datatype keychain_kind = KeychainExternal | KeychainInternal

fun is_internal :: "keychain_kind \<Rightarrow> bool" where
  "is_internal KeychainInternal = True"
| "is_internal KeychainExternal = False"

fun is_external :: "keychain_kind \<Rightarrow> bool" where
  "is_external KeychainExternal = True"
| "is_external KeychainInternal = False"

subsection \<open>Fingerprints\<close>

datatype fingerprint = Fingerprint u8 u8 u8 u8

datatype fingerprint_parse_error = InvalidLength | InvalidHex

fun fp_bytes :: "fingerprint \<Rightarrow> bytes" where
  "fp_bytes (Fingerprint a b c d) = [a, b, c, d]"

definition as_bytes :: "string \<Rightarrow> bytes" where
  "as_bytes s = map of_char s"

definition hex_nibble :: "u8 \<Rightarrow> u8 option" where
  "hex_nibble c =
     (if 48 \<le> c \<and> c \<le> 57 then Some (c - 48)
      else if 97 \<le> c \<and> c \<le> 102 then Some (c - 97 + 10)
      else if 65 \<le> c \<and> c \<le> 70 then Some (c - 65 + 10)
      else None)"

fun hex_chunks :: "bytes \<Rightarrow> (bytes, fingerprint_parse_error) res" where
  "hex_chunks [] = Ok []"
| "hex_chunks [c] = Panic"
| "hex_chunks (c # d # rest) =
     res_bind (ok_or (hex_nibble c) InvalidHex) (\<lambda>hi.
     res_bind (ok_or (hex_nibble d) InvalidHex) (\<lambda>lo.
     res_bind (hex_chunks rest) (\<lambda>out.
     Ok ((push_bit 4 hi OR lo) # out))))"

definition fp_from_hex :: "string \<Rightarrow> (fingerprint, fingerprint_parse_error) res" where
  "fp_from_hex s =
     (if length s \<noteq> 8 then Err InvalidLength
      else res_bind (hex_chunks (as_bytes s)) (\<lambda>out.
        case out of [a, b, c, d] \<Rightarrow> Ok (Fingerprint a b c d) | _ \<Rightarrow> Panic))"

definition hex_digit :: "u8 \<Rightarrow> char" where
  "hex_digit n = ''0123456789abcdef'' ! unat n"

definition hex_of_byte :: "u8 \<Rightarrow> string" where
  "hex_of_byte b = [hex_digit (drop_bit 4 b), hex_digit (b AND 0xf)]"

definition fp_to_hex :: "fingerprint \<Rightarrow> string" where
  "fp_to_hex f = concat (map hex_of_byte (fp_bytes f))"

subsection \<open>Balances, verdicts, requests\<close>

record balance =
  confirmed_sats :: u64
  trusted_pending_sats :: u64
  untrusted_pending_sats :: u64
  immature_sats :: u64

definition balance_zero :: balance where
  "balance_zero = \<lparr>confirmed_sats = 0, trusted_pending_sats = 0,
     untrusted_pending_sats = 0, immature_sats = 0\<rparr>"

definition spend_policy_reference_sats :: "balance \<Rightarrow> u64" where
  "spend_policy_reference_sats b = sat_add (confirmed_sats b) (trusted_pending_sats b)"

definition trusted_spendable_sats :: "balance \<Rightarrow> u64" where
  "trusted_spendable_sats b = spend_policy_reference_sats b"

definition total_sats :: "balance \<Rightarrow> u64" where
  "total_sats b =
     sat_add (sat_add (sat_add (confirmed_sats b) (trusted_pending_sats b))
       (untrusted_pending_sats b)) (immature_sats b)"

record psbt_verdict =
  vd_ok :: bool
  vd_recipient :: string
  vd_amount_sats :: u64
  vd_change_sats :: u64
  vd_fee_sats :: u64
  vd_feerate_sat_vb :: u64

datatype fee_target = FeerateSatVb u64 | AbsoluteSats u64

fun is_feerate :: "fee_target \<Rightarrow> bool" where
  "is_feerate (FeerateSatVb _) = True"
| "is_feerate (AbsoluteSats _) = False"

fun is_absolute :: "fee_target \<Rightarrow> bool" where
  "is_absolute (AbsoluteSats _) = True"
| "is_absolute (FeerateSatVb _) = False"

record send_request =
  sr_recipient :: string
  sr_amount_sats :: u64
  sr_fee_target :: fee_target

record address_info =
  ai_address :: string
  ai_index :: u32
  ai_keychain :: keychain_kind

record xpub_with_origin =
  xo_fingerprint :: fingerprint
  xo_origin_path :: string
  xo_xpub :: string

definition key_origin_prefix :: "xpub_with_origin \<Rightarrow> string" where
  "key_origin_prefix x =
     ''['' @ fp_to_hex (xo_fingerprint x) @ ''/'' @ xo_origin_path x @ '']'' @ xo_xpub x"

section \<open>Lemmas\<close>

lemma slot_roundtrip [simp]: "slot_from_u8 (slot_as_u8 s) = Some s"
  by (cases s) (simp_all add: slot_from_u8_def)

lemma slot_from_u8_Some: "slot_from_u8 v = Some s \<Longrightarrow> slot_as_u8 s = v"
  by (auto simp: slot_from_u8_def split: if_splits)

lemma wc_roundtrip [simp]: "wc_from_words (wc_words w) = Some w"
  by (cases w) (simp_all add: wc_from_words_def)

lemma wc_from_words_Some: "wc_from_words n = Some w \<Longrightarrow> wc_words w = n"
  by (auto simp: wc_from_words_def split: if_splits)

lemma length_as_bytes [simp, codec_simps]: "length (as_bytes s) = length s"
  by (simp add: as_bytes_def)

lemma hex_chunks_not_Panic: "even (length bs) \<Longrightarrow> hex_chunks bs \<noteq> Panic"
  by (induction bs rule: hex_chunks.induct) (auto simp: res_bind_eq_Panic)

lemma length_hex_chunks: "hex_chunks bs = Ok out \<Longrightarrow> length bs = 2 * length out"
  by (induction bs arbitrary: out rule: hex_chunks.induct) (auto simp: res_simps)

lemma length_4_cases: "length xs = 4 \<Longrightarrow> \<exists>a b c d. xs = [a, b, c, d]"
  by (auto simp: numeral_eq_Suc length_Suc_conv)

lemma fp_from_hex_not_Panic: "fp_from_hex s \<noteq> Panic"
proof (cases "length s = 8")
  case True
  then have "hex_chunks (as_bytes s) \<noteq> Panic"
    by (intro hex_chunks_not_Panic) simp
  moreover have "\<exists>a b c d. out = [a, b, c, d]" if "hex_chunks (as_bytes s) = Ok out" for out
    using length_hex_chunks [OF that] True by (intro length_4_cases) simp
  ultimately show ?thesis
    using True by (fastforce simp: fp_from_hex_def res_bind_eq_Panic)
qed (simp add: fp_from_hex_def)

lemma hex_digits_decode:
  "\<forall>k \<in> set [0..<16]. hex_nibble (of_char (''0123456789abcdef'' ! k)) = Some (of_nat k)"
  by code_simp

lemma hex_nibble_digit:
  assumes "unat n < 16"
  shows "hex_nibble (of_char (hex_digit n)) = Some n"
  using bspec [OF hex_digits_decode, of "unat n"] assms by (simp add: hex_digit_def)

lemma low_nibble: "b AND 0xf = take_bit 4 (b :: u8)"
  by (simp add: take_bit_eq_mask mask_numeral)

lemma join_nibbles: "push_bit 4 (drop_bit 4 b) OR (b AND 0xf) = (b :: u8)"
  unfolding low_nibble by (rule bit_word_eqI) (auto simp: bit_simps)

lemma nibble_bounds: "unat (drop_bit 4 (b :: u8)) < 16" "unat (b AND 0xf) < 16"
  unfolding low_nibble using unat_lt2p [of b]
  by (simp_all add: drop_bit_eq_div take_bit_eq_mod unat_div unat_mod)

lemma hex_chunks_hex_of_byte:
  "hex_chunks (as_bytes (hex_of_byte b @ s)) = res_bind (hex_chunks (as_bytes s)) (\<lambda>out. Ok (b # out))"
  by (simp add: hex_of_byte_def as_bytes_def hex_nibble_digit nibble_bounds join_nibbles)

lemma hex_chunks_to_hex: "hex_chunks (as_bytes (concat (map hex_of_byte bs))) = Ok bs"
proof (induction bs)
  case Nil
  show ?case by (simp add: as_bytes_def)
next
  case (Cons b bs)
  then show ?case by (simp add: hex_chunks_hex_of_byte)
qed

lemma length_fp_to_hex [simp]: "length (fp_to_hex f) = 8"
  by (cases f) (simp add: fp_to_hex_def hex_of_byte_def)

lemma fp_hex_roundtrip [simp]: "fp_from_hex (fp_to_hex f) = Ok f"
proof (cases f)
  case (Fingerprint a b c d)
  have "hex_chunks (as_bytes (fp_to_hex f)) = Ok [a, b, c, d]"
    using hex_chunks_to_hex [of "fp_bytes f"] Fingerprint by (simp add: fp_to_hex_def)
  then show ?thesis using Fingerprint by (simp add: fp_from_hex_def)
qed

lemma unat_spend_policy_reference [word_nat_simps]:
  "unat (spend_policy_reference_sats b) =
     min (unat (confirmed_sats b) + unat (trusted_pending_sats b)) (2 ^ 64 - 1)"
  by (simp add: spend_policy_reference_sats_def unat_sat_add)

end
