(* ===== verification/Trinity_Errors.thy ===== *)
theory Trinity_Errors
  imports Trinity_Prelude
begin

text \<open>
  The closed error enums of the crates, one datatype each, one constructor per variant:
  \<open>ParseError\<close>, \<open>DeriveError\<close>, \<open>VerifyError\<close> (\<open>crates/trinity-verify/src/error.rs\<close>),
  \<open>BlobError\<close> and \<open>PlatformError\<close> (\<open>crates/trinity-keystore/src\<close>), \<open>CoreStateError\<close> and
  \<open>SignError\<close> (\<open>crates/trinity-signer/src\<close>), \<open>EntropyError\<close> (\<open>crates/trinity-entropy/src\<close>).
  A two-letter prefix keeps variants of different enums apart. The static \<open>detail\<close> strings
  of the structural errors are an enum of their own.
\<close>

datatype parse_error =
    PE_MissingChecksum | PE_MalformedChecksum | PE_InvalidChecksum | PE_InvalidCharset
  | PE_WrongTopLevel | PE_ExpectedSortedMulti | PE_WrongThreshold string | PE_WrongKeyCount nat
  | PE_MalformedFingerprint | PE_MalformedOriginPath string | PE_InvalidOriginPath string
  | PE_MultipathForbidden | PE_MalformedXpub | PE_PrivateKeyForbidden | PE_MalformedDerivation
  | PE_MalformedKeyExpression | PE_TrailingGarbage | PE_UnexpectedEof

datatype derive_error =
    DE_HardenedIndex u32 | DE_InvalidPublicKey | DE_InvalidTweak | DE_MalformedXpub
  | DE_InvalidMultisigParams u32 u32 | DE_InvalidCompressedPubkey nat

datatype psbt_detail =
    InputMapLength | OutputMapLength | NoInputs | NonEmptyScriptSig | NonEmptyWitness
  | InputCountExceeds | OutputCountExceeds | InputCount

datatype verify_error =
    VE_Descriptor parse_error
  | VE_Derive derive_error
  | VE_ForeignInput nat
  | VE_ForeignChangeOutput nat
  | VE_MismatchedDerivation nat
  | VE_FeeNonPositive
  | VE_FeeTooHigh u64 u64
  | VE_FeerateTooHigh u64 u64
  | VE_FeeMismatch u64 u64
  | VE_AmountMismatch u64 u64
  | VE_UnknownInput nat
  | VE_MismatchedUtxo nat
  | VE_InconsistentPsbt psbt_detail
  | VE_TooManyInputsOutputs psbt_detail
  | VE_ProprietaryField
  | VE_MissingWitnessUtxo nat
  | VE_NonWitnessUtxoOnly nat
  | VE_BadSignature nat
  | VE_NonSighashAll nat
  | VE_PsbtDecode
  | VE_InvalidOutputAddress nat

datatype blob_error =
    BE_Truncated | BE_BadMagic | BE_UnsupportedVersion u8 | BE_UnsupportedReserved
  | BE_InvalidSlot | BE_InvalidWordCount u8 | BE_EntropyLength nat nat | BE_CsRng
  | BE_Aead | BE_PlaintextLength

datatype platform_error =
    PF_UnwrapRejected | PF_KeyInvalidated | PF_WrapFailed | PF_ProvisionFailed
  | PF_DestroyFailed | PF_InvalidSlot | PF_Unexpected

datatype core_state_error =
    CE_Truncated | CE_BadMagic | CE_UnsupportedVersion u8 | CE_UnsupportedReserved
  | CE_CsRng | CE_Aead | CE_Plaintext

datatype card_error = CardUnexpectedByte nat u8 | CardIncomplete | CardDuplicate string

datatype entropy_error =
    EE_EmptyDice | EE_InvalidDice nat u8 | EE_EmptyCoins | EE_InvalidCoin nat u8
  | EE_EmptyCards | EE_InvalidCard card_error | EE_CsRng | EE_BadEntropyLength nat
  | EE_Bip39 | EE_MasterKey

datatype sign_error =
    SE_Verify verify_error
  | SE_SelfVerificationFailed
  | SE_NonSighashAll nat
  | SE_Platform platform_error
  | SE_UnsignedTxChanged
  | SE_UnexpectedKeyASignature
  | SE_Blob blob_error
  | SE_Entropy
  | SE_Bip32
  | SE_InvalidKekLength
  | SE_InvalidSlot
  | SE_FingerprintMismatch
  | SE_MissingWitnessUtxo nat
  | SE_MissingWitnessScript nat
  | SE_MissingDerivation nat
  | SE_PubkeyMismatch nat
  | SE_Sighash nat
  | SE_EmptyPsbt
  | SE_TooManyInputs
  | SE_UnbalancedPsbt
  | SE_SpendLimitExceeded
  | SE_WindowLedgerFull
  | SE_FloorAboveCap
  | SE_PolicyOutOfRange
  | SE_InvalidSpendPolicy
  | SE_CoreState core_state_error
  | SE_ConsensusRejected
  | SE_FinalFeerateTooHigh u64 u64
  | SE_IncompleteWitness nat
  | SE_WitnessScriptMismatch nat
  | SE_InvalidDerivationPath nat

end
