(* ===== verification/Spend_Limits.thy ===== *)
theory Spend_Limits
  imports Trinity_Types Trinity_Errors
begin

text \<open>
  \<open>crates/trinity-signer/src/limits.rs\<close>: the rational window share, the spend policy, its
  validation and the clamp that yields the window allowance. A \<open>Duration\<close> is its length in
  nanoseconds (the source only builds, compares and takes minima of durations).

  The lemmas give the arithmetic of \<open>Ratio::of\<close> (the saturating 128-bit product never
  saturates), the allowance as a clamp on naturals, and that the setter accepts exactly the
  policies inside the documented range.
\<close>

type_synonym duration = nat

definition duration_from_secs :: "u64 \<Rightarrow> duration" where
  "duration_from_secs s = unat s * 1000000000"

definition duration_from_nanos :: "u64 \<Rightarrow> duration" where
  "duration_from_nanos n = unat n"

record ratio =
  numer :: u64
  denom :: u64

definition ratio_new :: "u64 \<Rightarrow> u64 \<Rightarrow> ratio option" where
  "ratio_new n d = (if d = 0 then None else Some \<lparr>numer = n, denom = d\<rparr>)"

definition percent_20 :: ratio where
  "percent_20 = \<lparr>numer = 1, denom = 5\<rparr>"

definition ratio_of :: "ratio \<Rightarrow> u64 \<Rightarrow> u64" where
  "ratio_of r value =
     (let n = sat_mul (ucast value :: u128) (ucast (numer r)) div ucast (denom r)
      in if ucast u64_max < n then u64_max else ucast n)"

record spend_policy =
  window_fraction :: "ratio option"
  window_floor_sat :: "u64 option"
  window_cap_sat :: "u64 option"
  sp_window :: duration
  passphrase_on_first_use :: bool

definition policy_standard :: spend_policy where
  "policy_standard = \<lparr>window_fraction = Some percent_20, window_floor_sat = Some 200,
     window_cap_sat = Some 500, sp_window = duration_from_secs (24 * 60 * 60),
     passphrase_on_first_use = True\<rparr>"

definition policy_off :: spend_policy where
  "policy_off = \<lparr>window_fraction = None, window_floor_sat = None,
     window_cap_sat = None, sp_window = duration_from_secs (24 * 60 * 60),
     passphrase_on_first_use = True\<rparr>"

definition unwrap_or :: "'a option \<Rightarrow> 'a \<Rightarrow> 'a" where
  "unwrap_or x d = (case x of None \<Rightarrow> d | Some v \<Rightarrow> v)"

definition policy_validate :: "spend_policy \<Rightarrow> (spend_policy, sign_error) res" where
  "policy_validate p =
     (let floor = unwrap_or (window_floor_sat p) 0;
          cap = unwrap_or (window_cap_sat p) u64_max
      in if cap < floor then Err SE_FloorAboveCap
         else if \<not> passphrase_on_first_use p then Err SE_InvalidSpendPolicy
         else if (case window_fraction p of
                    None \<Rightarrow> False
                  | Some f \<Rightarrow> numer f = 0 \<or> denom f < numer f \<or> sat_mul (numer f) 100 < denom f)
         then Err SE_PolicyOutOfRange
         else if sp_window p < duration_from_secs (60 * 60)
               \<or> duration_from_secs (7 * 24 * 60 * 60) < sp_window p
         then Err SE_PolicyOutOfRange
         else Ok p)"

definition set_spend_policy :: "spend_policy \<Rightarrow> (spend_policy, sign_error) res" where
  "set_spend_policy p = policy_validate p"

definition allowance :: "spend_policy \<Rightarrow> u64 \<Rightarrow> u64" where
  "allowance p balance_sat =
     (let by_fraction = unwrap_or (map_option (\<lambda>f. ratio_of f balance_sat) (window_fraction p)) u64_max;
          floor = unwrap_or (window_floor_sat p) 0;
          cap = unwrap_or (window_cap_sat p) u64_max
      in if cap < floor then 0
         else min (max floor (min by_fraction cap)) balance_sat)"

abbreviation policy_floor :: "spend_policy \<Rightarrow> nat" where
  "policy_floor p \<equiv> unat (unwrap_or (window_floor_sat p) 0)"

abbreviation policy_cap :: "spend_policy \<Rightarrow> nat" where
  "policy_cap p \<equiv> unat (unwrap_or (window_cap_sat p) u64_max)"

text \<open>The window share as arithmetic on naturals.\<close>

definition share_of :: "spend_policy \<Rightarrow> nat \<Rightarrow> nat" where
  "share_of p b = (case window_fraction p of
     None \<Rightarrow> 2 ^ 64 - 1
   | Some f \<Rightarrow> min (b * unat (numer f) div unat (denom f)) (2 ^ 64 - 1))"

section \<open>Lemmas\<close>

lemma unwrap_or_simps [simp]: "unwrap_or None d = d" "unwrap_or (Some v) d = v"
  by (simp_all add: unwrap_or_def)

lemma unat_ucast_u128 [word_nat_simps]: "unat (ucast (w :: u64) :: u128) = unat w"
  using unat_lt2p [of w] by (simp add: unsigned_ucast_eq take_bit_nat_eq_self_iff)

lemma mult_u64_lt: "unat (a :: u64) * unat (b :: u64) < 2 ^ 128"
proof -
  have "unat a * unat b \<le> (2 ^ 64 - 1) * (2 ^ 64 - 1)"
    using unat_lt2p [of a] unat_lt2p [of b] by (intro mult_le_mono) simp_all
  also have "\<dots> < 2 ^ 128" by simp
  finally show ?thesis .
qed

lemma unat_ratio_of [word_nat_simps]:
  "unat (ratio_of r v) = min (unat v * unat (numer r) div unat (denom r)) (2 ^ 64 - 1)"
proof -
  let ?n = "sat_mul (ucast v :: u128) (ucast (numer r)) div ucast (denom r)"
  have n: "unat ?n = unat v * unat (numer r) div unat (denom r)"
    using mult_u64_lt [of v "numer r"]
    by (simp add: unat_div unat_sat_mul unat_ucast_u128 min_def)
  have lt: "ucast u64_max < ?n \<longleftrightarrow> 2 ^ 64 - 1 < unat ?n"
    unfolding word_less_nat_alt unat_ucast_u128 unat_minus_1 by simp
  show ?thesis
  proof (cases "2 ^ 64 - 1 < unat ?n")
    case True
    then show ?thesis using n lt by (simp add: ratio_of_def Let_def unat_minus_1 del: unat_div)
  next
    case False
    then have "unat (ucast ?n :: u64) = unat ?n"
      by (simp add: unsigned_ucast_eq take_bit_nat_eq_self_iff)
    then show ?thesis using n lt False by (simp add: ratio_of_def Let_def)
  qed
qed

lemma unat_min_word: "unat (min a b) = min (unat a) (unat (b :: 'a::len word))"
  by (simp add: min_def word_le_nat_alt)

lemma unat_max_word: "unat (max a b) = max (unat a) (unat (b :: 'a::len word))"
  by (simp add: max_def word_le_nat_alt)

lemma unat_allowance:
  "unat (allowance p b) =
     (if policy_cap p < policy_floor p then 0
      else min (max (policy_floor p) (min (share_of p (unat b)) (policy_cap p))) (unat b))"
proof (cases "window_fraction p")
  case None
  have "policy_cap p \<le> 2 ^ 64 - 1"
    using unat_lt2p [of "unwrap_or (window_cap_sat p) u64_max"] by simp
  with None show ?thesis
    by (simp add: allowance_def Let_def share_of_def unat_min_word unat_max_word word_less_nat_alt
        unat_minus_1)
next
  case (Some f)
  then show ?thesis
    by (simp add: allowance_def Let_def share_of_def unat_min_word unat_max_word word_less_nat_alt
        unat_ratio_of)
qed

lemma share_of_mono: "b \<le> b' \<Longrightarrow> share_of p b \<le> share_of p b'"
  by (cases "window_fraction p")
    (simp_all add: share_of_def min.mono [OF div_le_mono [OF mult_le_mono1] order.refl] del: min.bounded_iff)

lemma policy_validate_Ok:
  "policy_validate p = Ok q \<longleftrightarrow>
     q = p \<and> policy_floor p \<le> policy_cap p \<and> passphrase_on_first_use p
     \<and> (\<forall>f. window_fraction p = Some f \<longrightarrow>
            0 < unat (numer f) \<and> unat (numer f) \<le> unat (denom f)
            \<and> unat (denom f) \<le> 100 * unat (numer f))
     \<and> 3600 * 10 ^ 9 \<le> sp_window p \<and> sp_window p \<le> 604800 * 10 ^ 9"
proof -
  have frac: "(numer f = 0 \<or> denom f < numer f \<or> sat_mul (numer f) 100 < denom f) \<longleftrightarrow>
      \<not> (0 < unat (numer f) \<and> unat (numer f) \<le> unat (denom f)
         \<and> unat (denom f) \<le> 100 * unat (numer f))" for f
    using unat_lt2p [of "denom f"]
    by (auto simp: word_less_nat_alt unat_sat_mul unat_eq_0 not_less min_def split: if_splits)
  show ?thesis
    unfolding policy_validate_def Let_def duration_from_secs_def
    by (cases "window_fraction p")
      (simp_all only: option.case frac, auto simp: word_less_nat_alt not_less)
qed

section \<open>Properties\<close>

text \<open>What may leave the wallet in one window without the passphrase is never more than
  the configured cap and never more than the reference balance, for every policy value
  (also one built from the public fields with the floor above the cap) and every balance;
  and where the floor is not above the cap, at least the floor (or the whole balance, if
  smaller) is allowed.\<close>

theorem allowance_bounded:
  "unat (allowance p b) \<le> policy_cap p \<and> unat (allowance p b) \<le> unat b
   \<and> (policy_cap p < policy_floor p \<or> min (policy_floor p) (unat b) \<le> unat (allowance p b))"
  by (auto simp: unat_allowance)

text \<open>A larger reference balance never lowers the allowance.\<close>

theorem allowance_mono:
  assumes "b \<le> b'"
  shows "allowance p b \<le> allowance p b'"
proof -
  have le: "unat b \<le> unat b'" using assms by (simp add: word_le_nat_alt)
  have "share_of p (unat b) \<le> share_of p (unat b')" using le by (rule share_of_mono)
  then show ?thesis using le by (auto simp: word_le_nat_alt unat_allowance)
qed

theorem allowance_mono_witness: "allowance policy_standard 1500 \<le> allowance policy_standard 2501"
  by (rule allowance_mono) simp

text \<open>The setter accepts a policy exactly when the floor is not above the cap, the
  first-use passphrase stays on, the share lies between 1 and 100 percent and the window
  between one hour and seven days; it stores the policy unchanged.\<close>

theorem set_spend_policy_accepts:
  "set_spend_policy p = Ok q \<longleftrightarrow>
     q = p \<and> policy_floor p \<le> policy_cap p \<and> passphrase_on_first_use p
     \<and> (case window_fraction p of None \<Rightarrow> True
         | Some f \<Rightarrow> 0 < unat (numer f) \<and> unat (numer f) \<le> unat (denom f)
                    \<and> unat (denom f) \<le> 100 * unat (numer f))
     \<and> 3600 * 10 ^ 9 \<le> sp_window p \<and> sp_window p \<le> 604800 * 10 ^ 9"
  by (auto simp: set_spend_policy_def policy_validate_Ok split: option.splits)

end
