(* ===== verification/Bitcoin_Data.thy ===== *)
theory Bitcoin_Data
  imports Trinity_Types
begin

text \<open>
  The transaction and PSBT data that the verifier and the signer read, as the vendored
  \<open>bitcoin\<close> crate declares it (\<open>vendor/bitcoin/src\<close>), with the few pure operations of that
  crate whose result the wallet code branches on: parsing a derivation path, the standard
  sighash types, script pushes, the PSBT fee and the extraction of the final transaction.

  Curve arithmetic, hashes, address encoding, transaction sizes and script execution are
  not modelled: they are the fields of the parameter record \<open>prims\<close>, an argument of every
  definition that uses them. A public key is its 33-byte compressed serialisation, a
  \<open>BTreeMap\<close> is the association list of its traversal.
\<close>

subsection \<open>Networks\<close>

datatype btc_network = BtcBitcoin | BtcTestnet | BtcTestnet4 | BtcSignet | BtcRegtest

subsection \<open>Transactions\<close>

datatype out_point = OutPoint (op_txid: bytes) (op_vout: u32)

instantiation out_point :: linorder
begin

definition less_eq_out_point :: "out_point \<Rightarrow> out_point \<Rightarrow> bool" where
  "less_eq_out_point a b \<longleftrightarrow> (op_txid a, op_vout a) \<le> (op_txid b, op_vout b)"

definition less_out_point :: "out_point \<Rightarrow> out_point \<Rightarrow> bool" where
  "less_out_point a b \<longleftrightarrow> (op_txid a, op_vout a) < (op_txid b, op_vout b)"

instance
  by standard
    (auto simp: less_eq_out_point_def less_out_point_def out_point.expand
      dest: order.antisym intro: out_point.expand)

end

record tx_out =
  to_value :: u64
  to_script_pubkey :: bytes

record tx_in =
  ti_previous_output :: out_point
  ti_script_sig :: bytes
  ti_sequence :: u32
  ti_witness :: "bytes list"

record transaction =
  tx_version :: u32
  tx_lock_time :: u32
  tx_input :: "tx_in list"
  tx_output :: "tx_out list"

subsection \<open>Derivation paths\<close>

datatype child_number = Normal u32 | Hardened u32

type_synonym derivation_path = "child_number list"
type_synonym key_source = "fingerprint \<times> derivation_path"

fun split_on :: "char \<Rightarrow> string \<Rightarrow> string list" where
  "split_on c [] = [[]]"
| "split_on c (x # xs) =
     (if x = c then [] # split_on c xs
      else (case split_on c xs of s # ss \<Rightarrow> (x # s) # ss | [] \<Rightarrow> [[x]]))"

definition is_ascii_digit :: "char \<Rightarrow> bool" where
  "is_ascii_digit c \<longleftrightarrow> 48 \<le> (of_char c :: nat) \<and> (of_char c :: nat) \<le> 57"

definition decimal_value :: "string \<Rightarrow> nat" where
  "decimal_value s = foldl (\<lambda>n c. 10 * n + (of_char c - 48)) 0 s"

text \<open>
  \<open>str::parse\<close> for an unsigned integer below \<open>bound\<close>: an optional plus sign, at least one
  digit, no overflow.
\<close>

definition parse_uint :: "nat \<Rightarrow> string \<Rightarrow> nat option" where
  "parse_uint bound s =
     (let d = (case s of c # r \<Rightarrow> if c = CHR ''+'' then r else s | [] \<Rightarrow> s)
      in if d \<noteq> [] \<and> list_all is_ascii_digit d \<and> decimal_value d < bound
         then Some (decimal_value d) else None)"

datatype bip32_error = InvalidChildNumberFormat | InvalidChildNumber u32

definition child_from_idx :: "(u32 \<Rightarrow> child_number) \<Rightarrow> u32 \<Rightarrow> (child_number, bip32_error) res" where
  "child_from_idx con index =
     (if \<not> bit index 31 then Ok (con index) else Err (InvalidChildNumber index))"

definition child_number_from_str :: "string \<Rightarrow> (child_number, bip32_error) res" where
  "child_number_from_str inp =
     (if inp \<noteq> [] \<and> (last inp = CHR 0x27 \<or> last inp = CHR ''h'')
      then res_bind (ok_or (parse_uint (2 ^ 32) (butlast inp)) InvalidChildNumberFormat)
             (\<lambda>n. child_from_idx Hardened (of_nat n))
      else res_bind (ok_or (parse_uint (2 ^ 32) inp) InvalidChildNumberFormat)
             (\<lambda>n. child_from_idx Normal (of_nat n)))"

primrec res_traverse :: "('a \<Rightarrow> ('b, 'e) res) \<Rightarrow> 'a list \<Rightarrow> ('b list, 'e) res" where
  "res_traverse f [] = Ok []"
| "res_traverse f (x # xs) =
     res_bind (f x) (\<lambda>y. res_bind (res_traverse f xs) (\<lambda>ys. Ok (y # ys)))"

definition strip_prefix :: "string \<Rightarrow> string \<Rightarrow> string option" where
  "strip_prefix p s = (if take (length p) s = p then Some (drop (length p) s) else None)"

definition derivation_path_from_str :: "string \<Rightarrow> (derivation_path, bip32_error) res" where
  "derivation_path_from_str path =
     (if path = [] \<or> path = ''m'' \<or> path = ''m/'' then Ok []
      else (let path = (case strip_prefix ''m/'' path of Some r \<Rightarrow> r | None \<Rightarrow> path)
            in res_traverse child_number_from_str (split_on (CHR ''/'') path)))"

subsection \<open>Signatures and sighash types\<close>

datatype ecdsa_sighash_type =
    SighashAll | SighashNone | SighashSingle
  | SighashAllAcp | SighashNoneAcp | SighashSingleAcp

definition sighash_from_standard :: "u32 \<Rightarrow> ecdsa_sighash_type option" where
  "sighash_from_standard n =
     (if n = 0x01 then Some SighashAll
      else if n = 0x02 then Some SighashNone
      else if n = 0x03 then Some SighashSingle
      else if n = 0x81 then Some SighashAllAcp
      else if n = 0x82 then Some SighashNoneAcp
      else if n = 0x83 then Some SighashSingleAcp
      else None)"

fun sighash_to_u8 :: "ecdsa_sighash_type \<Rightarrow> u8" where
  "sighash_to_u8 SighashAll = 0x01"
| "sighash_to_u8 SighashNone = 0x02"
| "sighash_to_u8 SighashSingle = 0x03"
| "sighash_to_u8 SighashAllAcp = 0x81"
| "sighash_to_u8 SighashNoneAcp = 0x82"
| "sighash_to_u8 SighashSingleAcp = 0x83"

record signature =
  sig_signature :: bytes
  sig_sighash_type :: ecdsa_sighash_type

text \<open>\<open>bitcoin::PublicKey\<close>: the compression flag and the inner key, ordered in that order.\<close>

type_synonym secp_key = bytes
type_synonym public_key = "bool \<times> secp_key"

definition public_key_new :: "secp_key \<Rightarrow> public_key" where
  "public_key_new inner = (True, inner)"

subsection \<open>PSBTs\<close>

type_synonym proprietary = "(bytes \<times> bytes) list"

record psbt_input =
  in_non_witness_utxo :: "transaction option"
  in_witness_utxo :: "tx_out option"
  in_partial_sigs :: "(public_key \<times> signature) list"
  in_sighash_type :: "u32 option"
  in_witness_script :: "bytes option"
  in_bip32_derivation :: "(secp_key \<times> key_source) list"
  in_final_script_sig :: "bytes option"
  in_final_script_witness :: "bytes list option"
  in_proprietary :: proprietary

record psbt_output =
  out_bip32_derivation :: "(secp_key \<times> key_source) list"
  out_proprietary :: proprietary

record psbt =
  ps_unsigned_tx :: transaction
  ps_inputs :: "psbt_input list"
  ps_outputs :: "psbt_output list"
  ps_proprietary :: proprietary

definition extract_tx :: "psbt \<Rightarrow> transaction" where
  "extract_tx p =
     (ps_unsigned_tx p)\<lparr>tx_input :=
        map (\<lambda>(vin, pin). vin\<lparr>
              ti_script_sig := (case in_final_script_sig pin of Some s \<Rightarrow> s | None \<Rightarrow> []),
              ti_witness := (case in_final_script_witness pin of Some w \<Rightarrow> w | None \<Rightarrow> [])\<rparr>)
            (zip (tx_input (ps_unsigned_tx p)) (ps_inputs p))
        @ drop (length (ps_inputs p)) (tx_input (ps_unsigned_tx p))\<rparr>"

subsection \<open>Cryptographic and encoding primitives\<close>

record prims =
  xpub_from_str :: "string \<Rightarrow> (bytes \<times> secp_key) option"
  hmac_sha512 :: "bytes \<Rightarrow> bytes \<Rightarrow> bytes"
  pubkey_valid :: "bytes \<Rightarrow> bool"
  seckey_valid :: "bytes \<Rightarrow> bool"
  add_exp_tweak :: "secp_key \<Rightarrow> bytes \<Rightarrow> secp_key option"
  sha256 :: "bytes \<Rightarrow> bytes"
  address_from_script :: "bytes \<Rightarrow> network \<Rightarrow> string option"
  tx_vsize :: "transaction \<Rightarrow> u64"
  compute_txid :: "transaction \<Rightarrow> bytes"
  p2wsh_signature_hash :: "transaction \<Rightarrow> nat \<Rightarrow> bytes \<Rightarrow> u64 \<Rightarrow> ecdsa_sighash_type \<Rightarrow> bytes option"
  sign_ecdsa_low_r :: "bytes \<Rightarrow> bytes \<Rightarrow> bytes"
  verify_ecdsa :: "bytes \<Rightarrow> bytes \<Rightarrow> secp_key \<Rightarrow> bool"
  normalize_s :: "bytes \<Rightarrow> bytes"
  serialize_der :: "bytes \<Rightarrow> bytes"
  verify_script :: "bytes \<Rightarrow> nat \<Rightarrow> u64 \<Rightarrow> transaction \<Rightarrow> bool"
  psbt_from_base64 :: "string \<Rightarrow> psbt option"

subsection \<open>A concrete instance of the primitives\<close>

text \<open>
  A computable stand-in with the algebraic shape of the real primitives (a public key is the
  prefix 2 and the secret, a signature is the message and the secret), used only to evaluate
  the model on concrete inputs.
\<close>

definition byte_sum :: "bytes \<Rightarrow> u8" where
  "byte_sum bs = foldl (+) 0 bs"

definition sample_prims :: prims where
  "sample_prims = \<lparr>
     xpub_from_str = (\<lambda>s. if s = [] then None
        else Some (replicate 32 (of_char (last s)), 2 # replicate 32 (of_char (last s)))),
     hmac_sha512 = (\<lambda>k d. replicate 32 (byte_sum d) @ replicate 32 (byte_sum k)),
     pubkey_valid = (\<lambda>k. length k = 33 \<and> (k ! 0 = 2 \<or> k ! 0 = 3)),
     seckey_valid = (\<lambda>k. length k = 32),
     add_exp_tweak = (\<lambda>k t. Some (2 # map2 (+) (tl k) t)),
     sha256 = (\<lambda>m. replicate 32 (byte_sum m)),
     address_from_script = (\<lambda>spk net. Some (map (\<lambda>b. char_of (unat b)) spk)),
     tx_vsize = (\<lambda>tx. 100 + 10 * of_nat (length (tx_output tx))),
     compute_txid = (\<lambda>tx. replicate 32 (of_nat (length (tx_input tx)))),
     p2wsh_signature_hash = (\<lambda>tx i ws v ty. Some (replicate 32 (of_nat i + byte_sum ws))),
     sign_ecdsa_low_r = (\<lambda>msg sk. msg @ sk),
     verify_ecdsa = (\<lambda>msg sg pk. take 32 sg = msg \<and> 2 # drop 32 sg = pk),
     normalize_s = (\<lambda>sg. sg),
     serialize_der = (\<lambda>sg. sg),
     verify_script = (\<lambda>spk i v tx. True),
     psbt_from_base64 = (\<lambda>s. None)\<rparr>"

subsection \<open>Sums of amounts\<close>

definition sum_checked :: "u64 list \<Rightarrow> u64 option" where
  "sum_checked vs = foldl (\<lambda>acc v. Option.bind acc (\<lambda>a. checked_add a v)) (Some 0) vs"

section \<open>Lemmas\<close>

lemma split_on_nonempty [simp]: "split_on c s \<noteq> []"
  by (cases "(c, s)" rule: split_on.cases) (auto split: list.splits)

lemma split_on_no_sep: "c \<notin> set s \<Longrightarrow> split_on c s = [s]"
  by (induction s) auto

lemma split_on_append: "c \<notin> set s \<Longrightarrow> split_on c (s @ c # t) = s # split_on c t"
  by (induction s) auto

lemma res_traverse_Ok:
  "res_traverse f xs = Ok ys \<longleftrightarrow> list_all2 (\<lambda>x y. f x = Ok y) xs ys"
  by (induction xs arbitrary: ys) (auto simp: res_simps list_all2_Cons1)

lemma strip_prefix_Some: "strip_prefix p s = Some r \<longleftrightarrow> s = p @ r"
  by (auto simp: strip_prefix_def) (metis append_take_drop_id)

lemma strip_prefix_append [simp]: "strip_prefix p (p @ r) = Some r"
  by (simp add: strip_prefix_Some)

lemma sighash_from_standard_All [simp]: "sighash_from_standard n = Some SighashAll \<longleftrightarrow> n = 1"
  by (simp add: sighash_from_standard_def)

lemma foldl_bind_None: "foldl (\<lambda>acc v. Option.bind acc (\<lambda>a. checked_add a v)) None vs = None"
  by (induction vs) auto

lemma foldl_checked_add:
  "foldl (\<lambda>acc v. Option.bind acc (\<lambda>a. checked_add a v)) (Some (z :: u64)) vs = Some t \<longleftrightarrow>
     unat t = unat z + sum_list (map unat vs)"
proof (induction vs arbitrary: z)
  case Nil
  then show ?case by (auto simp: word_unat_eq_iff)
next
  case (Cons v vs)
  show ?case
  proof (cases "checked_add z v")
    case None
    then have "2 ^ 64 \<le> unat z + unat v"
      by (simp add: checked_add_def split: if_splits)
    then show ?thesis
      using None unat_lt2p [of t] by (simp add: foldl_bind_None)
  next
    case (Some c)
    then have "unat c = unat z + unat v" by (simp add: checked_add_eq_Some)
    with Some Cons.IH [of c] show ?thesis by (simp add: add.assoc)
  qed
qed

lemma sum_checked_eq_Some: "sum_checked vs = Some t \<longleftrightarrow> unat t = sum_list (map unat vs)"
  by (simp add: sum_checked_def foldl_checked_add)

end
