(* ===== verification/Sealed_Blob.thy ===== *)
theory Sealed_Blob
  imports Trinity_Prelude
begin

text \<open>
  XChaCha20-Poly1305 as both blob formats use it (\<open>crates/trinity-signer/src/core_state.rs\<close>,
  \<open>crates/trinity-keystore/src/blob.rs\<close>): a clear header that is also the associated data and
  carries the nonce, followed by the ciphertext with its tag. The cipher is the vendored
  \<open>chacha20poly1305\<close> crate and is the parameter record \<open>aead\<close>; \<open>aead_correct\<close> and
  \<open>aead_authentic\<close> name its documented behaviour where a property needs it.

  The locale \<open>sealed_format\<close> is the contract between a blob format and its callers. It is
  interpreted for the core-state blob in \<open>Core_State\<close> and for the key blob in \<open>Keystore\<close>.
\<close>

record aead =
  aead_encrypt :: "bytes \<Rightarrow> bytes \<Rightarrow> bytes \<Rightarrow> bytes \<Rightarrow> bytes option"
  aead_decrypt :: "bytes \<Rightarrow> bytes \<Rightarrow> bytes \<Rightarrow> bytes \<Rightarrow> bytes option"

text \<open>Encryption of a short message succeeds, appends a 16-byte tag and is undone by decryption.\<close>

definition aead_correct :: "aead \<Rightarrow> bool" where
  "aead_correct A \<longleftrightarrow>
     (\<forall>k n ad m. length m < 2 ^ 32 \<longrightarrow>
        (\<exists>c. aead_encrypt A k n ad m = Some c \<and> length c = length m + 16
           \<and> aead_decrypt A k n ad c = Some m))"

text \<open>
  Decryption accepts only what encryption under the same key, nonce and associated data
  produced (the idealised form of ciphertext integrity).
\<close>

definition aead_authentic :: "aead \<Rightarrow> bool" where
  "aead_authentic A \<longleftrightarrow>
     (\<forall>k n ad c m. aead_decrypt A k n ad c = Some m \<longrightarrow> aead_encrypt A k n ad m = Some c)"

text \<open>A concrete cipher with these laws, for witnesses: the message, then a constant tag.\<close>

definition plain_aead :: aead where
  "plain_aead = \<lparr>
     aead_encrypt = (\<lambda>k n ad m. Some (m @ replicate 16 0)),
     aead_decrypt = (\<lambda>k n ad c.
        if 16 \<le> length c \<and> drop (length c - 16) c = replicate 16 0
        then Some (take (length c - 16) c) else None)\<rparr>"

section \<open>Lemmas\<close>

lemma plain_aead_correct: "aead_correct plain_aead"
  by (simp add: aead_correct_def plain_aead_def)

lemma plain_aead_authentic: "aead_authentic plain_aead"
  by (auto simp: aead_authentic_def plain_aead_def split: if_splits)
    (metis append_take_drop_id)

lemma aead_correctD:
  assumes "aead_correct A" and "length m < 2 ^ 32"
  obtains c where "aead_encrypt A k n ad m = Some c" and "length c = length m + 16"
    and "aead_decrypt A k n ad c = Some m"
  using assms unfolding aead_correct_def by blast

locale sealed_format =
  fixes nonce_of :: "bytes \<Rightarrow> bytes"
    and seal :: "aead \<Rightarrow> bytes \<Rightarrow> bytes \<Rightarrow> bytes \<Rightarrow> (bytes, 'e) res"
    and unseal :: "aead \<Rightarrow> bytes \<Rightarrow> bytes \<Rightarrow> bytes \<Rightarrow> (bytes, 'e) res"
    and aead_err :: 'e
  assumes seal_eq: "seal A kek hdr pt =
      (case aead_encrypt A kek (nonce_of hdr) hdr pt of None \<Rightarrow> Panic | Some c \<Rightarrow> Ok (hdr @ c))"
    and unseal_eq: "unseal A kek hdr body = ok_or (aead_decrypt A kek (nonce_of hdr) hdr body) aead_err"
begin

lemma seal_total:
  assumes "aead_correct A" and "length pt < 2 ^ 32"
  shows "\<exists>body. seal A kek hdr pt = Ok (hdr @ body) \<and> length body = length pt + 16
    \<and> unseal A kek hdr body = Ok pt"
  using assms by (auto elim!: aead_correctD [of A pt kek "nonce_of hdr" hdr] simp: seal_eq unseal_eq)

lemma seal_starts_with_header: "seal A kek hdr pt = Ok blob \<Longrightarrow> \<exists>body. blob = hdr @ body"
  by (auto simp: seal_eq split: option.splits)

lemma unseal_not_Panic: "unseal A kek hdr body \<noteq> Panic"
  by (simp add: unseal_eq)

lemma unseal_Err: "unseal A kek hdr body = Err e \<Longrightarrow> e = aead_err"
  by (cases "aead_decrypt A kek (nonce_of hdr) hdr body") (auto simp: unseal_eq)

lemma unseal_authentic:
  assumes "aead_authentic A" and "unseal A kek hdr body = Ok pt"
  shows "seal A kek hdr pt = Ok (hdr @ body)"
  using assms by (auto simp: unseal_eq seal_eq aead_authentic_def res_simps)

end

end
