(* ===== verification/Core_State.thy ===== *)
theory Core_State
  imports Bitcoin_Data Trinity_Errors Sealed_Blob
begin

text \<open>
  \<open>crates/trinity-signer/src/core_state.rs\<close>: the persisted spend-window counter, its
  plaintext codec, and the sealed blob around it. A byte buffer read at a moving offset is
  the rest of the buffer from that offset. The nonce draw of the operating system is the
  argument \<open>draw\<close> (\<open>None\<close>: the generator failed).

  The lemmas show that decoding inverts encoding up to the sentinel value that the format
  reserves for an unknown height, boot id or wall time, that the format is canonical (a
  buffer that decodes is the encoding of the decoded state), and that both directions
  survive sealing.
\<close>

unbundle bit_operations_syntax

definition CORE_MAGIC :: bytes where "CORE_MAGIC = as_bytes ''TRCS''"
definition CORE_VERSION :: u8 where "CORE_VERSION = 1"
definition CORE_HEADER_LEN :: nat where "CORE_HEADER_LEN = 32"
definition NONCE_LEN :: nat where "NONCE_LEN = 24"
definition TAG_LEN :: nat where "TAG_LEN = 16"
definition VERSION_OFFSET :: nat where "VERSION_OFFSET = 4"
definition RESERVED_OFFSET :: nat where "RESERVED_OFFSET = 5"
definition NONCE_OFFSET :: nat where "NONCE_OFFSET = 8"
definition UNKNOWN_U32 :: u32 where "UNKNOWN_U32 = u32_max"
definition UNKNOWN_U64 :: u64 where "UNKNOWN_U64 = u64_max"
definition MAX_BOOKINGS :: nat where "MAX_BOOKINGS = 256"
definition MAX_INPUTS :: nat where "MAX_INPUTS = 100"

record booked_spend =
  bk_inputs :: "out_point list"
  bk_amount_sat :: u64
  bk_elapsed_at_ns :: u64

record core_state =
  cs_initialized :: bool
  cs_monotonic_ns_at_anchor :: u64
  cs_block_height_at_anchor :: "u32 option"
  cs_boot_id_at_anchor :: "u64 option"
  cs_wall_unix_ns_at_anchor :: "u64 option"
  cs_window_elapsed_ns :: u64
  cs_window_start_elapsed_ns :: u64
  cs_passphrase_used_since_install :: bool
  cs_bookings :: "booked_spend list"

definition core_state_empty :: core_state where
  "core_state_empty = \<lparr>cs_initialized = False, cs_monotonic_ns_at_anchor = 0,
     cs_block_height_at_anchor = None, cs_boot_id_at_anchor = None,
     cs_wall_unix_ns_at_anchor = None, cs_window_elapsed_ns = 0,
     cs_window_start_elapsed_ns = 0, cs_passphrase_used_since_install = False,
     cs_bookings = []\<rparr>"

subsection \<open>Plaintext codec\<close>

definition opt_u32 :: "u32 option \<Rightarrow> u32" where
  "opt_u32 v = (case v of None \<Rightarrow> UNKNOWN_U32 | Some x \<Rightarrow> x)"

definition opt_u64 :: "u64 option \<Rightarrow> u64" where
  "opt_u64 v = (case v of None \<Rightarrow> UNKNOWN_U64 | Some x \<Rightarrow> x)"

definition from_opt_u32 :: "u32 \<Rightarrow> u32 option" where
  "from_opt_u32 v = (if v = UNKNOWN_U32 then None else Some v)"

definition from_opt_u64 :: "u64 \<Rightarrow> u64 option" where
  "from_opt_u64 v = (if v = UNKNOWN_U64 then None else Some v)"

definition u16_try_from :: "nat \<Rightarrow> u16 option" where
  "u16_try_from n = (if n < 2 ^ 16 then Some (of_nat n) else None)"

definition encode_out_point :: "out_point \<Rightarrow> bytes" where
  "encode_out_point op = op_txid op @ u32_to_le (op_vout op)"

definition encode_booking :: "booked_spend \<Rightarrow> (bytes, core_state_error) res" where
  "encode_booking b =
     (if MAX_INPUTS < length (bk_inputs b) \<or> bk_inputs b = [] then Err CE_Plaintext
      else res_bind (ok_or (u16_try_from (length (bk_inputs b))) CE_Plaintext) (\<lambda>ni.
        Ok (u64_to_le (bk_elapsed_at_ns b) @ u64_to_le (bk_amount_sat b) @ u16_to_le ni
            @ concat (map encode_out_point (bk_inputs b)))))"

definition encode_flags :: "core_state \<Rightarrow> u8" where
  "encode_flags s =
     (let flags = 0 :: u8;
          flags = (if cs_initialized s then flags OR 1 else flags)
      in if cs_passphrase_used_since_install s then flags OR 2 else flags)"

definition encode_plaintext :: "core_state \<Rightarrow> (bytes, core_state_error) res" where
  "encode_plaintext s =
     res_bind (ok_or (u16_try_from (length (cs_bookings s))) CE_Plaintext) (\<lambda>n.
     for_in (\<lambda>_ b out. res_bind (encode_booking b) (\<lambda>row. Ok (out @ row))) 0 (cs_bookings s)
       (u64_to_le (cs_monotonic_ns_at_anchor s)
        @ u32_to_le (opt_u32 (cs_block_height_at_anchor s))
        @ u64_to_le (opt_u64 (cs_boot_id_at_anchor s))
        @ u64_to_le (opt_u64 (cs_wall_unix_ns_at_anchor s))
        @ u64_to_le (cs_window_elapsed_ns s)
        @ u64_to_le (cs_window_start_elapsed_ns s)
        @ [encode_flags s, 0] @ u16_to_le n))"

primrec decode_inputs :: "nat \<Rightarrow> bytes \<Rightarrow> out_point list \<times> bytes" where
  "decode_inputs 0 rest = ([], rest)"
| "decode_inputs (Suc ni) rest =
     (let op = OutPoint (slice rest 0 32) (u32_from_le (slice rest 32 36));
          (ops, rest') = decode_inputs ni (drop 36 rest)
      in (op # ops, rest'))"

primrec decode_bookings :: "nat \<Rightarrow> bytes \<Rightarrow> (booked_spend list \<times> bytes, core_state_error) res" where
  "decode_bookings 0 rest = Ok ([], rest)"
| "decode_bookings (Suc n) rest =
     (if length rest < 18 then Err CE_Plaintext
      else
        let elapsed_at_ns = u64_from_le (slice rest 0 8);
            amount_sat = u64_from_le (slice rest 8 16);
            ni = unat (u16_from_le (slice rest 16 18));
            rest = drop 18 rest
        in if ni = 0 \<or> MAX_INPUTS < ni then Err CE_Plaintext
           else if length rest < ni * 36 then Err CE_Plaintext
           else
             let (inputs, rest) = decode_inputs ni rest
             in res_bind (decode_bookings n rest) (\<lambda>(bs, rest).
                  Ok (\<lparr>bk_inputs = inputs, bk_amount_sat = amount_sat,
                       bk_elapsed_at_ns = elapsed_at_ns\<rparr> # bs, rest)))"

definition decode_plaintext :: "bytes \<Rightarrow> (core_state, core_state_error) res" where
  "decode_plaintext buf =
     (if length buf < 48 then Err CE_Plaintext
      else
        let flags = buf ! 44;
            reserved = buf ! 45;
            n = unat (u16_from_le (slice buf 46 48))
        in if reserved \<noteq> 0 \<or> flags AND NOT 3 \<noteq> 0 then Err CE_Plaintext
           else if MAX_BOOKINGS < n then Err CE_Plaintext
           else res_bind (decode_bookings n (drop 48 buf)) (\<lambda>(bookings, rest).
             if rest \<noteq> [] then Err CE_Plaintext
             else Ok \<lparr>cs_initialized = (flags AND 1 \<noteq> 0),
                      cs_monotonic_ns_at_anchor = u64_from_le (slice buf 0 8),
                      cs_block_height_at_anchor = from_opt_u32 (u32_from_le (slice buf 8 12)),
                      cs_boot_id_at_anchor = from_opt_u64 (u64_from_le (slice buf 12 20)),
                      cs_wall_unix_ns_at_anchor = from_opt_u64 (u64_from_le (slice buf 20 28)),
                      cs_window_elapsed_ns = u64_from_le (slice buf 28 36),
                      cs_window_start_elapsed_ns = u64_from_le (slice buf 36 44),
                      cs_passphrase_used_since_install = (flags AND 2 \<noteq> 0),
                      cs_bookings = bookings\<rparr>))"

subsection \<open>Sealed blob\<close>

definition core_encode_header :: "bytes \<Rightarrow> bytes" where
  "core_encode_header nonce = CORE_MAGIC @ [CORE_VERSION] @ [0, 0, 0] @ nonce"

definition core_parse_header :: "bytes \<Rightarrow> (unit, core_state_error) res" where
  "core_parse_header header =
     (if take 4 header \<noteq> CORE_MAGIC then Err CE_BadMagic
      else if header ! VERSION_OFFSET \<noteq> CORE_VERSION
      then Err (CE_UnsupportedVersion (header ! VERSION_OFFSET))
      else if slice header RESERVED_OFFSET NONCE_OFFSET \<noteq> [0, 0, 0] then Err CE_UnsupportedReserved
      else Ok ())"

definition core_nonce_from_header :: "bytes \<Rightarrow> bytes" where
  "core_nonce_from_header header = drop NONCE_OFFSET header"

definition core_seal :: "aead \<Rightarrow> bytes \<Rightarrow> bytes \<Rightarrow> bytes \<Rightarrow> (bytes, core_state_error) res" where
  "core_seal A kek header plaintext =
     res_bind (expect (aead_encrypt A kek (core_nonce_from_header header) header plaintext))
       (\<lambda>ciphertext. Ok (header @ ciphertext))"

definition core_open :: "aead \<Rightarrow> bytes \<Rightarrow> bytes \<Rightarrow> bytes \<Rightarrow> (bytes, core_state_error) res" where
  "core_open A kek header body =
     ok_or (aead_decrypt A kek (core_nonce_from_header header) header body) CE_Aead"

definition core_encrypt_at_nonce ::
    "aead \<Rightarrow> bytes \<Rightarrow> bytes \<Rightarrow> core_state \<Rightarrow> (bytes, core_state_error) res" where
  "core_encrypt_at_nonce A kek nonce s =
     (if MAX_BOOKINGS < length (cs_bookings s) then Err CE_Plaintext
      else res_bind (encode_plaintext s) (\<lambda>plaintext.
        core_seal A kek (core_encode_header nonce) plaintext))"

definition core_encrypt ::
    "aead \<Rightarrow> bytes option \<Rightarrow> bytes \<Rightarrow> core_state \<Rightarrow> (bytes, core_state_error) res" where
  "core_encrypt A draw kek s =
     res_bind (ok_or draw CE_CsRng) (\<lambda>nonce. core_encrypt_at_nonce A kek nonce s)"

definition core_decrypt :: "aead \<Rightarrow> bytes \<Rightarrow> bytes \<Rightarrow> (core_state, core_state_error) res" where
  "core_decrypt A kek blob =
     (if length blob < CORE_HEADER_LEN + TAG_LEN then Err CE_Truncated
      else
        let header = take CORE_HEADER_LEN blob
        in res_bind (core_parse_header header) (\<lambda>_.
           res_bind (core_open A kek header (drop CORE_HEADER_LEN blob)) decode_plaintext))"

subsection \<open>Well-formed states\<close>

definition out_point_wf :: "out_point \<Rightarrow> bool" where
  "out_point_wf op \<longleftrightarrow> length (op_txid op) = 32"

definition booking_wf :: "booked_spend \<Rightarrow> bool" where
  "booking_wf b \<longleftrightarrow> bk_inputs b \<noteq> [] \<and> length (bk_inputs b) \<le> MAX_INPUTS
     \<and> list_all out_point_wf (bk_inputs b)"

definition core_state_wf :: "core_state \<Rightarrow> bool" where
  "core_state_wf s \<longleftrightarrow> length (cs_bookings s) \<le> MAX_BOOKINGS \<and> list_all booking_wf (cs_bookings s)"

definition forget_sentinels :: "core_state \<Rightarrow> core_state" where
  "forget_sentinels s = s\<lparr>
     cs_block_height_at_anchor := from_opt_u32 (opt_u32 (cs_block_height_at_anchor s)),
     cs_boot_id_at_anchor := from_opt_u64 (opt_u64 (cs_boot_id_at_anchor s)),
     cs_wall_unix_ns_at_anchor := from_opt_u64 (opt_u64 (cs_wall_unix_ns_at_anchor s))\<rparr>"

text \<open>The encoding of one booking that passes the length checks.\<close>

definition booking_row :: "booked_spend \<Rightarrow> bytes" where
  "booking_row b = u64_to_le (bk_elapsed_at_ns b) @ u64_to_le (bk_amount_sat b)
     @ u16_to_le (of_nat (length (bk_inputs b))) @ concat (map encode_out_point (bk_inputs b))"

text \<open>The 48 bytes in front of the bookings.\<close>

definition plaintext_head :: "core_state \<Rightarrow> bytes" where
  "plaintext_head s =
     u64_to_le (cs_monotonic_ns_at_anchor s)
     @ u32_to_le (opt_u32 (cs_block_height_at_anchor s))
     @ u64_to_le (opt_u64 (cs_boot_id_at_anchor s))
     @ u64_to_le (opt_u64 (cs_wall_unix_ns_at_anchor s))
     @ u64_to_le (cs_window_elapsed_ns s)
     @ u64_to_le (cs_window_start_elapsed_ns s)
     @ [encode_flags s, 0] @ u16_to_le (of_nat (length (cs_bookings s)))"

section \<open>Lemmas\<close>

lemma unat_of_nat_u16: "n < 65536 \<Longrightarrow> unat (of_nat n :: u16) = n"
  by (simp add: unsigned_of_nat take_bit_nat_eq_self_iff)

lemma opt_from_opt [simp]:
  "opt_u32 (from_opt_u32 a) = a" "opt_u64 (from_opt_u64 b) = b"
  by (simp_all add: opt_u32_def from_opt_u32_def opt_u64_def from_opt_u64_def)

subsection \<open>Out points and bookings\<close>

lemma length_encode_out_point [simp]: "out_point_wf op \<Longrightarrow> length (encode_out_point op) = 36"
  by (simp add: out_point_wf_def encode_out_point_def)

lemma length_encode_inputs [simp]:
  "list_all out_point_wf ops \<Longrightarrow> length (concat (map encode_out_point ops)) = length ops * 36"
  by (induction ops) simp_all

lemma decode_out_point_encode:
  assumes "out_point_wf op"
  shows "OutPoint (slice (encode_out_point op @ rest) 0 32)
           (u32_from_le (slice (encode_out_point op @ rest) 32 36)) = op"
    and "drop 36 (encode_out_point op @ rest) = rest"
  using assms by (simp_all add: slice_def encode_out_point_def out_point_wf_def)

lemma decode_inputs_encode:
  "list_all out_point_wf ops \<Longrightarrow>
   decode_inputs (length ops) (concat (map encode_out_point ops) @ rest) = (ops, rest)"
  by (induction ops) (simp_all add: decode_out_point_encode Let_def)

lemma encode_out_point_decode:
  assumes "36 \<le> length bs"
  shows "encode_out_point (OutPoint (slice bs 0 32) (u32_from_le (slice bs 32 36))) @ drop 36 bs = bs"
proof -
  have "u32_to_le (u32_from_le (slice bs 32 36)) @ drop 4 (drop 32 bs) = drop 32 bs"
    unfolding slice_def using le32.write_field [of "drop 32 bs"] assms by simp
  then have "slice bs 0 32 @ (u32_to_le (u32_from_le (slice bs 32 36)) @ drop 4 (drop 32 bs)) = bs"
    by (simp add: slice_def)
  then show ?thesis by (simp add: encode_out_point_def)
qed

lemma decode_inputs_canonical:
  "decode_inputs n bs = (ops, rest) \<Longrightarrow> n * 36 \<le> length bs \<Longrightarrow>
   length ops = n \<and> list_all out_point_wf ops \<and> concat (map encode_out_point ops) @ rest = bs"
proof (induction n arbitrary: bs ops)
  case (Suc n)
  obtain ops' where ops: "decode_inputs n (drop 36 bs) = (ops', rest)"
      "ops = OutPoint (slice bs 0 32) (u32_from_le (slice bs 32 36)) # ops'"
    using Suc.prems(1) by (auto simp: Let_def split: prod.splits)
  have "length ops' = n \<and> list_all out_point_wf ops'
      \<and> concat (map encode_out_point ops') @ rest = drop 36 bs"
    using Suc.IH [OF ops(1)] Suc.prems(2) by simp
  moreover have "out_point_wf (OutPoint (slice bs 0 32) (u32_from_le (slice bs 32 36)))"
    using Suc.prems(2) by (simp add: out_point_wf_def slice_def)
  ultimately show ?case
    using encode_out_point_decode [of bs] Suc.prems(2) ops(2) by simp
qed simp

lemma encode_booking_wf: "booking_wf b \<Longrightarrow> encode_booking b = Ok (booking_row b)"
  by (simp add: encode_booking_def booking_wf_def booking_row_def u16_try_from_def MAX_INPUTS_def)

lemma encode_bookings_wf:
  "list_all booking_wf bs \<Longrightarrow>
   for_in (\<lambda>_ b out. res_bind (encode_booking b) (\<lambda>row. Ok (out @ row))) i bs out
     = Ok (out @ concat (map booking_row bs))"
  by (induction bs arbitrary: i out) (simp_all add: encode_booking_wf)

lemma encode_bookings_Ok:
  "for_in (\<lambda>_ b out. res_bind (encode_booking b) (\<lambda>row. Ok (out @ row))) i bs out = Ok r \<Longrightarrow>
   list_all (\<lambda>b. bk_inputs b \<noteq> [] \<and> length (bk_inputs b) \<le> MAX_INPUTS) bs"
  by (induction bs arbitrary: i out)
    (auto simp: res_simps encode_booking_def split: if_splits)

lemma booking_row_fields:
  assumes "booking_wf b"
  shows "18 \<le> length (booking_row b @ rest)"
    and "u64_from_le (slice (booking_row b @ rest) 0 8) = bk_elapsed_at_ns b"
    and "u64_from_le (slice (booking_row b @ rest) 8 16) = bk_amount_sat b"
    and "unat (u16_from_le (slice (booking_row b @ rest) 16 18)) = length (bk_inputs b)"
    and "drop 18 (booking_row b @ rest) = concat (map encode_out_point (bk_inputs b)) @ rest"
  using assms by (simp_all add: booking_row_def slice_def booking_wf_def MAX_INPUTS_def
      unat_of_nat_u16)

lemma decode_bookings_encode:
  "list_all booking_wf bs \<Longrightarrow>
   decode_bookings (length bs) (concat (map booking_row bs) @ rest) = Ok (bs, rest)"
proof (induction bs)
  case (Cons b bs)
  then have wf: "booking_wf b" and IH: "decode_bookings (length bs) (concat (map booking_row bs) @ rest) = Ok (bs, rest)"
    by simp_all
  note f = booking_row_fields [OF wf, of "concat (map booking_row bs) @ rest"]
  have "list_all out_point_wf (bk_inputs b)" "length (bk_inputs b) \<noteq> 0" "length (bk_inputs b) \<le> MAX_INPUTS"
    using wf by (simp_all add: booking_wf_def)
  then show ?case
    using f IH by (simp add: Let_def decode_inputs_encode)
qed simp

lemma head_of_row:
  assumes "18 \<le> length bs"
  shows "u64_to_le (u64_from_le (slice bs 0 8)) @ u64_to_le (u64_from_le (slice bs 8 16))
    @ u16_to_le (u16_from_le (slice bs 16 18)) @ drop 18 bs = bs"
proof -
  have "u16_to_le (u16_from_le (slice bs 16 18)) @ drop 18 bs = drop 16 bs"
    unfolding slice_def using le16.write_field [of "drop 16 bs"] assms by simp
  moreover have "u64_to_le (u64_from_le (slice bs 8 16)) @ drop 16 bs = drop 8 bs"
    unfolding slice_def using le64.write_field [of "drop 8 bs"] assms by simp
  moreover have "u64_to_le (u64_from_le (slice bs 0 8)) @ drop 8 bs = bs"
    unfolding slice_def using le64.write_field [of bs] assms by simp
  ultimately show ?thesis by simp
qed

lemma decode_booking_row:
  assumes "18 \<le> length bs" and ni: "ni = unat (u16_from_le (slice bs 16 18))"
    and "ni \<noteq> 0" and "ni \<le> MAX_INPUTS" and "ni * 36 \<le> length (drop 18 bs)"
    and dec: "decode_inputs ni (drop 18 bs) = (ops, rest)"
    and b: "b = \<lparr>bk_inputs = ops, bk_amount_sat = u64_from_le (slice bs 8 16),
              bk_elapsed_at_ns = u64_from_le (slice bs 0 8)\<rparr>"
  shows "booking_wf b" and "booking_row b @ rest = bs"
proof -
  have ops: "length ops = ni" "list_all out_point_wf ops"
      "concat (map encode_out_point ops) @ rest = drop 18 bs"
    using decode_inputs_canonical [OF dec assms(5)] by simp_all
  then show "booking_wf b" using assms(3,4) b by (auto simp: booking_wf_def)
  have "of_nat (length ops) = u16_from_le (slice bs 16 18)"
    using ops(1) ni by simp
  then show "booking_row b @ rest = bs"
    using head_of_row [OF assms(1)] ops(3) b by (simp add: booking_row_def)
qed

lemma decode_bookings_canonical:
  "decode_bookings n bs = Ok (bks, rest) \<Longrightarrow>
   length bks = n \<and> list_all booking_wf bks \<and> concat (map booking_row bks) @ rest = bs"
proof (induction n arbitrary: bs bks)
  case (Suc n)
  define ni where "ni = unat (u16_from_le (slice bs 16 18))"
  obtain ops tl where d: "decode_inputs ni (drop 18 bs) = (ops, tl)" by fastforce
  define b where "b = \<lparr>bk_inputs = ops, bk_amount_sat = u64_from_le (slice bs 8 16),
      bk_elapsed_at_ns = u64_from_le (slice bs 0 8)\<rparr>"
  obtain bks' where r: "18 \<le> length bs" "ni \<noteq> 0" "ni \<le> MAX_INPUTS" "ni * 36 \<le> length (drop 18 bs)"
      "decode_bookings n tl = Ok (bks', rest)" "bks = b # bks'"
    using Suc.prems d by (auto simp: Let_def res_simps ni_def b_def not_less split: if_splits)
  note row = decode_booking_row [OF r(1) ni_def r(2,3,4) d b_def]
  have "length bks' = n \<and> list_all booking_wf bks' \<and> concat (map booking_row bks') @ rest = tl"
    using Suc.IH [OF r(5)] .
  then show ?case using row r(6) by simp
qed simp

lemma decode_bookings_not_Panic: "decode_bookings n bs \<noteq> Panic"
  by (induction n arbitrary: bs)
    (auto simp: Let_def res_bind_eq_Panic split: if_splits prod.splits)

subsection \<open>The plaintext\<close>

lemma encode_flags_bits:
  "encode_flags s AND - 4 = 0"
  "encode_flags s AND 1 \<noteq> 0 \<longleftrightarrow> cs_initialized s"
  "encode_flags s AND 2 \<noteq> 0 \<longleftrightarrow> cs_passphrase_used_since_install s"
  by (simp_all add: encode_flags_def Let_def)

lemma flags_of_bits:
  fixes f :: u8
  assumes "f AND NOT 3 = 0"
  shows "(if f AND 2 \<noteq> 0 then (if f AND 1 \<noteq> 0 then 0 OR 1 else 0) OR 2
          else (if f AND 1 \<noteq> 0 then 0 OR 1 else (0 :: u8))) = f"
proof -
  have "f = (f AND 3) OR (f AND NOT 3)" by (rule bit_word_eqI) (auto simp: bit_simps)
  then have "f = take_bit 2 f" using assms by (simp add: take_bit_eq_mask mask_numeral)
  then have "unat f < 4" using take_bit_nat_less_exp [of 2 "unat f"] by (metis numeral_Bit0 unsigned_take_bit_eq power2_eq_square mult_2 numeral_times_numeral semiring_norm(12,13))
  then have "unat f = 0 \<or> unat f = 1 \<or> unat f = 2 \<or> unat f = 3" by linarith
  then have "f = 0 \<or> f = 1 \<or> f = 2 \<or> f = 3" by (simp add: word_unat_eq_iff)
  then show ?thesis by auto
qed

lemma length_plaintext_head [simp]: "length (plaintext_head s) = 48"
  by (simp add: plaintext_head_def)

lemma encode_plaintext_wf:
  "core_state_wf s \<Longrightarrow> encode_plaintext s = Ok (plaintext_head s @ concat (map booking_row (cs_bookings s)))"
  unfolding core_state_wf_def encode_plaintext_def plaintext_head_def
  by (simp add: encode_bookings_wf u16_try_from_def MAX_BOOKINGS_def)

lemma plaintext_head_fields:
  fixes rest :: bytes
  defines "buf \<equiv> \<lambda>s. plaintext_head s @ rest"
  shows "u64_from_le (slice (buf s) 0 8) = cs_monotonic_ns_at_anchor s"
    and "u32_from_le (slice (buf s) 8 12) = opt_u32 (cs_block_height_at_anchor s)"
    and "u64_from_le (slice (buf s) 12 20) = opt_u64 (cs_boot_id_at_anchor s)"
    and "u64_from_le (slice (buf s) 20 28) = opt_u64 (cs_wall_unix_ns_at_anchor s)"
    and "u64_from_le (slice (buf s) 28 36) = cs_window_elapsed_ns s"
    and "u64_from_le (slice (buf s) 36 44) = cs_window_start_elapsed_ns s"
    and "buf s ! 44 = encode_flags s" and "buf s ! 45 = 0"
    and "u16_from_le (slice (buf s) 46 48) = of_nat (length (cs_bookings s))"
    and "drop 48 (buf s) = rest"
  unfolding buf_def by (simp_all add: plaintext_head_def slice_def nth_append)

lemma decode_encode_plaintext:
  assumes "core_state_wf s"
  shows "decode_plaintext (plaintext_head s @ concat (map booking_row (cs_bookings s)))
    = Ok (forget_sentinels s)"
proof -
  have n: "length (cs_bookings s) \<le> MAX_BOOKINGS"
      "unat (of_nat (length (cs_bookings s)) :: u16) = length (cs_bookings s)"
    using assms by (simp_all add: core_state_wf_def MAX_BOOKINGS_def unat_of_nat_u16)
  have "decode_bookings (length (cs_bookings s)) (concat (map booking_row (cs_bookings s)))
      = Ok (cs_bookings s, [])"
    using decode_bookings_encode [of "cs_bookings s" "[]"] assms by (simp add: core_state_wf_def)
  then show ?thesis
    using n by (simp add: decode_plaintext_def plaintext_head_fields Let_def encode_flags_bits
        forget_sentinels_def)
qed

lemma decode_plaintext_not_Panic: "decode_plaintext buf \<noteq> Panic"
  by (auto simp: decode_plaintext_def Let_def res_bind_eq_Panic decode_bookings_not_Panic
      split: if_splits prod.splits)

lemma split_plaintext_head:
  assumes "48 \<le> length buf"
  shows "u64_to_le (u64_from_le (slice buf 0 8)) @ u32_to_le (u32_from_le (slice buf 8 12))
    @ u64_to_le (u64_from_le (slice buf 12 20)) @ u64_to_le (u64_from_le (slice buf 20 28))
    @ u64_to_le (u64_from_le (slice buf 28 36)) @ u64_to_le (u64_from_le (slice buf 36 44))
    @ [buf ! 44, buf ! 45] @ u16_to_le (u16_from_le (slice buf 46 48)) @ drop 48 buf = buf"
proof -
  have "u16_to_le (u16_from_le (slice buf 46 48)) @ drop 48 buf = drop 46 buf"
    unfolding slice_def using le16.write_field [of "drop 46 buf"] assms by simp
  moreover have "[buf ! 44, buf ! 45] @ drop 46 buf = drop 44 buf"
    using assms Cons_nth_drop_Suc [of 44 buf] Cons_nth_drop_Suc [of 45 buf] by simp
  moreover have "u64_to_le (u64_from_le (slice buf 36 44)) @ drop 44 buf = drop 36 buf"
    unfolding slice_def using le64.write_field [of "drop 36 buf"] assms by simp
  moreover have "u64_to_le (u64_from_le (slice buf 28 36)) @ drop 36 buf = drop 28 buf"
    unfolding slice_def using le64.write_field [of "drop 28 buf"] assms by simp
  moreover have "u64_to_le (u64_from_le (slice buf 20 28)) @ drop 28 buf = drop 20 buf"
    unfolding slice_def using le64.write_field [of "drop 20 buf"] assms by simp
  moreover have "u64_to_le (u64_from_le (slice buf 12 20)) @ drop 20 buf = drop 12 buf"
    unfolding slice_def using le64.write_field [of "drop 12 buf"] assms by simp
  moreover have "u32_to_le (u32_from_le (slice buf 8 12)) @ drop 12 buf = drop 8 buf"
    unfolding slice_def using le32.write_field [of "drop 8 buf"] assms by simp
  moreover have "u64_to_le (u64_from_le (slice buf 0 8)) @ drop 8 buf = buf"
    unfolding slice_def using le64.write_field [of buf] assms by simp
  ultimately show ?thesis by (metis append.assoc)
qed

lemma decode_plaintext_canonical:
  assumes "decode_plaintext buf = Ok s"
  shows "core_state_wf s" and "encode_plaintext s = Ok buf" and "forget_sentinels s = s"
proof -
  define n where "n = unat (u16_from_le (slice buf 46 48))"
  obtain bks where len: "48 \<le> length buf" and res: "buf ! 45 = 0" "buf ! 44 AND NOT 3 = 0"
      and nb: "n \<le> MAX_BOOKINGS" and dec: "decode_bookings n (drop 48 buf) = Ok (bks, [])"
      and s: "s = \<lparr>cs_initialized = (buf ! 44 AND 1 \<noteq> 0),
                      cs_monotonic_ns_at_anchor = u64_from_le (slice buf 0 8),
                      cs_block_height_at_anchor = from_opt_u32 (u32_from_le (slice buf 8 12)),
                      cs_boot_id_at_anchor = from_opt_u64 (u64_from_le (slice buf 12 20)),
                      cs_wall_unix_ns_at_anchor = from_opt_u64 (u64_from_le (slice buf 20 28)),
                      cs_window_elapsed_ns = u64_from_le (slice buf 28 36),
                      cs_window_start_elapsed_ns = u64_from_le (slice buf 36 44),
                      cs_passphrase_used_since_install = (buf ! 44 AND 2 \<noteq> 0),
                      cs_bookings = bks\<rparr>"
    using assms unfolding decode_plaintext_def n_def
    by (auto simp: Let_def res_simps not_less split: if_splits prod.splits)
  have bks: "length bks = n" "list_all booking_wf bks" "concat (map booking_row bks) = drop 48 buf"
    using decode_bookings_canonical [OF dec] by simp_all
  show wf: "core_state_wf s" using s bks(1,2) nb by (simp add: core_state_wf_def)
  have "encode_flags s = buf ! 44"
    using flags_of_bits [OF res(2)] s by (simp add: encode_flags_def Let_def)
  moreover have "of_nat (length bks) = u16_from_le (slice buf 46 48)"
    using bks(1) n_def by simp
  ultimately have "plaintext_head s @ concat (map booking_row (cs_bookings s)) = buf"
    using split_plaintext_head [OF len] s bks(3) res(1) by (simp add: plaintext_head_def)
  then show "encode_plaintext s = Ok buf" using encode_plaintext_wf [OF wf] by simp
  show "forget_sentinels s = s" using s by (simp add: forget_sentinels_def)
qed

subsection \<open>The sealed blob\<close>

interpretation core_box: sealed_format core_nonce_from_header core_seal core_open CE_Aead
  by unfold_locales (simp_all add: core_seal_def core_open_def split: option.splits)

lemma length_CORE_MAGIC [simp]: "length CORE_MAGIC = 4"
  by (simp add: CORE_MAGIC_def as_bytes_def)

lemma core_header:
  assumes "length nonce = NONCE_LEN"
  shows "length (core_encode_header nonce) = CORE_HEADER_LEN"
    and "core_parse_header (core_encode_header nonce) = Ok ()"
    and "core_nonce_from_header (core_encode_header nonce) = nonce"
  using assms
  by (simp_all add: core_encode_header_def core_parse_header_def core_nonce_from_header_def
      CORE_HEADER_LEN_def NONCE_LEN_def NONCE_OFFSET_def VERSION_OFFSET_def RESERVED_OFFSET_def
      nth_append slice_def)

lemma core_header_canonical:
  assumes "core_parse_header header = Ok ()" and "length header = CORE_HEADER_LEN"
  shows "core_encode_header (core_nonce_from_header header) = header"
proof -
  have h: "take 4 header = CORE_MAGIC" "header ! 4 = CORE_VERSION"
      "take 3 (drop 5 header) = [0, 0, 0]" "length header = 32"
    using assms by (auto simp: core_parse_header_def slice_def VERSION_OFFSET_def RESERVED_OFFSET_def
        NONCE_OFFSET_def CORE_HEADER_LEN_def split: if_splits)
  have "take 4 header @ header ! 4 # drop 5 header = header"
    using Cons_nth_drop_Suc [of 4 header] h(4) by simp
  moreover have "drop 5 header = [0, 0, 0] @ drop 8 header"
    using append_take_drop_id [of 3 "drop 5 header"] h(3) by simp
  ultimately show ?thesis using h(1,2)
    by (simp add: core_encode_header_def core_nonce_from_header_def NONCE_OFFSET_def)
qed

lemma length_booking_row: "booking_wf b \<Longrightarrow> length (booking_row b) \<le> 3618"
  by (simp add: booking_row_def booking_wf_def MAX_INPUTS_def)

lemma length_booking_rows:
  "list_all booking_wf bs \<Longrightarrow> length (concat (map booking_row bs)) \<le> length bs * 3618"
proof (induction bs)
  case (Cons b bs)
  then show ?case using length_booking_row [of b] by simp
qed simp

lemma plaintext_short:
  assumes "core_state_wf s" and "encode_plaintext s = Ok pt"
  shows "length pt < 2 ^ 32"
proof -
  have "length pt = 48 + length (concat (map booking_row (cs_bookings s)))"
    using assms by (auto simp: encode_plaintext_wf)
  moreover have "length (concat (map booking_row (cs_bookings s))) \<le> 256 * 3618"
    using length_booking_rows [of "cs_bookings s"] assms(1)
    by (simp add: core_state_wf_def MAX_BOOKINGS_def)
  ultimately show ?thesis by simp
qed

lemma core_decrypt_not_Panic: "core_decrypt A kek blob \<noteq> Panic"
  by (auto simp: core_decrypt_def core_parse_header_def Let_def res_bind_eq_Panic
      core_box.unseal_not_Panic decode_plaintext_not_Panic)

lemma core_decrypt_sealed:
  assumes "length nonce = NONCE_LEN" and "core_open A kek (core_encode_header nonce) body = Ok pt"
    and "TAG_LEN \<le> length body"
  shows "core_decrypt A kek (core_encode_header nonce @ body) = decode_plaintext pt"
  using assms core_header [OF assms(1)] by (simp add: core_decrypt_def Let_def)

lemma core_encrypt_decrypt:
  assumes "aead_correct A" and "core_state_wf s" and "length nonce = NONCE_LEN"
  shows "\<exists>blob. core_encrypt A (Some nonce) kek s = Ok blob
    \<and> core_decrypt A kek blob = Ok (forget_sentinels s)"
proof -
  define pt where "pt = plaintext_head s @ concat (map booking_row (cs_bookings s))"
  have pt: "encode_plaintext s = Ok pt" "decode_plaintext pt = Ok (forget_sentinels s)"
    using encode_plaintext_wf decode_encode_plaintext assms(2) unfolding pt_def by simp_all
  obtain body where body: "core_seal A kek (core_encode_header nonce) pt = Ok (core_encode_header nonce @ body)"
      "length body = length pt + 16" "core_open A kek (core_encode_header nonce) body = Ok pt"
    using core_box.seal_total [OF assms(1) plaintext_short [OF assms(2) pt(1)]] by blast
  have "core_encrypt A (Some nonce) kek s = Ok (core_encode_header nonce @ body)"
    using assms(2) pt(1) body(1)
    by (simp add: core_encrypt_def core_encrypt_at_nonce_def core_state_wf_def)
  then show ?thesis
    using core_decrypt_sealed [OF assms(3) body(3)] body(2) pt(2) by (simp add: TAG_LEN_def)
qed

section \<open>Properties\<close>

text \<open>
  C27: a counter within the format's limits always seals under a working cipher, and opening
  the blob gives back the same counter, with a height, boot id or wall time equal to the
  reserved sentinel read as unknown.
\<close>

theorem core_state_roundtrip:
  assumes "aead_correct A" and "core_state_wf s" and "length nonce = NONCE_LEN"
  shows "\<exists>blob. core_encrypt A (Some nonce) kek s = Ok blob
    \<and> core_decrypt A kek blob = Ok (forget_sentinels s)"
  using assms by (rule core_encrypt_decrypt)

theorem core_state_roundtrip_witness:
  "\<exists>blob. core_encrypt plain_aead (Some (replicate 24 7)) [] (core_state_empty\<lparr>cs_bookings :=
      [\<lparr>bk_inputs = [OutPoint (replicate 32 9) 1], bk_amount_sat = 42, bk_elapsed_at_ns = 10\<rparr>]\<rparr>) = Ok blob
    \<and> core_decrypt plain_aead [] blob = Ok (core_state_empty\<lparr>cs_bookings :=
      [\<lparr>bk_inputs = [OutPoint (replicate 32 9) 1], bk_amount_sat = 42, bk_elapsed_at_ns = 10\<rparr>]\<rparr>)"
proof -
  let ?s = "core_state_empty\<lparr>cs_bookings :=
      [\<lparr>bk_inputs = [OutPoint (replicate 32 9) 1], bk_amount_sat = 42, bk_elapsed_at_ns = 10\<rparr>]\<rparr>"
  have "core_state_wf ?s"
    by (simp add: core_state_wf_def core_state_empty_def MAX_BOOKINGS_def booking_wf_def
        MAX_INPUTS_def out_point_wf_def)
  moreover have "forget_sentinels ?s = ?s"
    by (simp add: forget_sentinels_def core_state_empty_def from_opt_u32_def opt_u32_def
        from_opt_u64_def opt_u64_def)
  ultimately show ?thesis
    using core_state_roundtrip [OF plain_aead_correct, of ?s "replicate 24 7" "[]"]
    by (simp add: NONCE_LEN_def)
qed

text \<open>
  C28: under a cipher with ciphertext integrity, whatever
  opens is exactly the blob that sealing the returned counter under the blob's own nonce
  produces: the format is canonical, and an opened counter is within the format's limits.
\<close>

theorem core_decrypt_canonical:
  assumes "aead_authentic A" and "core_decrypt A kek blob = Ok s"
  shows "core_state_wf s
    \<and> core_encrypt A (Some (slice blob NONCE_OFFSET CORE_HEADER_LEN)) kek s = Ok blob"
proof -
  let ?hdr = "take CORE_HEADER_LEN blob" and ?body = "drop CORE_HEADER_LEN blob"
  obtain pt where r: "CORE_HEADER_LEN + TAG_LEN \<le> length blob" "core_parse_header ?hdr = Ok ()"
      "core_open A kek ?hdr ?body = Ok pt" "decode_plaintext pt = Ok s"
    using assms(2) by (auto simp: core_decrypt_def Let_def res_simps split: if_splits)
  have nonce: "core_nonce_from_header ?hdr = slice blob NONCE_OFFSET CORE_HEADER_LEN"
    by (simp add: core_nonce_from_header_def slice_def drop_take)
  have hdr: "core_encode_header (core_nonce_from_header ?hdr) = ?hdr"
    using core_header_canonical [OF r(2)] r(1) by simp
  have "core_seal A kek ?hdr pt = Ok (?hdr @ ?body)"
    using core_box.unseal_authentic [OF assms(1) r(3)] .
  then show ?thesis
    using decode_plaintext_canonical [OF r(4)] hdr nonce
    by (simp add: core_encrypt_def core_encrypt_at_nonce_def core_state_wf_def)
qed

theorem core_decrypt_canonical_witness:
  "core_decrypt plain_aead [] (core_encode_header (replicate 24 7) @ plaintext_head core_state_empty
      @ replicate 16 0) = Ok core_state_empty
   \<and> core_encrypt plain_aead (Some (replicate 24 7)) [] core_state_empty
     = Ok (core_encode_header (replicate 24 7) @ plaintext_head core_state_empty @ replicate 16 0)"
proof -
  let ?blob = "core_encode_header (replicate 24 7) @ plaintext_head core_state_empty @ replicate 16 0"
  have "core_open plain_aead [] (core_encode_header (replicate 24 7))
      (plaintext_head core_state_empty @ replicate 16 0) = Ok (plaintext_head core_state_empty)"
    by (simp add: core_open_def plain_aead_def)
  moreover have "decode_plaintext (plaintext_head core_state_empty) = Ok core_state_empty"
    using decode_encode_plaintext [of core_state_empty]
    by (simp add: core_state_wf_def core_state_empty_def forget_sentinels_def opt_u32_def
        from_opt_u32_def opt_u64_def from_opt_u64_def)
  ultimately have dec: "core_decrypt plain_aead [] ?blob = Ok core_state_empty"
    using core_decrypt_sealed [of "replicate 24 7" plain_aead "[]"] by (simp add: NONCE_LEN_def TAG_LEN_def)
  have "slice ?blob NONCE_OFFSET CORE_HEADER_LEN = replicate 24 7"
    by (simp add: slice_def core_encode_header_def NONCE_OFFSET_def CORE_HEADER_LEN_def)
  then show ?thesis
    using core_decrypt_canonical [OF plain_aead_authentic dec] dec by simp
qed

end
