(* ===== verification/Verify_Checksum.thy ===== *)
theory Verify_Checksum
  imports Trinity_Types Trinity_Errors
begin

text \<open>
  \<open>crates/trinity-verify/src/checksum.rs\<close>: the BIP-380 descriptor checksum. A \<open>&str\<close> is the
  list of its bytes as characters.

  The polymod is linear over XOR and one step is injective on 40-bit states. The lemmas use
  this to show that the checker accepts exactly the strings the generator produces, and
  that replacing any single character of the payload of an accepted string is detected.
\<close>

unbundle bit_operations_syntax

definition INPUT_CHARSET :: string where
  "INPUT_CHARSET =
     ''0123456789()[],'' @ [CHR 0x27] @ ''/*abcdefgh@:$%{}''
     @ ''IJKLMNOPQRSTUVWXYZ&+-.;<=>?!^_|~''
     @ ''ijklmnopqrstuvwxyzABCDEFGH'' @ [CHR 0x60, CHR 0x23, CHR 0x22, CHR 0x5C, CHR 0x20]"

definition CHECKSUM_CHARSET :: string where
  "CHECKSUM_CHARSET = ''qpzry9x8gf2tvdw0s3jn54khce6mua7l''"

definition GENERATOR :: "u64 list" where
  "GENERATOR = [0xf5dee51989, 0xa9fdca3312, 0x1bab10e32d, 0x3706b1677a, 0x644d626ffd]"

text \<open>\<open>Iterator::position\<close>.\<close>

primrec position :: "'a list \<Rightarrow> 'a \<Rightarrow> nat option" where
  "position [] c = None"
| "position (x # xs) c = (if x = c then Some 0 else map_option Suc (position xs c))"

definition expand_step :: "char \<Rightarrow> u64 list \<times> u64 list \<Rightarrow> (u64 list \<times> u64 list, parse_error) res" where
  "expand_step c st =
     (let (groups, symbols) = st
      in res_bind (ok_or (position INPUT_CHARSET c) PE_InvalidCharset) (\<lambda>i.
         let v = of_nat i :: u64;
             symbols = symbols @ [v AND 31];
             groups = groups @ [drop_bit 5 v]
         in if length groups = 3
            then Ok ([], symbols @ [groups ! 0 * 9 + groups ! 1 * 3 + groups ! 2])
            else Ok (groups, symbols)))"

definition expand :: "string \<Rightarrow> (u64 list, parse_error) res" where
  "expand s =
     res_bind (for_in (\<lambda>_ c st. expand_step c st) 0 s ([], [])) (\<lambda>(groups, symbols).
       if length groups = 1 then Ok (symbols @ [groups ! 0])
       else if length groups = 2 then Ok (symbols @ [groups ! 0 * 3 + groups ! 1])
       else Ok symbols)"

definition polymod_step :: "u64 \<Rightarrow> u64 \<Rightarrow> u64" where
  "polymod_step chk value =
     (let top_bits = drop_bit 35 chk;
          chk = push_bit 5 (chk AND 0x7ffffffff) XOR value
      in foldl (\<lambda>chk (i, gen). if drop_bit i top_bits AND 1 = 1 then chk XOR gen else chk)
           chk (List.enumerate 0 GENERATOR))"

definition polymod :: "u64 list \<Rightarrow> u64" where
  "polymod symbols = foldl polymod_step 1 symbols"

definition verify_checksum :: "string \<Rightarrow> (unit, parse_error) res" where
  "verify_checksum s =
     (if length s < 10 then Err PE_MissingChecksum
      else
        let hash_pos = length s - 9
        in if s ! hash_pos \<noteq> CHR ''#'' then Err PE_MissingChecksum
           else
             let checksum = drop (hash_pos + 1) s
             in if list_ex (\<lambda>c. c \<notin> set CHECKSUM_CHARSET) checksum then Err PE_MalformedChecksum
                else
                  res_bind (expand (take hash_pos s)) (\<lambda>symbols.
                  res_bind (for_in (\<lambda>_ c symbols.
                      res_bind (expect (position CHECKSUM_CHARSET c)) (\<lambda>idx.
                        Ok (symbols @ [of_nat idx]))) 0 checksum symbols) (\<lambda>symbols.
                    if polymod symbols \<noteq> 1 then Err PE_InvalidChecksum else Ok ())))"

definition create_checksum :: "string \<Rightarrow> (string, parse_error) res" where
  "create_checksum script =
     res_bind (expand script) (\<lambda>symbols.
       let checksum_val = polymod (symbols @ replicate 8 0) XOR 1
       in Ok (script @ ''#'' @ map (\<lambda>i. CHECKSUM_CHARSET ! unat (drop_bit (5 * (7 - i)) checksum_val AND 31))
                [0..<8]))"

text \<open>The contribution of the five bits shifted out, as a sum over the generators.\<close>

definition gen_sum :: "u64 \<Rightarrow> u64" where
  "gen_sum t = (if bit t 0 then 0xf5dee51989 else 0) XOR (if bit t 1 then 0xa9fdca3312 else 0)
     XOR (if bit t 2 then 0x1bab10e32d else 0) XOR (if bit t 3 then 0x3706b1677a else 0)
     XOR (if bit t 4 then 0x644d626ffd else 0)"

text \<open>The number written by base-32 digits, most significant first.\<close>

definition digits_value :: "u64 list \<Rightarrow> nat" where
  "digits_value xs = foldl (\<lambda>a x. a * 32 + unat x) 0 xs"

text \<open>The eight digits of the number that the generator appends.\<close>

definition checksum_digits :: "u64 \<Rightarrow> u64 list" where
  "checksum_digits v = map (\<lambda>i. drop_bit (5 * (7 - i)) v AND 31) [0..<8]"

text \<open>The symbol expansion on charset indices, three characters at a time.\<close>

fun expand_vals :: "u64 list \<Rightarrow> u64 list" where
  "expand_vals [] = []"
| "expand_vals [a] = [a AND 31, drop_bit 5 a]"
| "expand_vals [a, b] = [a AND 31, b AND 31, drop_bit 5 a * 3 + drop_bit 5 b]"
| "expand_vals (a # b # c # vs) =
     [a AND 31, b AND 31, c AND 31, drop_bit 5 a * 9 + drop_bit 5 b * 3 + drop_bit 5 c]
     @ expand_vals vs"

definition charset_index :: "char \<Rightarrow> u64" where
  "charset_index c = of_nat (the (position INPUT_CHARSET c))"

section \<open>Lemmas\<close>

subsection \<open>One polymod step\<close>

lemma drop_bit_and_1: "drop_bit i (w :: u64) AND 1 = 1 \<longleftrightarrow> bit w i"
  by (simp add: bit_iff_odd_drop_bit and_one_eq odd_iff_mod_2_eq_one)

lemma if_xor_arg: "(if p then c XOR g else c) = c XOR (if p then g else (0 :: u64))"
  by simp

lemma polymod_step_eq:
  "polymod_step chk v = push_bit 5 (take_bit 35 chk) XOR v XOR gen_sum (drop_bit 35 chk)"
proof -
  have "take_bit 35 chk = chk AND 0x7ffffffff" by (simp add: take_bit_eq_mask mask_numeral)
  moreover have "List.enumerate 0 GENERATOR = [(0, 0xf5dee51989), (1, 0xa9fdca3312),
      (2, 0x1bab10e32d), (3, 0x3706b1677a), (4, 0x644d626ffd)]"
    by (simp add: GENERATOR_def)
  ultimately show ?thesis
    unfolding polymod_step_def Let_def
    by (simp only: foldl_Cons foldl_Nil prod.case if_xor_arg drop_bit_and_1 gen_sum_def xor.assoc)
qed

lemma if_xor: "(if p \<noteq> q then g else 0) = (if p then g else 0) XOR (if q then g else (0 :: u64))"
  by simp

lemma gen_sum_xor: "gen_sum (a XOR b) = gen_sum a XOR gen_sum b"
  by (simp only: gen_sum_def bit_xor_iff if_xor ac_simps)

lemma gen_sum_0 [simp]: "gen_sum 0 = 0"
  by (simp add: gen_sum_def)

lemma polymod_step_xor:
  "polymod_step (a XOR b) (v XOR w) = polymod_step a v XOR polymod_step b w"
  by (simp only: polymod_step_eq gen_sum_xor push_bit_xor take_bit_xor drop_bit_xor ac_simps)

lemma polymod_fold_xor:
  "length vs = length ws \<Longrightarrow>
   foldl polymod_step (a XOR b) (map2 (XOR) vs ws) = foldl polymod_step a vs XOR foldl polymod_step b ws"
  by (induction vs ws arbitrary: a b rule: list_induct2) (simp_all add: polymod_step_xor)

lemma lt_2p_take_bit: "unat (w :: u64) < 2 ^ n \<longleftrightarrow> take_bit n w = w"
  by (simp add: word_unat_eq_iff unsigned_take_bit_eq take_bit_nat_eq_self_iff)

lemma gen_sum_low:
  assumes "unat t < 32" and "take_bit 5 (gen_sum t) = 0"
  shows "t = 0"
proof -
  have all: "\<forall>k\<in>set [0..<32]. take_bit 5 (gen_sum (word_of_nat k)) = 0 \<longrightarrow> k = 0"
    by code_simp
  have "unat t \<in> set [0..<32]" using assms(1) by simp
  from bspec [OF all this] assms(2) show ?thesis by (simp add: unat_eq_0)
qed

lemma unat_drop_bit_35: "unat (c :: u64) < 2 ^ 40 \<Longrightarrow> unat (drop_bit 35 c) < 32"
  by (simp add: drop_bit_eq_div unat_div div_less_iff_less_mult flip: of_nat_drop_bit)

lemma take_bit_gen_sum: "take_bit 40 (gen_sum t) = gen_sum t"
  by (simp add: gen_sum_def take_bit_xor if_distrib [of "take_bit 40"] take_bit_eq_mask mask_numeral
      cong: if_cong)

lemma polymod_step_bound:
  assumes "unat c < 2 ^ 40" and "unat v < 32"
  shows "unat (polymod_step c v) < 2 ^ 40"
proof -
  have "unat v < 2 ^ 40" using assms(2) by simp
  then have "take_bit 40 v = v" by (simp only: lt_2p_take_bit)
  moreover have "take_bit 40 (push_bit 5 (take_bit 35 c)) = push_bit 5 (take_bit 35 c)"
    by (rule bit_word_eqI) (auto simp: bit_simps)
  ultimately show ?thesis
    unfolding lt_2p_take_bit polymod_step_eq take_bit_xor take_bit_gen_sum by simp
qed

lemma polymod_step_zero:
  assumes "unat c < 2 ^ 40" and "polymod_step c 0 = 0"
  shows "c = 0"
proof -
  have eq: "push_bit 5 (take_bit 35 c) XOR gen_sum (drop_bit 35 c) = 0"
    using assms(2) by (simp add: polymod_step_eq)
  have "take_bit 5 (push_bit 5 (take_bit 35 c)) = 0" by (rule bit_word_eqI) (auto simp: bit_simps)
  then have "take_bit 5 (gen_sum (drop_bit 35 c)) = 0"
    using arg_cong [OF eq, of "take_bit 5"] by (simp add: take_bit_xor)
  then have top: "drop_bit 35 c = 0" using gen_sum_low unat_drop_bit_35 assms(1) by blast
  with eq have "push_bit 5 (take_bit 35 c) = 0" by simp
  then have "bit (push_bit 5 (take_bit 35 c)) (n + 5) = bit (0 :: u64) (n + 5)" for n by simp
  then have "\<not> bit c n" if "n < 35" for n using that by (auto simp: bit_simps dest: spec [of _ n])
  moreover have "\<not> bit c n" if "35 \<le> n" for n
    using that arg_cong [OF top, of "\<lambda>w. bit w (n - 35)"] by (simp add: bit_simps)
  ultimately show ?thesis by (intro bit_word_eqI) (metis bit_0_eq bot_apply bot_bool_def not_less)
qed

lemma unat_polymod_step_small:
  assumes "unat c < 2 ^ 35" and "unat v < 32"
  shows "unat (polymod_step c v) = unat c * 32 + unat v"
proof -
  have v: "take_bit 5 v = v" using assms(2) lt_2p_take_bit [of v 5] by simp
  have c: "take_bit 35 c = c" using assms(1) lt_2p_take_bit [of c 35] by simp
  have "drop_bit 35 c = drop_bit 35 (take_bit 35 c)" using c by simp
  also have "\<dots> = 0" by (rule bit_word_eqI) (auto simp: bit_simps)
  finally have "polymod_step c v = push_bit 5 c XOR v" using c by (simp add: polymod_step_eq)
  also have "\<dots> = push_bit 5 c + v"
  proof (rule disjunctive_add_eq_xor [symmetric])
    have "push_bit 5 c AND take_bit 5 v = 0" by (rule bit_word_eqI) (auto simp: bit_simps)
    then show "push_bit 5 c AND v = 0" using v by simp
  qed
  finally have "polymod_step c v = c * 32 + v" by (simp add: push_bit_eq_mult)
  then show ?thesis using assms by (simp add: unat_word_ariths)
qed

subsection \<open>Eight checksum digits\<close>

lemma polymod_digits:
  "length xs \<le> 8 \<Longrightarrow> list_all (\<lambda>x. unat x < 32) xs \<Longrightarrow>
   unat (foldl polymod_step 0 xs) = digits_value xs \<and> digits_value xs < 32 ^ length xs"
proof (induction xs rule: rev_induct)
  case (snoc x xs)
  then have IH: "unat (foldl polymod_step 0 xs) = digits_value xs" "digits_value xs < 32 ^ length xs"
    by simp_all
  have "(32 :: nat) ^ length xs \<le> 32 ^ 7" using snoc.prems(1) by (intro power_increasing) simp_all
  then have "unat (foldl polymod_step 0 xs) < 2 ^ 35" using IH by simp
  then show ?case using IH snoc.prems(2) unat_polymod_step_small
    by (simp add: digits_value_def)
qed (simp add: digits_value_def)

lemma base32_inject:
  assumes "a * 32 + x = b * 32 + y" and "x < 32" and "y < (32 :: nat)"
  shows "a = b \<and> x = y"
proof -
  have "(a * 32 + x) div 32 = (b * 32 + y) div 32" using assms(1) by simp
  then have "a = b" using assms(2,3) by simp
  then show ?thesis using assms(1) by simp
qed

lemma digits_value_inject:
  "length xs = length ys \<Longrightarrow> list_all (\<lambda>x. unat x < 32) xs \<Longrightarrow> list_all (\<lambda>x. unat x < 32) ys \<Longrightarrow>
   digits_value xs = digits_value ys \<Longrightarrow> xs = ys"
proof (induction xs arbitrary: ys rule: rev_induct)
  case (snoc x xs)
  then have "ys \<noteq> []" by auto
  then obtain y zs where ys: "ys = zs @ [y]" using rev_exhaust by blast
  have "digits_value xs * 32 + unat x = digits_value zs * 32 + unat y"
    using snoc.prems(4) ys by (simp add: digits_value_def)
  moreover have "unat x < 32" "unat y < 32" using snoc.prems(2,3) ys by simp_all
  ultimately have "digits_value xs = digits_value zs \<and> unat x = unat y" by (rule base32_inject)
  then show ?case using snoc ys by (simp add: word_unat_eq_iff)
qed simp

lemma unat_and_31: "unat (drop_bit k (v :: u64) AND 31) = unat v div 2 ^ k mod 32"
proof -
  have "drop_bit k v AND 31 = take_bit 5 (drop_bit k v)" by (simp add: take_bit_eq_mask mask_numeral)
  then have "unat (drop_bit k v AND 31) = take_bit 5 (unat (drop_bit k v))"
    by (simp only: unsigned_take_bit_eq)
  also have "\<dots> = unat v div 2 ^ k mod 32"
    using unat_lt2p [of v] by (simp only: unsigned_drop_bit_eq) (simp add: take_bit_eq_mod drop_bit_eq_div)
  finally show ?thesis .
qed

lemma checksum_digits_bound: "list_all (\<lambda>x. unat x < 32) (checksum_digits v)"
  by (simp add: checksum_digits_def list_all_length unat_and_31)

lemma length_checksum_digits [simp]: "length (checksum_digits v) = 8"
  by (simp add: checksum_digits_def)

lemma digits_value_checksum_digits:
  assumes "unat v < 2 ^ 40"
  shows "digits_value (checksum_digits v) = unat v"
proof -
  have up: "[0..<8] = [0, 1, 2, 3, 4, 5, 6, 7 :: nat]" by (simp add: upt_rec)
  have join: "n div (d * 32) * 32 + n div d mod 32 = n div d" for n d :: nat
    by (metis div_mult2_eq mult.commute div_mult_mod_eq)
  let ?n = "unat v"
  have "?n div 2 ^ 35 mod 32 = ?n div 2 ^ 35" using assms by (simp add: div_less_iff_less_mult)
  then show ?thesis
    using join [of ?n "2 ^ 30"] join [of ?n "2 ^ 25"] join [of ?n "2 ^ 20"] join [of ?n "2 ^ 15"]
      join [of ?n "2 ^ 10"] join [of ?n "2 ^ 5"] join [of ?n 1]
    using unat_and_31 [of 0 v] by (simp add: digits_value_def checksum_digits_def up unat_and_31)
qed

lemma polymod_fold_bound:
  "unat c < 2 ^ 40 \<Longrightarrow> list_all (\<lambda>x. unat x < 32) xs \<Longrightarrow> unat (foldl polymod_step c xs) < 2 ^ 40"
proof (induction xs arbitrary: c)
  case (Cons x xs)
  then show ?case using polymod_step_bound [of c x] by simp
qed simp

lemma polymod_append_zeros:
  "polymod (syms @ cs) = polymod (syms @ replicate (length cs) 0) XOR foldl polymod_step 0 cs"
proof -
  have "map2 (XOR) (replicate (length cs) 0) cs = cs"
    by (rule nth_equalityI) simp_all
  then show ?thesis
    using polymod_fold_xor [of "replicate (length cs) 0" cs "foldl polymod_step 1 syms" 0]
    by (simp add: polymod_def)
qed

lemma xor_eq_iff: "(a :: u64) XOR b = c \<longleftrightarrow> b = a XOR c"
  by (auto simp flip: xor.assoc)

lemma polymod_accepts:
  assumes "list_all (\<lambda>x. unat x < 32) syms" and "list_all (\<lambda>x. unat x < 32) cs" and "length cs = 8"
  shows "polymod (syms @ cs) = 1 \<longleftrightarrow> cs = checksum_digits (polymod (syms @ replicate 8 0) XOR 1)"
proof -
  let ?v = "polymod (syms @ replicate 8 0) XOR 1"
  have "unat (polymod (syms @ replicate 8 0)) < 2 ^ 40"
    unfolding polymod_def using assms(1) by (intro polymod_fold_bound) (simp_all add: list_all_length nth_append)
  then have b: "unat ?v < 2 ^ 40" unfolding lt_2p_take_bit take_bit_xor by simp
  have "polymod (syms @ cs) = 1 \<longleftrightarrow> foldl polymod_step 0 cs = ?v"
    using polymod_append_zeros [of syms cs] assms(3) by (simp only: xor_eq_iff)
  also have "\<dots> \<longleftrightarrow> digits_value cs = digits_value (checksum_digits ?v)"
    using polymod_digits [of cs] assms b
    by (simp add: word_unat_eq_iff digits_value_checksum_digits del: unat_1)
  also have "\<dots> \<longleftrightarrow> cs = checksum_digits ?v"
    using digits_value_inject [of cs "checksum_digits ?v"] assms checksum_digits_bound by auto
  finally show ?thesis .
qed

subsection \<open>Charsets and expansion\<close>

lemma position_None: "position xs c = None \<longleftrightarrow> c \<notin> set xs"
  by (induction xs) auto

lemma position_Some: "position xs c = Some i \<Longrightarrow> i < length xs \<and> xs ! i = c"
  by (induction xs arbitrary: i) (auto split: if_splits)

lemma position_nth: "distinct xs \<Longrightarrow> i < length xs \<Longrightarrow> position xs (xs ! i) = Some i"
  by (induction xs arbitrary: i) (auto simp: nth_Cons split: nat.splits)

lemma charset_facts:
  "length INPUT_CHARSET = 95" "length CHECKSUM_CHARSET = 32" "distinct CHECKSUM_CHARSET"
  by (simp_all add: INPUT_CHARSET_def CHECKSUM_CHARSET_def)

lemma position_charset:
  "position INPUT_CHARSET c = (if c \<in> set INPUT_CHARSET then Some (unat (charset_index c)) else None)"
proof (cases "position INPUT_CHARSET c")
  case None
  then show ?thesis by (simp add: position_None)
next
  case (Some i)
  then have "i < 95" using position_Some [OF Some] charset_facts by simp
  then have "unat (of_nat i :: u64) = i" by (simp add: unsigned_of_nat take_bit_nat_eq_self_iff)
  moreover have "c \<in> set INPUT_CHARSET" using Some position_None [of INPUT_CHARSET c] by auto
  ultimately show ?thesis using Some by (simp add: charset_index_def)
qed

lemma charset_index_bound: "c \<in> set INPUT_CHARSET \<Longrightarrow> unat (charset_index c) < 96"
  using position_charset [of c] position_Some [of INPUT_CHARSET c] charset_facts by force

lemma charset_index_inject:
  assumes "c \<in> set INPUT_CHARSET" and "d \<in> set INPUT_CHARSET" and "charset_index c = charset_index d"
  shows "c = d"
  using assms position_charset [of c] position_charset [of d] position_Some by metis

lemma expand_step_eq:
  "expand_step c (groups, symbols) =
     (if c \<in> set INPUT_CHARSET
      then let v = charset_index c; groups = groups @ [drop_bit 5 v]; symbols = symbols @ [v AND 31]
        in if length groups = 3
           then Ok ([], symbols @ [groups ! 0 * 9 + groups ! 1 * 3 + groups ! 2])
           else Ok (groups, symbols)
      else Err PE_InvalidCharset)"
  by (simp add: expand_step_def position_charset Let_def)

lemma three_cases: "(xs = [] \<Longrightarrow> P) \<Longrightarrow> (\<And>a. xs = [a] \<Longrightarrow> P) \<Longrightarrow> (\<And>a b. xs = [a, b] \<Longrightarrow> P)
    \<Longrightarrow> (\<And>a b c ys. xs = a # b # c # ys \<Longrightarrow> P) \<Longrightarrow> P"
  by (metis list.exhaust)

lemma expand_loop:
  "res_bind (for_in (\<lambda>_ c st. expand_step c st) i s ([], symbols)) (\<lambda>(groups, symbols).
       if length groups = 1 then Ok (symbols @ [groups ! 0])
       else if length groups = 2 then Ok (symbols @ [groups ! 0 * 3 + groups ! 1])
       else Ok symbols)
   = (if set s \<subseteq> set INPUT_CHARSET then Ok (symbols @ expand_vals (map charset_index s))
      else Err PE_InvalidCharset)"
proof (induction s arbitrary: i symbols rule: length_induct)
  case (1 s)
  show ?case
  proof (rule three_cases [of s])
    fix a b c ys
    assume s: "s = a # b # c # ys"
    then have "length ys < length s" by simp
    then show ?thesis using 1 s by (simp add: expand_step_eq Let_def)
  qed (simp_all add: expand_step_eq Let_def)
qed

lemma expand_eq:
  "expand s = (if set s \<subseteq> set INPUT_CHARSET then Ok (expand_vals (map charset_index s))
     else Err PE_InvalidCharset)"
  unfolding expand_def using expand_loop [of 0 s "[]"] by simp

lemma unat_group:
  assumes "unat (a :: u64) < 96"
  shows "unat (a AND 31) = unat a mod 32" and "unat (drop_bit 5 a) = unat a div 32" and "unat a div 32 < 3"
proof -
  show "unat (a AND 31) = unat a mod 32" using unat_and_31 [of 0 a] by simp
  show "unat (drop_bit 5 a) = unat a div 32" by (simp add: drop_bit_eq_div unat_div)
  show "unat a div 32 < 3" using assms by simp
qed

lemma unat_pair:
  "unat (x :: u64) < 3 \<Longrightarrow> unat y < 3 \<Longrightarrow> unat (x * 3 + y) = unat x * 3 + unat y"
  by (simp add: unat_word_ariths)

lemma unat_triple:
  "unat (x :: u64) < 3 \<Longrightarrow> unat y < 3 \<Longrightarrow> unat z < 3 \<Longrightarrow>
   unat (x * 9 + y * 3 + z) = unat x * 9 + unat y * 3 + unat z"
  by (simp add: unat_word_ariths)

lemma expand_vals_bound:
  "list_all (\<lambda>v. unat v < 96) vs \<Longrightarrow> list_all (\<lambda>x. unat x < 32) (expand_vals vs)"
proof (induction vs rule: expand_vals.induct)
  case (4 a b c vs)
  then show ?case using unat_group [of a] unat_group [of b] unat_group [of c] by (simp add: unat_triple)
next
  case (3 a b)
  then show ?case using unat_group [of a] unat_group [of b] by (simp add: unat_pair)
next
  case (2 a)
  then show ?case using unat_group [of a] by simp
qed simp

lemma low_high_inject:
  assumes "unat (a :: u64) < 96" and "unat a' < 96"
    and "a AND 31 = a' AND 31" and "unat a div 32 = unat a' div 32"
  shows "a = a'"
proof -
  have "unat a mod 32 = unat a' mod 32" using assms unat_group(1) by metis
  then have "unat a = unat a'" using assms(4) by (metis div_mult_mod_eq)
  then show ?thesis by (simp add: word_unat_eq_iff)
qed

lemma base3_inject: "x * 3 + y = x' * 3 + y' \<Longrightarrow> y < 3 \<Longrightarrow> y' < 3 \<Longrightarrow> x = x' \<and> y = (y' :: nat)"
  by presburger

lemma group_pair_inject:
  fixes a b a' b' :: u64
  assumes "unat a < 96" "unat b < 96" "unat a' < 96" "unat b' < 96"
    and "drop_bit 5 a * 3 + drop_bit 5 b = drop_bit 5 a' * 3 + drop_bit 5 b'"
  shows "unat a div 32 = unat a' div 32" and "unat b div 32 = unat b' div 32"
proof -
  note g = assms(1-4) [THEN unat_group(2)] and h = assms(1-4) [THEN unat_group(3)]
  have "unat a div 32 * 3 + unat b div 32 = unat a' div 32 * 3 + unat b' div 32"
    using arg_cong [OF assms(5), of unat] h by (simp only: g unat_pair)
  from base3_inject [OF this h(2,4)]
  show "unat a div 32 = unat a' div 32" "unat b div 32 = unat b' div 32" by simp_all
qed

lemma group_triple_inject:
  fixes a b c a' b' c' :: u64
  assumes "unat a < 96" "unat b < 96" "unat c < 96" "unat a' < 96" "unat b' < 96" "unat c' < 96"
    and "drop_bit 5 a * 9 + drop_bit 5 b * 3 + drop_bit 5 c
      = drop_bit 5 a' * 9 + drop_bit 5 b' * 3 + drop_bit 5 c'"
  shows "unat a div 32 = unat a' div 32" and "unat b div 32 = unat b' div 32"
    and "unat c div 32 = unat c' div 32"
proof -
  note g = assms(1-6) [THEN unat_group(2)] and h = assms(1-6) [THEN unat_group(3)]
  have "unat a div 32 * 9 + unat b div 32 * 3 + unat c div 32
      = unat a' div 32 * 9 + unat b' div 32 * 3 + unat c' div 32"
    using arg_cong [OF assms(7), of unat] h by (simp only: g unat_triple)
  then have "(unat a div 32 * 3 + unat b div 32) * 3 + unat c div 32
      = (unat a' div 32 * 3 + unat b' div 32) * 3 + unat c' div 32"
    by (simp only: distrib_right mult.assoc)
  from base3_inject [OF this h(3,6)]
  have "unat a div 32 * 3 + unat b div 32 = unat a' div 32 * 3 + unat b' div 32"
    and c: "unat c div 32 = unat c' div 32" by simp_all
  from base3_inject [OF this(1) h(2,5)] c
  show "unat a div 32 = unat a' div 32" "unat b div 32 = unat b' div 32"
      "unat c div 32 = unat c' div 32" by simp_all
qed

lemma expand_vals_inject:
  "length vs = length ws \<Longrightarrow> list_all (\<lambda>v. unat v < 96) vs \<Longrightarrow> list_all (\<lambda>v. unat v < 96) ws \<Longrightarrow>
   expand_vals vs = expand_vals ws \<Longrightarrow> vs = ws"
proof (induction vs arbitrary: ws rule: expand_vals.induct)
  case (2 a)
  then obtain a' where ws: "ws = [a']" by (auto simp: length_Suc_conv Suc_length_conv)
  then have lt: "unat a < 96" "unat a' < 96" and eq: "a AND 31 = a' AND 31" "drop_bit 5 a = drop_bit 5 a'"
    using 2 by simp_all
  have "unat a div 32 = unat a' div 32" using eq(2) lt [THEN unat_group(2)] by simp
  then show ?case using low_high_inject [OF lt eq(1)] ws by simp
next
  case (3 a b)
  then obtain a' b' where ws: "ws = [a', b']" by (auto simp: length_Suc_conv Suc_length_conv)
  then have lt: "unat a < 96" "unat b < 96" "unat a' < 96" "unat b' < 96"
    and eq: "a AND 31 = a' AND 31" "b AND 31 = b' AND 31"
      "drop_bit 5 a * 3 + drop_bit 5 b = drop_bit 5 a' * 3 + drop_bit 5 b'"
    using 3 by simp_all
  note d = group_pair_inject [OF lt eq(3)]
  show ?case using low_high_inject [OF lt(1,3) eq(1) d(1)] low_high_inject [OF lt(2,4) eq(2) d(2)] ws by simp
next
  case (4 a b c vs)
  then obtain a' b' c' ws' where ws: "ws = a' # b' # c' # ws'" and len: "length vs = length ws'"
    by (auto simp: length_Suc_conv Suc_length_conv)
  then have lt: "unat a < 96" "unat b < 96" "unat c < 96" "unat a' < 96" "unat b' < 96" "unat c' < 96"
    and eq: "a AND 31 = a' AND 31" "b AND 31 = b' AND 31" "c AND 31 = c' AND 31"
      "drop_bit 5 a * 9 + drop_bit 5 b * 3 + drop_bit 5 c
        = drop_bit 5 a' * 9 + drop_bit 5 b' * 3 + drop_bit 5 c'"
    and rest: "list_all (\<lambda>v. unat v < 96) vs" "list_all (\<lambda>v. unat v < 96) ws'"
      "expand_vals vs = expand_vals ws'"
    using 4 by simp_all
  note d = group_triple_inject [OF lt eq(4)]
  show ?case
    using low_high_inject [OF lt(1,4) eq(1) d(1)] low_high_inject [OF lt(2,5) eq(2) d(2)]
      low_high_inject [OF lt(3,6) eq(3) d(3)] "4.IH" [OF len rest] ws by simp
qed simp

lemma expand_vals_append:
  "3 dvd length xs \<Longrightarrow> expand_vals (xs @ ys) = expand_vals xs @ expand_vals ys"
proof (induction xs rule: expand_vals.induct)
  case (4 a b c vs)
  then have "3 dvd length vs + 3" by (simp add: eval_nat_numeral)
  then have "3 dvd length vs" by presburger
  then show ?case using 4 by simp
next
  case (3 a b)
  then have "(3 :: nat) dvd 2" by (simp add: numeral_2_eq_2)
  then show ?case by simp
qed simp_all

lemma length_expand_vals: "length (expand_vals xs) = length xs + (length xs + 2) div 3"
  by (induction xs rule: expand_vals.induct) simp_all

subsection \<open>The checker\<close>

lemma checksum_loop:
  "list_all (\<lambda>c. c \<in> set CHECKSUM_CHARSET) cs \<Longrightarrow>
   for_in (\<lambda>_ c symbols. res_bind (expect (position CHECKSUM_CHARSET c)) (\<lambda>idx.
      Ok (symbols @ [of_nat idx]))) i cs syms
   = (Ok (syms @ map (\<lambda>c. of_nat (the (position CHECKSUM_CHARSET c))) cs) :: (u64 list, parse_error) res)"
proof (induction cs arbitrary: i syms)
  case (Cons c cs)
  then obtain k where "position CHECKSUM_CHARSET c = Some k"
    using position_None [of CHECKSUM_CHARSET c] by auto
  then show ?case using Cons by simp
qed simp

lemma checksum_digits_of:
  assumes "list_all (\<lambda>c. c \<in> set CHECKSUM_CHARSET) cs"
  shows "list_all (\<lambda>x. unat (x :: u64) < 32) (map (\<lambda>c. of_nat (the (position CHECKSUM_CHARSET c))) cs)"
    and "map (\<lambda>x :: u64. CHECKSUM_CHARSET ! unat x)
      (map (\<lambda>c. of_nat (the (position CHECKSUM_CHARSET c))) cs) = cs"
proof -
  have "unat (of_nat (the (position CHECKSUM_CHARSET c)) :: u64) < 32
      \<and> CHECKSUM_CHARSET ! unat (of_nat (the (position CHECKSUM_CHARSET c)) :: u64) = c"
    if "c \<in> set cs" for c
  proof -
    have "c \<in> set CHECKSUM_CHARSET" using that assms by (simp add: list_all_iff)
    then obtain k where k: "position CHECKSUM_CHARSET c = Some k"
      using position_None [of CHECKSUM_CHARSET c] by auto
    then have "k < 32" "CHECKSUM_CHARSET ! k = c"
      using position_Some [OF k] charset_facts by simp_all
    moreover have "take_bit 64 k = k" using \<open>k < 32\<close> by (simp add: take_bit_nat_eq_self_iff)
    ultimately show ?thesis using k by (simp add: unsigned_of_nat)
  qed
  then show "list_all (\<lambda>x. unat (x :: u64) < 32) (map (\<lambda>c. of_nat (the (position CHECKSUM_CHARSET c))) cs)"
    and "map (\<lambda>x :: u64. CHECKSUM_CHARSET ! unat x)
      (map (\<lambda>c. of_nat (the (position CHECKSUM_CHARSET c))) cs) = cs"
    by (simp_all add: list_all_iff map_idI)
qed

lemma digits_of_checksum:
  assumes "list_all (\<lambda>x. unat (x :: u64) < 32) ds"
  shows "list_all (\<lambda>c. c \<in> set CHECKSUM_CHARSET) (map (\<lambda>x. CHECKSUM_CHARSET ! unat x) ds)"
    and "map (\<lambda>c. of_nat (the (position CHECKSUM_CHARSET c))) (map (\<lambda>x. CHECKSUM_CHARSET ! unat x) ds) = ds"
  using assms charset_facts by (auto simp: list_all_iff position_nth intro!: map_idI)

lemma verify_checksum_split:
  assumes "length cs = 8"
  shows "verify_checksum (payload @ ''#'' @ cs) = Ok () \<longleftrightarrow>
     payload \<noteq> [] \<and> list_all (\<lambda>c. c \<in> set CHECKSUM_CHARSET) cs \<and> set payload \<subseteq> set INPUT_CHARSET
     \<and> polymod (expand_vals (map charset_index payload)
          @ map (\<lambda>c. of_nat (the (position CHECKSUM_CHARSET c))) cs) = 1"
proof (cases "payload = []")
  case True
  then show ?thesis using assms by (simp add: verify_checksum_def)
next
  case False
  have "\<not> list_ex (\<lambda>c. c \<notin> set CHECKSUM_CHARSET) cs \<longleftrightarrow> list_all (\<lambda>c. c \<in> set CHECKSUM_CHARSET) cs"
    by (simp add: list_ex_iff list_all_iff)
  then show ?thesis using False assms
    by (auto simp: verify_checksum_def Let_def nth_append checksum_loop expand_eq)
qed

lemma verify_checksum_form:
  assumes "verify_checksum s = Ok ()"
  obtains payload cs where "s = payload @ ''#'' @ cs" and "length cs = 8"
proof -
  let ?h = "length s - 9"
  have "10 \<le> length s" "s ! ?h = CHR ''#''"
    using assms by (auto simp: verify_checksum_def Let_def split: if_splits)
  then have "s = take ?h s @ ''#'' @ drop (?h + 1) s" "length (drop (?h + 1) s) = 8"
    using id_take_nth_drop [of ?h s] by simp_all
  then show thesis by (rule that)
qed

lemma payload_symbols:
  "set payload \<subseteq> set INPUT_CHARSET \<Longrightarrow>
   list_all (\<lambda>v. unat v < 96) (map charset_index payload)
   \<and> list_all (\<lambda>x. unat x < 32) (expand_vals (map charset_index payload))"
  using expand_vals_bound [of "map charset_index payload"] charset_index_bound
  by (auto simp: list_all_iff)

lemma polymod_fold_zeros:
  "c \<noteq> 0 \<Longrightarrow> unat c < 2 ^ 40 \<Longrightarrow> foldl polymod_step c (replicate n 0) \<noteq> 0"
proof (induction n arbitrary: c)
  case (Suc n)
  then have "polymod_step c 0 \<noteq> 0" using polymod_step_zero by blast
  then show ?case using Suc.IH polymod_step_bound [of c 0] Suc.prems(2) by simp
qed simp

lemma polymod_fold_0: "foldl polymod_step 0 (replicate n 0) = 0"
  by (induction n) (simp_all add: polymod_step_eq)

text \<open>A non-zero difference confined to eight consecutive symbols changes the residue.\<close>

lemma burst_nonzero:
  assumes "list_all (\<lambda>x. unat x < 32) d" and "length d \<le> 8" and "d \<noteq> replicate (length d) 0"
  shows "foldl polymod_step 0 (replicate m 0 @ d @ replicate n 0) \<noteq> 0"
proof -
  let ?c = "foldl polymod_step 0 d"
  have "unat ?c = digits_value d" "digits_value d < 32 ^ length d"
    using polymod_digits assms(1,2) by simp_all
  moreover have "digits_value d \<noteq> digits_value (replicate (length d) 0)"
    using digits_value_inject [of d "replicate (length d) 0"] assms by (auto simp: list_all_length)
  moreover have "digits_value (replicate k 0) = 0" for k
    by (induction k) (simp_all add: digits_value_def)
  ultimately have "?c \<noteq> 0" by auto
  moreover have "unat ?c < 2 ^ 40" using polymod_fold_bound [of 0 d] assms(1) by simp
  ultimately show ?thesis using polymod_fold_zeros by (simp add: polymod_fold_0)
qed

lemma xor_lt_32: "unat (a :: u64) < 32 \<Longrightarrow> unat (b :: u64) < 32 \<Longrightarrow> unat (a XOR b) < 32"
  using lt_2p_take_bit [of a 5] lt_2p_take_bit [of b 5] lt_2p_take_bit [of "a XOR b" 5]
  by (simp add: take_bit_xor)

lemma burst_detected:
  assumes b: "list_all (\<lambda>x. unat x < 32) b" "list_all (\<lambda>x. unat x < 32) b'"
    and len: "length b' = length b" "length b \<le> 8" and ne: "b' \<noteq> b"
  shows "polymod (a @ b @ c) \<noteq> polymod (a @ b' @ c)"
proof -
  let ?d = "map2 (XOR) b b'"
  have self: "map2 (XOR) xs xs = replicate (length xs) (0 :: u64)" for xs
    by (induction xs) simp_all
  have d: "map2 (XOR) (a @ b @ c) (a @ b' @ c) = replicate (length a) 0 @ ?d @ replicate (length c) 0"
    using len by (simp add: self)
  obtain i where i: "i < length b" "b ! i \<noteq> b' ! i" using ne len nth_equalityI by metis
  have "?d \<noteq> replicate (length ?d) 0"
  proof
    assume "?d = replicate (length ?d) 0"
    then have "?d ! i = replicate (length ?d) 0 ! i" by (rule arg_cong)
    then have "b ! i XOR b' ! i = 0" using i(1) len by simp
    then show False using i(2) by (simp add: xor_eq_iff)
  qed
  moreover have "list_all (\<lambda>x. unat x < 32) ?d"
    using b len xor_lt_32 by (simp add: list_all_length)
  ultimately have "foldl polymod_step 0 (map2 (XOR) (a @ b @ c) (a @ b' @ c)) \<noteq> 0"
    unfolding d using burst_nonzero len by simp
  then show ?thesis
    using polymod_fold_xor [of "a @ b @ c" "a @ b' @ c" 1 1] len by (auto simp: polymod_def)
qed

lemma window_split: "take n xs @ take m (drop n xs) @ drop (n + m) xs = xs"
  using append_take_drop_id [of m "drop n xs"] by (simp add: add.commute)

lemma expand_vals_window:
  assumes "length X = length (take 6 (drop (3 * g) vs))"
  shows "expand_vals (take (3 * g) vs @ X @ drop (3 * g + 6) vs)
    = expand_vals (take (3 * g) vs) @ expand_vals X @ expand_vals (drop (3 * g + 6) vs)"
proof (cases "3 * g + 6 \<le> length vs")
  case True
  then have "3 dvd length (take (3 * g) vs)" "3 dvd length X" using assms by simp_all
  then show ?thesis by (simp only: expand_vals_append append_assoc)
next
  case False
  then have R: "drop (3 * g + 6) vs = []" by simp
  show ?thesis
  proof (cases "3 * g \<le> length vs")
    case True
    then have "3 dvd length (take (3 * g) vs)" by simp
    then show ?thesis by (simp only: R expand_vals_append append_Nil2 expand_vals.simps(1))
  next
    case False
    then have "X = []" using assms by simp
    then show ?thesis using R by simp
  qed
qed

lemma map_charset_index_inject:
  assumes "map charset_index p = map charset_index q" and "set p \<subseteq> set INPUT_CHARSET"
    and "set q \<subseteq> set INPUT_CHARSET"
  shows "p = q"
proof (rule map_inj_on [OF assms(1)])
  have "inj_on charset_index (set INPUT_CHARSET)" by (rule inj_onI) (rule charset_index_inject)
  then show "inj_on charset_index (set p \<union> set q)"
    using assms(2,3) by (meson Un_least inj_on_subset)
qed

lemma create_checksum_eq:
  "set payload \<subseteq> set INPUT_CHARSET \<Longrightarrow>
   create_checksum payload = Ok (payload @ ''#'' @ map (\<lambda>x. CHECKSUM_CHARSET ! unat x)
     (checksum_digits (polymod (expand_vals (map charset_index payload) @ replicate 8 0) XOR 1)))"
  by (simp add: create_checksum_def expand_eq Let_def checksum_digits_def o_def del: drop_bit_xor)

lemma create_checksum_verifies:
  assumes "payload \<noteq> []" and "create_checksum payload = Ok s"
  shows "verify_checksum s = Ok ()" and "\<exists>cs. s = payload @ ''#'' @ cs \<and> length cs = 8"
proof -
  let ?syms = "expand_vals (map charset_index payload)"
  let ?ds = "checksum_digits (polymod (?syms @ replicate 8 0) XOR 1)"
  have c: "set payload \<subseteq> set INPUT_CHARSET"
    using assms(2) by (auto simp: create_checksum_def expand_eq split: if_splits)
  then have s: "s = payload @ ''#'' @ map (\<lambda>x. CHECKSUM_CHARSET ! unat x) ?ds"
    using assms(2) create_checksum_eq by simp
  then show "\<exists>cs. s = payload @ ''#'' @ cs \<and> length cs = 8" by simp
  have "polymod (?syms @ ?ds) = 1"
    using polymod_accepts [of ?syms ?ds] payload_symbols [OF c] checksum_digits_bound by simp
  then show "verify_checksum s = Ok ()"
    using s assms(1) c digits_of_checksum [OF checksum_digits_bound]
      verify_checksum_split [of "map (\<lambda>x. CHECKSUM_CHARSET ! unat x) ?ds" payload] by simp
qed

section \<open>Properties\<close>

text \<open>
  the checker accepts a descriptor string exactly when it is what the BIP-380 generator
  produces for its non-empty payload. So every payload over the charset has exactly one
  accepted checksum.
\<close>

theorem verify_checksum_iff_create:
  "verify_checksum s = Ok () \<longleftrightarrow> (\<exists>payload. payload \<noteq> [] \<and> create_checksum payload = Ok s)"
proof
  assume ok: "verify_checksum s = Ok ()"
  then obtain payload cs where s: "s = payload @ ''#'' @ cs" "length cs = 8"
    by (rule verify_checksum_form)
  let ?syms = "expand_vals (map charset_index payload)"
  let ?ds = "map (\<lambda>c. of_nat (the (position CHECKSUM_CHARSET c))) cs :: u64 list"
  have r: "payload \<noteq> []" "list_all (\<lambda>c. c \<in> set CHECKSUM_CHARSET) cs" "set payload \<subseteq> set INPUT_CHARSET"
      "polymod (?syms @ ?ds) = 1"
    using ok s verify_checksum_split by simp_all
  have "?ds = checksum_digits (polymod (?syms @ replicate 8 0) XOR 1)"
    using polymod_accepts [of ?syms ?ds] payload_symbols [OF r(3)] checksum_digits_of(1) [OF r(2)] r(4) s(2)
    by simp
  then have "cs = map (\<lambda>x. CHECKSUM_CHARSET ! unat x) (checksum_digits (polymod (?syms @ replicate 8 0) XOR 1))"
    using checksum_digits_of(2) [OF r(2)] by simp
  then have "create_checksum payload = Ok s"
    using create_checksum_eq [OF r(3)] s(1) by simp
  with r(1) show "\<exists>payload. payload \<noteq> [] \<and> create_checksum payload = Ok s" by blast
next
  assume "\<exists>payload. payload \<noteq> [] \<and> create_checksum payload = Ok s"
  then show "verify_checksum s = Ok ()" using create_checksum_verifies by blast
qed

text \<open>
  C36: error detection. If a payload with its checksum is accepted, then any other payload of
  the same length that differs from it only inside six aligned consecutive characters
  (every single wrong character and every swap of neighbours among them) is rejected with
  that checksum.
\<close>

theorem verify_checksum_detects:
  assumes "verify_checksum (p @ ''#'' @ cs) = Ok ()" and "length cs = 8"
    and "length p' = length p" and "p' \<noteq> p"
    and "take (3 * g) p' = take (3 * g) p" and "drop (3 * g + 6) p' = drop (3 * g + 6) p"
  shows "verify_checksum (p' @ ''#'' @ cs) \<noteq> Ok ()"
proof
  assume ok': "verify_checksum (p' @ ''#'' @ cs) = Ok ()"
  let ?V = "map charset_index p" and ?V' = "map charset_index p'"
  let ?A = "take (3 * g) ?V" and ?R = "drop (3 * g + 6) ?V"
  let ?B = "take 6 (drop (3 * g) ?V)" and ?B' = "take 6 (drop (3 * g) ?V')"
  let ?ds = "map (\<lambda>c. of_nat (the (position CHECKSUM_CHARSET c))) cs :: u64 list"
  have c: "set p \<subseteq> set INPUT_CHARSET" "set p' \<subseteq> set INPUT_CHARSET"
      "polymod (expand_vals ?V @ ?ds) = 1" "polymod (expand_vals ?V' @ ?ds) = 1"
    using assms(1,2) ok' verify_checksum_split by simp_all
  have len: "length ?B' = length ?B" using assms(3) by simp
  have V: "?A @ ?B @ ?R = ?V" "?A @ ?B' @ ?R = ?V'"
    using window_split [of "3 * g" ?V 6] window_split [of "3 * g" ?V' 6] assms(5,6)
    by (simp_all add: take_map drop_map)
  then have ne: "?B' \<noteq> ?B" using map_charset_index_inject [OF _ c(1,2)] assms(4) by metis
  have small: "list_all (\<lambda>v. unat v < 96) ?B" "list_all (\<lambda>v. unat v < 96) ?B'"
    using payload_symbols [OF c(1)] payload_symbols [OF c(2)]
    by (auto simp: list_all_iff dest!: in_set_takeD in_set_dropD)
  then have "expand_vals ?B' \<noteq> expand_vals ?B" using expand_vals_inject [OF len] ne by blast
  then have "polymod (expand_vals ?A @ expand_vals ?B @ expand_vals ?R @ ?ds)
      \<noteq> polymod (expand_vals ?A @ expand_vals ?B' @ expand_vals ?R @ ?ds)"
    using small expand_vals_bound len by (intro burst_detected) (simp_all add: length_expand_vals)
  moreover have "expand_vals ?V = expand_vals ?A @ expand_vals ?B @ expand_vals ?R"
    using expand_vals_window [of ?B g ?V] V(1) by simp
  moreover have "expand_vals ?V' = expand_vals ?A @ expand_vals ?B' @ expand_vals ?R"
    using expand_vals_window [OF len] V(2) by simp
  ultimately show False using c(3,4) by simp
qed

theorem verify_checksum_detects_witness:
  "verify_checksum ''raw(deadbeef)#89f8spxm'' = Ok () \<and> verify_checksum ''raw(deedbeef)#89f8spxm'' \<noteq> Ok ()"
proof -
  have ok: "verify_checksum (''raw(deadbeef)'' @ ''#'' @ ''89f8spxm'') = Ok ()" by code_simp
  show ?thesis
    using verify_checksum_detects [OF ok, of "''raw(deedbeef)''" 2] ok by simp
qed

end
