(* ===== verification/Verify_Parse.thy ===== *)
theory Verify_Parse
  imports Verify_Checksum Bitcoin_Data
begin

text \<open>
  \<open>crates/trinity-verify/src/parse.rs\<close> and \<open>types.rs\<close>: the hand-written parser for the one
  descriptor shape the wallet accepts, \<open>wsh(sortedmulti(2,K,K,K))#checksum\<close>. The cursor is
  the input it has not consumed yet; every parsing function returns what is left. Decoding
  an extended key is the parameter \<open>xpub_from_str\<close>.

  The lemmas show that the origin check accepts a fixed finite set of paths, that the parser
  accepts exactly the strings of the declarative grammar and returns the parts of the
  string it accepted, and that it never panics.
\<close>

datatype derivation_branch = BranchExternal | BranchInternal

record key_expr =
  ke_fingerprint :: fingerprint
  ke_origin_path :: string
  ke_xpub :: string
  ke_derivation :: derivation_branch

record parsed_descriptor =
  pd_k :: u32
  pd_keys :: "key_expr list"

definition uniform_derivation :: "parsed_descriptor \<Rightarrow> derivation_branch option" where
  "uniform_derivation d =
     (let b0 = ke_derivation (pd_keys d ! 0)
      in if ke_derivation (pd_keys d ! 1) = b0 \<and> ke_derivation (pd_keys d ! 2) = b0
         then Some b0 else None)"

subsection \<open>Cursor\<close>

definition starts_with :: "string \<Rightarrow> string \<Rightarrow> bool" where
  "starts_with rest lit \<longleftrightarrow> take (length lit) rest = lit"

definition ends_with :: "string \<Rightarrow> string \<Rightarrow> bool" where
  "ends_with s lit \<longleftrightarrow> length lit \<le> length s \<and> drop (length s - length lit) s = lit"

definition expect_char :: "char \<Rightarrow> string \<Rightarrow> (string, parse_error) res" where
  "expect_char c rest =
     (if starts_with rest [c] then Ok (drop 1 rest)
      else if rest = [] then Err PE_UnexpectedEof
      else Err PE_TrailingGarbage)"

definition take_until_char :: "char \<Rightarrow> string \<Rightarrow> (string \<times> string, parse_error) res" where
  "take_until_char c rest =
     (case position rest c of
        Some i \<Rightarrow> Ok (take i rest, drop i rest)
      | None \<Rightarrow> Err PE_UnexpectedEof)"

definition take_while :: "(char \<Rightarrow> bool) \<Rightarrow> string \<Rightarrow> (string \<times> string, parse_error) res" where
  "take_while P rest = Ok (takeWhile P rest, dropWhile P rest)"

text \<open>\<open>str::rfind\<close> of one character.\<close>

definition rfind :: "string \<Rightarrow> char \<Rightarrow> nat option" where
  "rfind s c = map_option (\<lambda>i. length s - 1 - i) (position (rev s) c)"

subsection \<open>Origin path\<close>

text \<open>
  One path segment: the index it denotes, or the error the loop returns for it. The digits
  are checked before \<open>parse\<close> runs.
\<close>

definition origin_segment :: "string \<Rightarrow> string \<Rightarrow> (u32, parse_error) res" where
  "origin_segment path part =
     (if part = [] then Err (PE_MalformedOriginPath path)
      else if \<not> (last part = CHR 0x27 \<or> last part = CHR ''h'') then Err (PE_MalformedOriginPath path)
      else
        let num_str = butlast part
        in if num_str = [] then Err (PE_MalformedOriginPath path)
           else if \<not> list_all is_ascii_digit num_str then Err (PE_MalformedOriginPath path)
           else if 1 < length num_str \<and> num_str ! 0 = CHR ''0'' then Err (PE_MalformedOriginPath path)
           else (case parse_uint (2 ^ 64) num_str of
                   None \<Rightarrow> Err (PE_MalformedOriginPath path)
                 | Some n \<Rightarrow> if 0x80000000 \<le> n then Err (PE_MalformedOriginPath path)
                            else Ok (of_nat n)))"

definition validate_origin_path :: "string \<Rightarrow> (unit, parse_error) res" where
  "validate_origin_path path =
     (if list_ex (\<lambda>b. b = CHR ''<'' \<or> b = CHR '';'' \<or> b = CHR ''*'') path then Err PE_MultipathForbidden
      else
        let trimmed = (case strip_prefix ''m/'' path of Some r \<Rightarrow> r | None \<Rightarrow> path);
            segments = split_on (CHR ''/'') trimmed
        in if length segments \<noteq> 4
           then (if length segments < 4 then Err (PE_MalformedOriginPath path)
                 else Err (PE_InvalidOriginPath path))
           else
             res_bind (for_in (\<lambda>i part indices.
                 res_bind (origin_segment path part) (\<lambda>n. Ok (indices[i := n])))
               0 segments [0, 0, 0, 0]) (\<lambda>indices.
             let purpose_ok = indices ! 0 = 48;
                 account_ok = indices ! 2 = 0;
                 script_ok = indices ! 3 = 2;
                 coin_ok = indices ! 1 \<le> 1
             in if purpose_ok \<and> account_ok \<and> script_ok \<and> coin_ok then Ok ()
                else Err (PE_InvalidOriginPath path)))"

subsection \<open>Key expressions\<close>

definition split_xpub_and_derivation ::
    "string \<Rightarrow> (string \<times> derivation_branch \<times> nat, parse_error) res" where
  "split_xpub_and_derivation rest =
     (let token = takeWhile (\<lambda>c. \<not> (c = CHR '','' \<or> c = CHR '')'')) rest
      in if length token < 4 then Err PE_MalformedKeyExpression
         else
           res_bind
             (if ends_with token ''/0/*'' then Ok BranchExternal
              else if ends_with token ''/1/*'' then Ok BranchInternal
              else if list_ex (\<lambda>b. b = CHR ''<'' \<or> b = CHR '';'') token then Err PE_MultipathForbidden
              else Err PE_MalformedDerivation) (\<lambda>branch.
           let xpub = take (length token - 4) token
           in if xpub = [] then Err PE_MalformedXpub
              else Ok (xpub, branch, length token)))"

definition parse_keyexpr :: "prims \<Rightarrow> string \<Rightarrow> (key_expr \<times> string, parse_error) res" where
  "parse_keyexpr pr p =
     (case expect_char (CHR ''['') p of
        Panic \<Rightarrow> Panic
      | Err _ \<Rightarrow> Err PE_MalformedKeyExpression
      | Ok p \<Rightarrow>
        res_bind (take_while (\<lambda>c. c \<noteq> CHR ''/'' \<and> c \<noteq> CHR '']'') p) (\<lambda>(fp_str, p).
        if length fp_str \<noteq> 8 then Err PE_MalformedFingerprint
        else
          res_bind (res_map_err (\<lambda>_. PE_MalformedFingerprint) (fp_from_hex fp_str)) (\<lambda>fingerprint.
          if \<not> starts_with p ''/'' then Err PE_MalformedKeyExpression
          else
            res_bind (take_while (\<lambda>c. c \<noteq> CHR '']'' \<and> c \<noteq> CHR '','' \<and> c \<noteq> CHR '')'') (drop 1 p))
              (\<lambda>(origin_path, p).
            if \<not> starts_with p '']'' then Err PE_MalformedKeyExpression
            else if origin_path = [] then Err (PE_MalformedOriginPath ''empty'')
            else
              res_bind (validate_origin_path origin_path) (\<lambda>_.
              let rest = drop 1 p
              in res_bind (split_xpub_and_derivation rest) (\<lambda>(xpub, branch, consumed).
                 let p = drop consumed rest
                 in if starts_with xpub ''xprv'' \<or> starts_with xpub ''tprv'' then Err PE_PrivateKeyForbidden
                    else if \<not> (starts_with xpub ''xpub'' \<or> starts_with xpub ''tpub'') then Err PE_MalformedXpub
                    else if list_ex (\<lambda>b. b = CHR ''<'' \<or> b = CHR '';'' \<or> b = CHR ''*'') xpub
                    then Err PE_MultipathForbidden
                    else if xpub_from_str pr xpub = None then Err PE_MalformedXpub
                    else Ok (\<lparr>ke_fingerprint = fingerprint, ke_origin_path = origin_path,
                              ke_xpub = xpub, ke_derivation = branch\<rparr>, p)))))))"

text \<open>The loop that counts further key expressions before the parser gives up.\<close>

function count_extra :: "string \<Rightarrow> nat" where
  "count_extra p =
     (if starts_with p '',''
      then Suc (count_extra (dropWhile (\<lambda>c. c \<noteq> CHR '','' \<and> c \<noteq> CHR '')'') (drop 1 p)))
      else 0)"
  by pat_completeness auto

termination
proof (relation "measure length")
  fix p :: string
  assume "starts_with p '',''"
  then have "p \<noteq> []" by (auto simp: starts_with_def)
  then show "(dropWhile (\<lambda>c. c \<noteq> CHR '','' \<and> c \<noteq> CHR '')'') (drop 1 p), p) \<in> measure length"
    using length_dropWhile_le [of "\<lambda>c. c \<noteq> CHR '','' \<and> c \<noteq> CHR '')''" "drop 1 p"]
    by (cases p) simp_all
qed simp

declare count_extra.simps [simp del]

definition parse :: "prims \<Rightarrow> string \<Rightarrow> (parsed_descriptor, parse_error) res" where
  "parse pr descriptor =
     res_bind (verify_checksum descriptor) (\<lambda>_.
     res_bind (expect (rfind descriptor (CHR ''#''))) (\<lambda>hash_pos.
     let p = take hash_pos descriptor
     in if \<not> starts_with p ''wsh('' then Err PE_WrongTopLevel
        else
          let p = drop 4 p
          in if \<not> starts_with p ''sortedmulti('' then Err PE_ExpectedSortedMulti
             else
               res_bind (take_until_char (CHR '','') (drop 12 p)) (\<lambda>(k_token, p).
               if k_token \<noteq> ''2'' then Err (PE_WrongThreshold k_token)
               else
                 res_bind (expect_char (CHR '','') p) (\<lambda>p.
                 res_bind (parse_keyexpr pr p) (\<lambda>(key0, p).
                 res_bind (expect_char (CHR '','') p) (\<lambda>p.
                 res_bind (parse_keyexpr pr p) (\<lambda>(key1, p).
                 res_bind (expect_char (CHR '','') p) (\<lambda>p.
                 res_bind (parse_keyexpr pr p) (\<lambda>(key2, p).
                 if starts_with p '','' then Err (PE_WrongKeyCount (3 + count_extra p))
                 else
                   res_bind (expect_char (CHR '')'') p) (\<lambda>p.
                   res_bind (expect_char (CHR '')'') p) (\<lambda>p.
                   if p \<noteq> [] then Err PE_TrailingGarbage
                   else Ok \<lparr>pd_k = 2, pd_keys = [key0, key1, key2]\<rparr>)))))))))))"

definition parse_trinity_descriptor :: "prims \<Rightarrow> string \<Rightarrow> (parsed_descriptor, parse_error) res" where
  "parse_trinity_descriptor pr descriptor = parse pr descriptor"

subsection \<open>The grammar, declaratively\<close>

text \<open>Digits without a leading zero.\<close>

definition canonical_decimal :: "string \<Rightarrow> bool" where
  "canonical_decimal s \<longleftrightarrow> s \<noteq> [] \<and> list_all is_ascii_digit s \<and> (1 < length s \<longrightarrow> s ! 0 \<noteq> CHR ''0'')"

definition hardened_markers :: "char set" where
  "hardened_markers = {CHR 0x27, CHR ''h''}"

definition origin_grammar :: "string \<Rightarrow> bool" where
  "origin_grammar path \<longleftrightarrow>
     (\<exists>pre\<in>{'''', ''m/''}. \<exists>coin\<in>{''0'', ''1''}.
      \<exists>m1\<in>hardened_markers. \<exists>m2\<in>hardened_markers. \<exists>m3\<in>hardened_markers. \<exists>m4\<in>hardened_markers.
        path = pre @ ''48'' @ [m1] @ ''/'' @ coin @ [m2] @ ''/0'' @ [m3] @ ''/2'' @ [m4])"

definition branch_suffix :: "derivation_branch \<Rightarrow> string" where
  "branch_suffix b = (case b of BranchExternal \<Rightarrow> ''/0/*'' | BranchInternal \<Rightarrow> ''/1/*'')"

definition xpub_grammar :: "prims \<Rightarrow> string \<Rightarrow> bool" where
  "xpub_grammar pr x \<longleftrightarrow> (starts_with x ''xpub'' \<or> starts_with x ''tpub'') \<and> xpub_from_str pr x \<noteq> None
     \<and> set x \<inter> set ''<;*,)'' = {}"

definition key_grammar :: "prims \<Rightarrow> key_expr \<Rightarrow> string \<Rightarrow> bool" where
  "key_grammar pr k text \<longleftrightarrow>
     (\<exists>fp. fp_from_hex fp = Ok (ke_fingerprint k)
        \<and> text = ''['' @ fp @ ''/'' @ ke_origin_path k @ '']'' @ ke_xpub k @ branch_suffix (ke_derivation k))
     \<and> origin_grammar (ke_origin_path k) \<and> xpub_grammar pr (ke_xpub k)"

definition descriptor_grammar :: "prims \<Rightarrow> parsed_descriptor \<Rightarrow> string \<Rightarrow> bool" where
  "descriptor_grammar pr d body \<longleftrightarrow>
     (\<exists>k0 k1 k2 t0 t1 t2. d = \<lparr>pd_k = 2, pd_keys = [k0, k1, k2]\<rparr>
        \<and> key_grammar pr k0 t0 \<and> key_grammar pr k1 t1 \<and> key_grammar pr k2 t2
        \<and> body = ''wsh(sortedmulti(2,'' @ t0 @ '','' @ t1 @ '','' @ t2 @ ''))'')"

section \<open>Lemmas\<close>

subsection \<open>Cursor\<close>

lemma starts_with_iff: "starts_with s lit \<longleftrightarrow> (\<exists>r. s = lit @ r)"
  by (metis append_eq_conv_conj starts_with_def)

lemma ends_with_iff: "ends_with s lit \<longleftrightarrow> (\<exists>x. s = x @ lit)"
proof
  assume "ends_with s lit"
  then have "s = take (length s - length lit) s @ lit"
    using append_take_drop_id [of "length s - length lit" s] by (simp add: ends_with_def)
  then show "\<exists>x. s = x @ lit" ..
qed (auto simp: ends_with_def)

lemma expect_char_Ok [res_simps]: "expect_char c p = Ok r \<longleftrightarrow> p = c # r"
  by (cases p) (auto simp: expect_char_def starts_with_def)

lemma expect_char_not_Panic [simp]: "expect_char c p \<noteq> Panic"
  by (simp add: expect_char_def)

lemma position_split: "position xs c = Some i \<Longrightarrow> c \<notin> set (take i xs) \<and> xs = take i xs @ c # drop (Suc i) xs"
proof (induction xs arbitrary: i)
  case (Cons x xs)
  then show ?case by (auto split: if_splits)
qed simp

lemma position_append: "c \<notin> set xs \<Longrightarrow> position (xs @ c # ys) c = Some (length xs)"
  by (induction xs) auto

lemma take_until_char_Ok [res_simps]:
  "take_until_char c p = Ok (t, r) \<longleftrightarrow> (\<exists>r'. r = c # r' \<and> p = t @ c # r' \<and> c \<notin> set t)"
proof
  assume "take_until_char c p = Ok (t, r)"
  then obtain i where i: "position p c = Some i" "t = take i p" "r = drop i p"
    by (auto simp: take_until_char_def split: option.splits)
  moreover have "drop i p = c # drop (Suc i) p"
    using position_Some [OF i(1)] Cons_nth_drop_Suc by metis
  ultimately show "\<exists>r'. r = c # r' \<and> p = t @ c # r' \<and> c \<notin> set t"
    using position_split [OF i(1)] by simp
qed (auto simp: take_until_char_def position_append)

lemma take_until_char_not_Panic [simp]: "take_until_char c p \<noteq> Panic"
  by (simp add: take_until_char_def split: option.splits)

lemma rfind_hash:
  assumes "CHR ''#'' \<notin> set cs"
  shows "rfind (payload @ ''#'' @ cs) (CHR ''#'') = Some (length payload)"
  using position_append [of "CHR ''#''" "rev cs" "rev payload"] assms by (simp add: rfind_def)

subsection \<open>Decimal segments\<close>

lemma decimal_value_snoc: "decimal_value (s @ [c]) = 10 * decimal_value s + (of_char c - 48)"
  by (simp add: decimal_value_def)

lemma digit_inject:
  assumes "is_ascii_digit c" and "is_ascii_digit d" and "(of_char c - 48 :: nat) = of_char d - 48"
  shows "c = d"
proof -
  have "(of_char c :: nat) = of_char d" using assms unfolding is_ascii_digit_def by linarith
  then show ?thesis by simp
qed

lemma decimal_pos:
  "list_all is_ascii_digit s \<Longrightarrow> s \<noteq> [] \<Longrightarrow> s ! 0 \<noteq> CHR ''0'' \<Longrightarrow> 0 < decimal_value s"
proof (induction s rule: rev_induct)
  case (snoc c s)
  show ?case
  proof (cases "s = []")
    case True
    have "c \<noteq> CHR ''0''" "is_ascii_digit c" using snoc.prems True by simp_all
    then have "(of_char c - 48 :: nat) \<noteq> 0"
      using digit_inject [of c "CHR ''0''"] by (auto simp: is_ascii_digit_def)
    then show ?thesis using True by (simp add: decimal_value_def)
  next
    case False
    then show ?thesis using snoc by (simp add: decimal_value_snoc nth_append)
  qed
qed simp

lemma base10_inject: "10 * a + c = 10 * b + d \<Longrightarrow> c < 10 \<Longrightarrow> d < 10 \<Longrightarrow> a = b \<and> c = (d :: nat)"
  by presburger

lemma canonical_butlast:
  assumes "canonical_decimal (s @ [c])"
  shows "is_ascii_digit c" and "s = [] \<or> canonical_decimal s \<and> 0 < decimal_value s"
proof -
  show "is_ascii_digit c" using assms by (simp add: canonical_decimal_def)
  show "s = [] \<or> canonical_decimal s \<and> 0 < decimal_value s"
  proof (cases s)
    case (Cons x xs)
    then have "list_all is_ascii_digit s" "s ! 0 \<noteq> CHR ''0''"
      using assms by (simp_all add: canonical_decimal_def)
    then show ?thesis using decimal_pos [of s] Cons by (simp add: canonical_decimal_def)
  qed simp
qed

lemma decimal_value_Nil: "decimal_value [] = 0"
  by (simp add: decimal_value_def)

lemma decimal_inject:
  "canonical_decimal s \<Longrightarrow> canonical_decimal t \<Longrightarrow> decimal_value s = decimal_value t \<Longrightarrow> s = t"
proof (induction s arbitrary: t rule: rev_induct)
  case (snoc c s)
  have "t \<noteq> []" using snoc.prems(2) by (simp add: canonical_decimal_def)
  then obtain d u where t: "t = u @ [d]" using rev_exhaust by blast
  note cs = canonical_butlast [OF snoc.prems(1)]
    and cu = canonical_butlast [OF snoc.prems(2) [unfolded t]]
  have eq: "10 * decimal_value s + (of_char c - 48) = 10 * decimal_value u + (of_char d - 48 :: nat)"
    using snoc.prems(3) unfolding t by (simp only: decimal_value_snoc)
  have lt: "(of_char c - 48 :: nat) < 10" "(of_char d - 48 :: nat) < 10"
    using cs(1) cu(1) unfolding is_ascii_digit_def by linarith+
  from base10_inject [OF eq lt]
  have v: "decimal_value s = decimal_value u" and dig: "(of_char c - 48 :: nat) = of_char d - 48"
    by simp_all
  have "s = u"
    using cs(2) cu(2) v snoc.IH [of u] decimal_value_Nil by auto
  then show ?case using t digit_inject [OF cs(1) cu(1) dig] by simp
qed (simp add: canonical_decimal_def)

subsection \<open>Origin paths\<close>

lemma parse_uint_digits:
  assumes "list_all is_ascii_digit s"
  shows "parse_uint b s = (if s \<noteq> [] \<and> decimal_value s < b then Some (decimal_value s) else None)"
proof -
  have "\<not> is_ascii_digit (CHR ''+'')" by (simp add: is_ascii_digit_def)
  then show ?thesis using assms by (cases s) (auto simp: parse_uint_def)
qed

lemma origin_segment_Ok:
  "origin_segment path part = Ok n \<longleftrightarrow>
     (\<exists>num m. part = num @ [m] \<and> m \<in> hardened_markers \<and> canonical_decimal num
        \<and> decimal_value num < 0x80000000 \<and> n = of_nat (decimal_value num))"
proof
  assume ok: "origin_segment path part = Ok n"
  then have "part \<noteq> []" by (auto simp: origin_segment_def)
  then have "part = butlast part @ [last part]" by simp
  moreover have "last part \<in> hardened_markers" "canonical_decimal (butlast part)"
      "decimal_value (butlast part) < 0x80000000" "n = of_nat (decimal_value (butlast part))"
    using ok by (auto simp: origin_segment_def Let_def hardened_markers_def canonical_decimal_def
        parse_uint_digits split: if_splits option.splits)
  ultimately show "\<exists>num m. part = num @ [m] \<and> m \<in> hardened_markers \<and> canonical_decimal num
        \<and> decimal_value num < 0x80000000 \<and> n = of_nat (decimal_value num)" by blast
next
  assume "\<exists>num m. part = num @ [m] \<and> m \<in> hardened_markers \<and> canonical_decimal num
        \<and> decimal_value num < 0x80000000 \<and> n = of_nat (decimal_value num)"
  then show "origin_segment path part = Ok n"
    by (auto simp: origin_segment_def Let_def hardened_markers_def canonical_decimal_def parse_uint_digits)
qed

lemma origin_segment_not_Panic [simp]: "origin_segment path part \<noteq> Panic"
  by (auto simp: origin_segment_def Let_def split: option.splits)

text \<open>A segment that denotes a known index is the decimal of that index and a marker.\<close>

lemma origin_segment_known:
  assumes "canonical_decimal num" and "decimal_value num < 0x80000000"
  shows "origin_segment path part = Ok (of_nat (decimal_value num)) \<longleftrightarrow>
     (\<exists>m\<in>hardened_markers. part = num @ [m])"
proof -
  have inj: "(of_nat a :: u32) = of_nat b \<longleftrightarrow> a = b" if "a < 0x80000000" "b < 0x80000000" for a b
    using that by (simp add: word_unat_eq_iff unsigned_of_nat take_bit_nat_eq_self)
  show ?thesis
    unfolding origin_segment_Ok using assms decimal_inject by (auto simp: inj)
qed

lemma small_decimals:
  "canonical_decimal ''48'' \<and> decimal_value ''48'' = 48" "canonical_decimal ''0'' \<and> decimal_value ''0'' = 0"
  "canonical_decimal ''1'' \<and> decimal_value ''1'' = 1" "canonical_decimal ''2'' \<and> decimal_value ''2'' = 2"
  by (simp_all add: canonical_decimal_def is_ascii_digit_def decimal_value_def)

lemma origin_segment_48: "origin_segment path part = Ok 48 \<longleftrightarrow> (\<exists>m\<in>hardened_markers. part = ''48'' @ [m])"
  and origin_segment_0: "origin_segment path part = Ok 0 \<longleftrightarrow> (\<exists>m\<in>hardened_markers. part = ''0'' @ [m])"
  and origin_segment_1: "origin_segment path part = Ok 1 \<longleftrightarrow> (\<exists>m\<in>hardened_markers. part = ''1'' @ [m])"
  and origin_segment_2: "origin_segment path part = Ok 2 \<longleftrightarrow> (\<exists>m\<in>hardened_markers. part = ''2'' @ [m])"
  using small_decimals origin_segment_known [of "''48''"] origin_segment_known [of "''0''"]
    origin_segment_known [of "''1''"] origin_segment_known [of "''2''"] by simp_all

lemma split_on_join:
  "split_on c s = [a] \<Longrightarrow> s = a \<and> c \<notin> set a"
  "split_on c s = a # b # rest \<Longrightarrow> \<exists>t. s = a @ c # t \<and> c \<notin> set a \<and> split_on c t = b # rest"
proof (induction s arbitrary: a)
  case (Cons x s)
  {
    case 1
    then show ?case using Cons.IH(1) by (auto split: if_splits list.splits)
  next
    case 2
    then show ?case
    proof (cases "x = c")
      case True
      then show ?thesis using 2 by auto
    next
      case False
      then obtain a' where a: "a = x # a'" "split_on c s = a' # b # rest"
        using 2 by (auto split: list.splits)
      then show ?thesis using Cons.IH(2) [OF a(2)] False by auto
    qed
  }
qed auto

lemma split_on_four:
  "split_on c s = [s1, s2, s3, s4] \<longleftrightarrow>
     s = s1 @ c # s2 @ c # s3 @ c # s4 \<and> c \<notin> set s1 \<and> c \<notin> set s2 \<and> c \<notin> set s3 \<and> c \<notin> set s4"
  by (auto simp: split_on_append split_on_no_sep dest!: split_on_join)

lemma word_le_1: "(n :: u32) \<le> 1 \<longleftrightarrow> n = 0 \<or> n = 1"
  by (auto simp: word_le_nat_alt word_unat_eq_iff)

lemma origin_loop:
  "for_in (\<lambda>i part indices. res_bind (origin_segment path part) (\<lambda>n. Ok (indices[i := n])))
     0 [s1, s2, s3, s4] [0, 0, 0, 0] = Ok indices \<longleftrightarrow>
   (\<exists>n1 n2 n3 n4. origin_segment path s1 = Ok n1 \<and> origin_segment path s2 = Ok n2
      \<and> origin_segment path s3 = Ok n3 \<and> origin_segment path s4 = Ok n4 \<and> indices = [n1, n2, n3, n4])"
  by (auto simp: res_simps)

lemma length_4_iff: "length xs = 4 \<longleftrightarrow> (\<exists>a b c d. xs = [a, b, c, d])"
  using length_4_cases by auto

lemma validate_origin_path_Ok:
  "validate_origin_path path = Ok () \<longleftrightarrow>
     set path \<inter> set ''<;*'' = {} \<and>
     (\<exists>s1 s2 s3 s4.
        split_on (CHR ''/'') (case strip_prefix ''m/'' path of Some r \<Rightarrow> r | None \<Rightarrow> path) = [s1, s2, s3, s4]
        \<and> origin_segment path s1 = Ok 48 \<and> (origin_segment path s2 = Ok 0 \<or> origin_segment path s2 = Ok 1)
        \<and> origin_segment path s3 = Ok 0 \<and> origin_segment path s4 = Ok 2)"
proof -
  have ex: "list_ex (\<lambda>b. b = CHR ''<'' \<or> b = CHR '';'' \<or> b = CHR ''*'') path \<longleftrightarrow> set path \<inter> set ''<;*'' \<noteq> {}"
    by (auto simp: list_ex_iff)
  show ?thesis
    unfolding validate_origin_path_def Let_def ex
    by (auto simp: length_4_iff res_bind_eq_Ok origin_loop word_le_1 split: if_splits) 
qed

lemma strip_m: "(case strip_prefix ''m/'' path of Some r \<Rightarrow> r | None \<Rightarrow> path) = t \<longleftrightarrow>
    path = ''m/'' @ t \<or> path = t \<and> \<not> starts_with path ''m/''"
proof (cases "strip_prefix ''m/'' path")
  case None
  then have "\<not> starts_with path ''m/''" by (simp add: strip_prefix_def starts_with_def split: if_splits)
  then show ?thesis using None by (auto simp: starts_with_iff)
next
  case (Some r)
  then have "path = ''m/'' @ r" by (simp add: strip_prefix_Some)
  then show ?thesis using Some by (auto simp: starts_with_iff)
qed

lemma validate_origin_path_iff: "validate_origin_path path = Ok () \<longleftrightarrow> origin_grammar path"
proof
  assume "validate_origin_path path = Ok ()"
  then obtain s1 s2 s3 s4 where
    sp: "split_on (CHR ''/'') (case strip_prefix ''m/'' path of Some r \<Rightarrow> r | None \<Rightarrow> path) = [s1, s2, s3, s4]"
    and seg: "origin_segment path s1 = Ok 48" "origin_segment path s2 = Ok 0 \<or> origin_segment path s2 = Ok 1"
      "origin_segment path s3 = Ok 0" "origin_segment path s4 = Ok 2"
    by (auto simp: validate_origin_path_Ok)
  obtain pre where pre: "pre \<in> {'''', ''m/''}"
      "path = pre @ s1 @ CHR ''/'' # s2 @ CHR ''/'' # s3 @ CHR ''/'' # s4"
    using sp [unfolded split_on_four] strip_m [of path] by blast
  obtain coin m2 where "coin \<in> {''0'', ''1''}" "m2 \<in> hardened_markers" "s2 = coin @ [m2]"
    using seg(2) by (auto simp: origin_segment_0 origin_segment_1)
  then show "origin_grammar path"
    using pre seg(1,3,4) unfolding origin_grammar_def origin_segment_48 origin_segment_0 origin_segment_2
    by fastforce
next
  assume "origin_grammar path"
  then obtain pre coin m1 m2 m3 m4 where g: "pre \<in> {'''', ''m/''}" "coin \<in> {''0'', ''1''}"
      "m1 \<in> hardened_markers" "m2 \<in> hardened_markers" "m3 \<in> hardened_markers" "m4 \<in> hardened_markers"
      "path = pre @ ''48'' @ [m1] @ ''/'' @ coin @ [m2] @ ''/0'' @ [m3] @ ''/2'' @ [m4]"
    unfolding origin_grammar_def by blast
  let ?t = "(''48'' @ [m1]) @ CHR ''/'' # (coin @ [m2]) @ CHR ''/'' # (''0'' @ [m3]) @ CHR ''/'' # (''2'' @ [m4])"
  have m: "m \<noteq> CHR ''/'' \<and> m \<noteq> CHR ''<'' \<and> m \<noteq> CHR '';'' \<and> m \<noteq> CHR ''*''" if "m \<in> hardened_markers" for m
    using that by (auto simp: hardened_markers_def)
  have "(case strip_prefix ''m/'' path of Some r \<Rightarrow> r | None \<Rightarrow> path) = ?t"
    using g(1,7) unfolding strip_m by (auto simp: starts_with_iff)
  moreover have "split_on (CHR ''/'') ?t = [''48'' @ [m1], coin @ [m2], ''0'' @ [m3], ''2'' @ [m4]]"
    unfolding split_on_four using m [OF g(3)] m [OF g(4)] m [OF g(5)] m [OF g(6)] g(2) by auto
  moreover have "set path \<inter> set ''<;*'' = {}"
    using m [OF g(3)] m [OF g(4)] m [OF g(5)] m [OF g(6)] g(1,2,7) by auto
  ultimately show "validate_origin_path path = Ok ()"
    unfolding validate_origin_path_Ok using g(2-6)
    by (auto simp: origin_segment_48 origin_segment_0 origin_segment_1 origin_segment_2)
qed

lemma validate_origin_path_not_Panic [simp]: "validate_origin_path path \<noteq> Panic"
proof -
  have "for_in (\<lambda>i part indices. res_bind (origin_segment path part) (\<lambda>n. Ok (indices[i := n]))) k segs ix \<noteq> Panic"
    for k segs and ix :: "u32 list"
    by (rule for_in_not_Panic) (simp add: res_bind_eq_Panic)
  then show ?thesis by (simp add: validate_origin_path_def Let_def res_bind_eq_Panic)
qed

subsection \<open>Key expressions\<close>

lemma takeWhile_split:
  "takeWhile P xs = a \<and> dropWhile P xs = b \<longleftrightarrow> xs = a @ b \<and> (\<forall>x\<in>set a. P x) \<and> (b = [] \<or> \<not> P (hd b))"
proof
  assume "takeWhile P xs = a \<and> dropWhile P xs = b"
  then show "xs = a @ b \<and> (\<forall>x\<in>set a. P x) \<and> (b = [] \<or> \<not> P (hd b))"
    using takeWhile_dropWhile_id [of P xs] set_takeWhileD [of _ P xs] hd_dropWhile [of P xs] by auto
next
  assume r: "xs = a @ b \<and> (\<forall>x\<in>set a. P x) \<and> (b = [] \<or> \<not> P (hd b))"
  then have "takeWhile P b = []" "dropWhile P b = b" by (cases b; simp)+
  then show "takeWhile P xs = a \<and> dropWhile P xs = b" using r by simp
qed

lemma take_while_Ok:
  "take_while P p = Ok (t, r) \<longleftrightarrow> p = t @ r \<and> (\<forall>x\<in>set t. P x) \<and> (r = [] \<or> \<not> P (hd r))"
  using takeWhile_split [of P p t r] by (simp add: take_while_def)

lemma hex_chunks_chars: "hex_chunks bs = Ok out \<Longrightarrow> b \<in> set bs \<Longrightarrow> hex_nibble b \<noteq> None"
  by (induction bs arbitrary: out rule: hex_chunks.induct) (auto simp: res_simps)

lemma fp_from_hex_chars:
  assumes "fp_from_hex s = Ok f"
  shows "length s = 8" and "CHR ''/'' \<notin> set s" and "CHR '']'' \<notin> set s"
proof -
  obtain out where "length s = 8" and out: "hex_chunks (as_bytes s) = Ok out"
    using assms by (auto simp: fp_from_hex_def res_simps split: if_splits)
  then show "length s = 8" by simp
  have "hex_nibble (of_char c) \<noteq> None" if "c \<in> set s" for c
    using hex_chunks_chars [OF out] that by (auto simp: as_bytes_def)
  moreover have "hex_nibble (of_char (CHR ''/'')) = None" "hex_nibble (of_char (CHR '']'')) = None"
    by (simp_all add: hex_nibble_def)
  ultimately show "CHR ''/'' \<notin> set s" "CHR '']'' \<notin> set s" by metis+
qed

lemma branch_suffix_facts [simp]:
  "length (branch_suffix b) = 4" "CHR '','' \<notin> set (branch_suffix b)" "CHR '')'' \<notin> set (branch_suffix b)"
  by (simp_all add: branch_suffix_def split: derivation_branch.splits)

lemma split_xpub_Ok:
  "split_xpub_and_derivation rest = Ok (x, b, n) \<longleftrightarrow>
     x \<noteq> [] \<and> n = length x + 4 \<and> takeWhile (\<lambda>c. \<not> (c = CHR '','' \<or> c = CHR '')'')) rest = x @ branch_suffix b"
  (is "_ \<longleftrightarrow> _ \<and> _ \<and> ?tok = _")
proof
  assume ok: "split_xpub_and_derivation rest = Ok (x, b, n)"
  then have "ends_with ?tok (branch_suffix b)" "x = take (length ?tok - 4) ?tok" "x \<noteq> []" "n = length ?tok"
      "4 \<le> length ?tok"
    by (auto simp: split_xpub_and_derivation_def Let_def branch_suffix_def res_bind_eq_Ok split: if_splits)
  then show "x \<noteq> [] \<and> n = length x + 4 \<and> ?tok = x @ branch_suffix b"
    by (auto simp: ends_with_iff)
next
  assume r: "x \<noteq> [] \<and> n = length x + 4 \<and> ?tok = x @ branch_suffix b"
  have e: "ends_with (x @ branch_suffix b) ''/0/*'' \<longleftrightarrow> b = BranchExternal"
      "ends_with (x @ branch_suffix b) ''/1/*'' \<longleftrightarrow> b = BranchInternal"
    by (auto simp: ends_with_def branch_suffix_def split: derivation_branch.splits)
  then show "split_xpub_and_derivation rest = Ok (x, b, n)"
    using r by (cases b) (simp_all add: split_xpub_and_derivation_def Let_def)
qed

lemma split_xpub_not_Panic [simp]: "split_xpub_and_derivation rest \<noteq> Panic"
  by (simp add: split_xpub_and_derivation_def Let_def res_bind_eq_Panic)

lemma parse_keyexpr_steps:
  "parse_keyexpr pr p = Ok (k, r) \<longleftrightarrow>
     (\<exists>fp rest n. p = ''['' @ fp @ ''/'' @ ke_origin_path k @ '']'' @ rest
        \<and> fp_from_hex fp = Ok (ke_fingerprint k)
        \<and> set (ke_origin_path k) \<inter> set ''],)'' = {} \<and> origin_grammar (ke_origin_path k)
        \<and> split_xpub_and_derivation rest = Ok (ke_xpub k, ke_derivation k, n) \<and> r = drop n rest
        \<and> (starts_with (ke_xpub k) ''xpub'' \<or> starts_with (ke_xpub k) ''tpub'')
        \<and> set (ke_xpub k) \<inter> set ''<;*'' = {} \<and> xpub_from_str pr (ke_xpub k) \<noteq> None)"
  (is "_ \<longleftrightarrow> ?R")
proof
  assume ok: "parse_keyexpr pr p = Ok (k, r)"
  obtain p1 where p: "p = CHR ''['' # p1"
    using ok by (auto simp: parse_keyexpr_def expect_char_Ok split: res.splits)
  define fp where "fp = takeWhile (\<lambda>c. c \<noteq> CHR ''/'' \<and> c \<noteq> CHR '']'') p1"
  define p2 where "p2 = dropWhile (\<lambda>c. c \<noteq> CHR ''/'' \<and> c \<noteq> CHR '']'') p1"
  define og where "og = takeWhile (\<lambda>c. c \<noteq> CHR '']'' \<and> c \<noteq> CHR '','' \<and> c \<noteq> CHR '')'') (drop (Suc 0) p2)"
  define p3 where "p3 = dropWhile (\<lambda>c. c \<noteq> CHR '']'' \<and> c \<noteq> CHR '','' \<and> c \<noteq> CHR '')'') (drop (Suc 0) p2)"
  have e: "expect_char (CHR ''['') p = Ok p1" using p by (simp add: expect_char_Ok)
  obtain f x b n where r: "fp_from_hex fp = Ok f" "starts_with p2 ''/''" "starts_with p3 '']''"
      "validate_origin_path og = Ok ()" "split_xpub_and_derivation (drop (Suc 0) p3) = Ok (x, b, n)"
      "starts_with x ''xpub'' \<or> starts_with x ''tpub''"
      "\<not> list_ex (\<lambda>b. b = CHR ''<'' \<or> b = CHR '';'' \<or> b = CHR ''*'') x" "xpub_from_str pr x \<noteq> None"
      "k = \<lparr>ke_fingerprint = f, ke_origin_path = og, ke_xpub = x, ke_derivation = b\<rparr>" "r = drop n (drop (Suc 0) p3)"
    using ok e unfolding parse_keyexpr_def
    by (auto simp: take_while_def res_bind_eq_Ok res_map_err_eq_Ok Let_def simp flip: fp_def p2_def og_def p3_def
        split: if_splits)
  have "p1 = fp @ p2" by (simp add: fp_def p2_def)
  moreover have "p2 = ''/'' @ drop (Suc 0) p2" using r(2) by (auto simp: starts_with_iff)
  moreover have "drop (Suc 0) p2 = og @ p3" by (simp add: og_def p3_def)
  moreover have "p3 = '']'' @ drop (Suc 0) p3" using r(3) by (auto simp: starts_with_iff)
  ultimately have "p = ''['' @ fp @ ''/'' @ og @ '']'' @ drop (Suc 0) p3" using p by (metis append_Cons append_Nil)
  moreover have "set og \<inter> set ''],)'' = {}" unfolding og_def by (auto dest: set_takeWhileD)
  moreover have "set x \<inter> set ''<;*'' = {}" using r(7) by (auto simp: list_ex_iff)
  ultimately show ?R
    using r by (intro exI [of _ fp] exI [of _ "drop (Suc 0) p3"] exI [of _ n]) (simp add: validate_origin_path_iff)
next
  assume ?R
  then obtain fp rest n where r: "p = ''['' @ fp @ ''/'' @ ke_origin_path k @ '']'' @ rest"
      "fp_from_hex fp = Ok (ke_fingerprint k)"
      "set (ke_origin_path k) \<inter> set ''],)'' = {}" "origin_grammar (ke_origin_path k)"
      "split_xpub_and_derivation rest = Ok (ke_xpub k, ke_derivation k, n)" "r = drop n rest"
      "starts_with (ke_xpub k) ''xpub'' \<or> starts_with (ke_xpub k) ''tpub''"
      "set (ke_xpub k) \<inter> set ''<;*'' = {}" "xpub_from_str pr (ke_xpub k) \<noteq> None"
    by blast
  have fp: "take_while (\<lambda>c. c \<noteq> CHR ''/'' \<and> c \<noteq> CHR '']'') (fp @ CHR ''/'' # ke_origin_path k @ CHR '']'' # rest)
      = Ok (fp, CHR ''/'' # ke_origin_path k @ CHR '']'' # rest)"
    unfolding take_while_Ok using fp_from_hex_chars [OF r(2)] by auto
  have og: "take_while (\<lambda>c. c \<noteq> CHR '']'' \<and> c \<noteq> CHR '','' \<and> c \<noteq> CHR '')'') (ke_origin_path k @ CHR '']'' # rest)
      = Ok (ke_origin_path k, CHR '']'' # rest)"
    unfolding take_while_Ok using r(3) by auto
  have "ke_origin_path k \<noteq> []" using r(4) by (auto simp: origin_grammar_def)
  moreover have "\<not> (starts_with (ke_xpub k) ''xprv'' \<or> starts_with (ke_xpub k) ''tprv'')"
    using r(7) by (auto simp: starts_with_iff)
  moreover have "\<not> list_ex (\<lambda>b. b = CHR ''<'' \<or> b = CHR '';'' \<or> b = CHR ''*'') (ke_xpub k)"
    using r(8) by (auto simp: list_ex_iff)
  moreover have "expect_char (CHR ''['') p = Ok (fp @ CHR ''/'' # ke_origin_path k @ CHR '']'' # rest)"
    using r(1) by (simp add: expect_char_Ok)
  moreover have "validate_origin_path (ke_origin_path k) = Ok ()" using r(4) by (simp add: validate_origin_path_iff)
  ultimately show "parse_keyexpr pr p = Ok (k, r)"
    using r(2,5,6,7,9) fp_from_hex_chars(1) [OF r(2)]
    by (simp add: parse_keyexpr_def fp og starts_with_def)
qed

lemma origin_grammar_chars: "origin_grammar path \<Longrightarrow> set path \<inter> set ''],)'' = {}"
  by (auto simp: origin_grammar_def hardened_markers_def)

lemma xpub_token:
  "(\<exists>n. split_xpub_and_derivation rest = Ok (x, b, n) \<and> r = drop n rest) \<and> set x \<inter> set ''<;*'' = {} \<longleftrightarrow>
     x \<noteq> [] \<and> rest = x @ branch_suffix b @ r \<and> set x \<inter> set ''<;*,)'' = {}
     \<and> (r = [] \<or> hd r = CHR '','' \<or> hd r = CHR '')'')"
  (is "?L \<longleftrightarrow> ?R")
proof -
  let ?P = "\<lambda>c. \<not> (c = CHR '','' \<or> c = CHR '')'')"
  have tok: "takeWhile ?P rest = x @ branch_suffix b \<and> r = drop (length x + 4) rest \<longleftrightarrow>
      takeWhile ?P rest = x @ branch_suffix b \<and> dropWhile ?P rest = r"
    by (auto simp: dropWhile_eq_drop)
  have "?L \<longleftrightarrow> x \<noteq> [] \<and> (takeWhile ?P rest = x @ branch_suffix b \<and> dropWhile ?P rest = r)
      \<and> set x \<inter> set ''<;*'' = {}"
    unfolding split_xpub_Ok tok [symmetric] by blast
  also have "\<dots> \<longleftrightarrow> ?R"
    unfolding takeWhile_split by auto
  finally show ?thesis .
qed

lemma parse_keyexpr_Ok:
  "parse_keyexpr pr p = Ok (k, r) \<longleftrightarrow>
     (\<exists>text. key_grammar pr k text \<and> p = text @ r) \<and> (r = [] \<or> hd r = CHR '','' \<or> hd r = CHR '')'')"
proof -
  have ne: "x \<noteq> []" if "starts_with x ''xpub'' \<or> starts_with x ''tpub''" for x
    using that by (auto simp: starts_with_iff)
  have "parse_keyexpr pr p = Ok (k, r) \<longleftrightarrow>
      (\<exists>fp rest. p = ''['' @ fp @ ''/'' @ ke_origin_path k @ '']'' @ rest \<and> fp_from_hex fp = Ok (ke_fingerprint k)
        \<and> origin_grammar (ke_origin_path k)
        \<and> ((\<exists>n. split_xpub_and_derivation rest = Ok (ke_xpub k, ke_derivation k, n) \<and> r = drop n rest)
            \<and> set (ke_xpub k) \<inter> set ''<;*'' = {})
        \<and> (starts_with (ke_xpub k) ''xpub'' \<or> starts_with (ke_xpub k) ''tpub'')
        \<and> xpub_from_str pr (ke_xpub k) \<noteq> None)"
    unfolding parse_keyexpr_steps using origin_grammar_chars by blast
  also have "\<dots> \<longleftrightarrow> (\<exists>text. key_grammar pr k text \<and> p = text @ r)
      \<and> (r = [] \<or> hd r = CHR '','' \<or> hd r = CHR '')'')"
    unfolding xpub_token key_grammar_def xpub_grammar_def using ne by auto
  finally show ?thesis .
qed

lemma parse_keyexpr_not_Panic [simp]: "parse_keyexpr pr p \<noteq> Panic"
  using fp_from_hex_not_Panic
  by (simp add: parse_keyexpr_def take_while_def res_bind_eq_Panic res_map_err_eq_Panic Let_def
      split: res.splits)

subsection \<open>Descriptors\<close>

lemma verify_checksum_not_Panic: "verify_checksum s \<noteq> Panic"
proof -
  have "for_in (\<lambda>_ c symbols. res_bind (expect (position CHECKSUM_CHARSET c)) (\<lambda>idx.
      Ok (symbols @ [of_nat idx]))) 0 cs (syms :: u64 list) \<noteq> (Panic :: (u64 list, parse_error) res)"
    if "\<not> list_ex (\<lambda>c. c \<notin> set CHECKSUM_CHARSET) cs" for cs syms
  proof -
    have "list_all (\<lambda>c. c \<in> set CHECKSUM_CHARSET) cs"
      using that by (simp add: list_ex_iff list_all_iff)
    then show ?thesis by (simp add: checksum_loop)
  qed
  then show ?thesis
    by (simp add: verify_checksum_def Let_def res_bind_eq_Panic expand_eq)
qed

lemma verify_checksum_body:
  assumes "verify_checksum s = Ok ()"
  shows "rfind s (CHR ''#'') = Some (length s - 9)" and "s ! (length s - 9) = CHR ''#''"
proof -
  obtain payload cs where s: "s = payload @ ''#'' @ cs" "length cs = 8"
    using assms by (rule verify_checksum_form)
  have "list_all (\<lambda>c. c \<in> set CHECKSUM_CHARSET) cs"
    using assms s verify_checksum_split by simp
  moreover have "CHR ''#'' \<notin> set CHECKSUM_CHARSET" by (simp add: CHECKSUM_CHARSET_def)
  ultimately have "CHR ''#'' \<notin> set cs" by (auto simp: list_all_iff)
  then show "rfind s (CHR ''#'') = Some (length s - 9)" using s rfind_hash by simp
  show "s ! (length s - 9) = CHR ''#''" using s by (simp add: nth_append)
qed

lemma key_grammar_starts: "key_grammar pr k text \<Longrightarrow> \<exists>t. text = CHR ''['' # t"
  by (auto simp: key_grammar_def)

lemma parse_steps:
  assumes "verify_checksum s = Ok ()"
  shows "parse pr s = Ok d \<longleftrightarrow>
      (\<exists>p k0 k1 k2 r0 r1. take (length s - 9) s = ''wsh(sortedmulti(2,'' @ p
        \<and> parse_keyexpr pr p = Ok (k0, '','' @ r0) \<and> parse_keyexpr pr r0 = Ok (k1, '','' @ r1)
        \<and> parse_keyexpr pr r1 = Ok (k2, ''))'') \<and> d = \<lparr>pd_k = 2, pd_keys = [k0, k1, k2]\<rparr>)"
  (is "_ \<longleftrightarrow> ?R")
proof
  assume ok: "parse pr s = Ok d"
  let ?body = "take (length s - 9) s"
  have "starts_with ?body ''wsh(''" "starts_with (drop 4 ?body) ''sortedmulti(''"
    using ok verify_checksum_body [OF assms] assms
    by (auto simp: parse_def Let_def res_bind_eq_Ok split: if_splits)
  then obtain p where p: "?body = ''wsh(sortedmulti('' @ p" by (auto simp: starts_with_iff)
  then show ?R
    using ok verify_checksum_body [OF assms] assms
    by (auto simp: parse_def Let_def res_bind_eq_Ok starts_with_def expect_char_Ok take_until_char_Ok
        split: if_splits)
next
  assume ?R
  then show "parse pr s = Ok d"
    using verify_checksum_body [OF assms] assms
    by (auto simp: parse_def Let_def starts_with_def expect_char_def take_until_char_def
        simp del: take_take)
qed

lemma parse_body:
  "parse pr s = Ok d \<longleftrightarrow> verify_checksum s = Ok () \<and> descriptor_grammar pr d (take (length s - 9) s)"
proof (cases "verify_checksum s = Ok ()")
  case True
  show ?thesis
    unfolding parse_steps [OF True] descriptor_grammar_def parse_keyexpr_Ok
    using True by simp blast
qed (simp add: parse_def res_bind_eq_Ok)

lemma parse_not_Panic: "parse pr s \<noteq> Panic"
proof
  assume "parse pr s = Panic"
  then have "verify_checksum s = Ok ()" "rfind s (CHR ''#'') = None"
    using verify_checksum_not_Panic [of s]
    by (auto simp: parse_def res_bind_eq_Panic Let_def split: if_splits option.splits)
  then show False using verify_checksum_body by simp
qed

lemma parse_keys:
  assumes "parse pr s = Ok d"
  obtains k0 k1 k2 where "pd_keys d = [k0, k1, k2]" and "pd_k d = 2"
    and "\<forall>k\<in>{k0, k1, k2}. origin_grammar (ke_origin_path k) \<and> xpub_grammar pr (ke_xpub k)"
  using assms by (auto simp: parse_body descriptor_grammar_def key_grammar_def)

section \<open>Properties\<close>

text \<open>
  C18: the descriptor parser is total (it returns a descriptor or an error, and never panics)
  and accepts exactly the strings of the grammar: a valid checksum behind
  wsh(sortedmulti(2,K,K,K)) with three key expressions, each with an 8-digit hexadecimal
  fingerprint, one of the BIP-48 origin paths, a decodable public extended key and a
  receive or change suffix. The result holds exactly the parts of that string.
\<close>

theorem parse_iff_grammar:
  "parse pr s \<noteq> Panic \<and>
   (parse pr s = Ok d \<longleftrightarrow>
      (\<exists>body cs. s = body @ ''#'' @ cs \<and> length cs = 8 \<and> verify_checksum s = Ok ()
         \<and> descriptor_grammar pr d body))"
proof -
  have "take (length s - 9) s = body" if "s = body @ ''#'' @ cs" "length cs = 8" for body cs
    using that by simp
  moreover have "\<exists>body cs. s = body @ ''#'' @ cs \<and> length cs = 8" if "verify_checksum s = Ok ()"
    using verify_checksum_form [OF that] by blast
  ultimately show ?thesis
    unfolding parse_body using parse_not_Panic by metis
qed

lemma parse_length: "parse pr s = Ok d \<Longrightarrow> length (pd_keys d) = 3"
  by (erule parse_keys) simp

end
