(* ===== verification/Verify_Derive.thy ===== *)
theory Verify_Derive
  imports Verify_Parse "HOL-Library.Multiset"
begin

text \<open>
  \<open>crates/trinity-verify/src/ckd.rs\<close>, \<open>bip67.rs\<close>, \<open>witness.rs\<close>, \<open>derive.rs\<close>: the verifier's own
  BIP-32 public derivation, BIP-67 sorting and script construction. HMAC-SHA512, SHA-256
  and the curve operations are fields of the parameter record; a compressed key or a chain
  code is its byte string.

  The lemmas show that the keys of a derived output are a sorted permutation of the three
  children, that the script is fixed by the set of keys and not by their order in the
  descriptor, that the witness script determines the keys, and that a hardened index is
  always refused.
\<close>

unbundle bit_operations_syntax

subsection \<open>Child keys\<close>

definition MAX_NON_HARDENED_INDEX :: u32 where "MAX_NON_HARDENED_INDEX = 0x7fffffff"
definition HARDENED_BIT :: u32 where "HARDENED_BIT = 0x80000000"

record child_key =
  ck_chain_code :: bytes
  ck_public_key :: bytes

definition parse_il :: "prims \<Rightarrow> bytes \<Rightarrow> (bytes, derive_error) res" where
  "parse_il pr il = (if seckey_valid pr il then Ok il else Err DE_InvalidTweak)"

definition tweak_add_parent :: "prims \<Rightarrow> secp_key \<Rightarrow> bytes \<Rightarrow> (secp_key, derive_error) res" where
  "tweak_add_parent pr parent il = ok_or (add_exp_tweak pr parent il) DE_InvalidTweak"

definition ckd_pub :: "prims \<Rightarrow> bytes \<Rightarrow> bytes \<Rightarrow> u32 \<Rightarrow> (child_key, derive_error) res" where
  "ckd_pub pr parent_chain_code parent_pubkey index =
     (if index AND HARDENED_BIT \<noteq> 0 then Err (DE_HardenedIndex index)
      else if \<not> pubkey_valid pr parent_pubkey then Err DE_InvalidPublicKey
      else
        let i = hmac_sha512 pr parent_chain_code (parent_pubkey @ u32_to_be index)
        in res_bind (parse_il pr (take 32 i)) (\<lambda>il.
           res_bind (tweak_add_parent pr parent_pubkey il) (\<lambda>child_pk.
           Ok \<lparr>ck_chain_code = drop 32 i, ck_public_key = child_pk\<rparr>)))"

subsection \<open>Sorting and scripts\<close>

definition sort_pubkeys :: "bytes list \<Rightarrow> bytes list" where
  "sort_pubkeys ks = sort ks"

definition sort_three :: "bytes list \<Rightarrow> bytes list" where
  "sort_three ks = sort_pubkeys ks"

text \<open>\<open>Builder::push_int\<close> on 1 to 16 and \<open>Builder::push_slice\<close> below 76 bytes.\<close>

definition push_int :: "u32 \<Rightarrow> bytes" where
  "push_int k = [0x50 + ucast k]"

definition push_slice :: "bytes \<Rightarrow> bytes" where
  "push_slice bs = of_nat (length bs) # bs"

definition OP_CHECKMULTISIG :: u8 where "OP_CHECKMULTISIG = 0xae"

definition build_checkmultisig_script :: "u32 \<Rightarrow> bytes list \<Rightarrow> (bytes, derive_error) res" where
  "build_checkmultisig_script k sorted_pubkeys =
     (let n = of_nat (length sorted_pubkeys) :: u32
      in if \<not> (1 \<le> k \<and> k \<le> 16) \<or> \<not> (1 \<le> n \<and> n \<le> 16) \<or> n < k then Err (DE_InvalidMultisigParams k n)
         else
           res_bind (for_check (\<lambda>i pk.
               if pk ! 0 \<noteq> 0x02 \<and> pk ! 0 \<noteq> 0x03 then Err (DE_InvalidCompressedPubkey i) else Ok ())
             0 sorted_pubkeys) (\<lambda>_.
           Ok (push_int k @ concat (map push_slice sorted_pubkeys) @ push_int n @ [OP_CHECKMULTISIG])))"

definition witness_script_2of3 :: "bytes list \<Rightarrow> (bytes, derive_error) res" where
  "witness_script_2of3 sorted_pks = build_checkmultisig_script 2 sorted_pks"

definition p2wsh_script_pubkey :: "prims \<Rightarrow> bytes \<Rightarrow> bytes" where
  "p2wsh_script_pubkey pr ws = [0x00, 0x20] @ sha256 pr ws"

subsection \<open>Derived outputs\<close>

record derived_child =
  dc_fingerprint :: fingerprint
  dc_branch :: derivation_branch
  dc_address_index :: u32
  dc_public_key :: bytes
  dc_chain_code :: bytes

record derived_output =
  do_children :: "derived_child list"
  do_sorted_pubkeys :: "bytes list"
  do_witness_script :: bytes
  do_script_pubkey :: bytes

definition decode_xpub :: "prims \<Rightarrow> string \<Rightarrow> (bytes \<times> bytes, derive_error) res" where
  "decode_xpub pr xpub = ok_or (xpub_from_str pr xpub) DE_MalformedXpub"

definition branch_index :: "derivation_branch \<Rightarrow> u32" where
  "branch_index b = (case b of BranchExternal \<Rightarrow> 0 | BranchInternal \<Rightarrow> 1)"

definition derive_child :: "prims \<Rightarrow> key_expr \<Rightarrow> u32 \<Rightarrow> (derived_child, derive_error) res" where
  "derive_child pr key address_index =
     (if MAX_NON_HARDENED_INDEX < address_index then Err (DE_HardenedIndex address_index)
      else
        res_bind (decode_xpub pr (ke_xpub key)) (\<lambda>(chain0, pk0).
        res_bind (ckd_pub pr chain0 pk0 (branch_index (ke_derivation key))) (\<lambda>mid.
        res_bind (ckd_pub pr (ck_chain_code mid) (ck_public_key mid) address_index) (\<lambda>child.
        if \<not> pubkey_valid pr (ck_public_key child) then Err DE_InvalidPublicKey
        else Ok \<lparr>dc_fingerprint = ke_fingerprint key, dc_branch = ke_derivation key,
                 dc_address_index = address_index, dc_public_key = ck_public_key child,
                 dc_chain_code = ck_chain_code child\<rparr>))))"

definition derive_at :: "prims \<Rightarrow> parsed_descriptor \<Rightarrow> u32 \<Rightarrow> (derived_output, derive_error) res" where
  "derive_at pr descriptor address_index =
     res_bind (derive_child pr (pd_keys descriptor ! 0) address_index) (\<lambda>c0.
     res_bind (derive_child pr (pd_keys descriptor ! 1) address_index) (\<lambda>c1.
     res_bind (derive_child pr (pd_keys descriptor ! 2) address_index) (\<lambda>c2.
     let children = [c0, c1, c2];
         unsorted = [dc_public_key (children ! 0), dc_public_key (children ! 1),
                     dc_public_key (children ! 2)];
         sorted_pubkeys = sort_three unsorted
     in res_bind (witness_script_2of3 sorted_pubkeys) (\<lambda>witness_script.
        Ok \<lparr>do_children = children, do_sorted_pubkeys = sorted_pubkeys,
            do_witness_script = witness_script,
            do_script_pubkey = p2wsh_script_pubkey pr witness_script\<rparr>))))"

subsection \<open>The script as a function of the keys\<close>

definition multisig_2of3 :: "bytes list \<Rightarrow> bytes" where
  "multisig_2of3 ks = [0x52] @ concat (map push_slice ks) @ [0x53, 0xae]"

definition compressed_prefix :: "bytes \<Rightarrow> bool" where
  "compressed_prefix k \<longleftrightarrow> k ! 0 = 0x02 \<or> k ! 0 = 0x03"

text \<open>What the curve library documents: a tweaked key serialises to 33 bytes.\<close>

definition tweaks_give_33_bytes :: "prims \<Rightarrow> bool" where
  "tweaks_give_33_bytes pr \<longleftrightarrow> (\<forall>k t c. add_exp_tweak pr k t = Some c \<longrightarrow> length c = 33)"

text \<open>A descriptor to evaluate the model on.\<close>

definition sample_key :: "char \<Rightarrow> u8 \<Rightarrow> derivation_branch \<Rightarrow> key_expr" where
  "sample_key c f b = \<lparr>ke_fingerprint = Fingerprint f f f f,
     ke_origin_path = ''48h/0h/0h/2h'', ke_xpub = ''xpub'' @ [c], ke_derivation = b\<rparr>"

definition sample_descriptor :: "derivation_branch \<Rightarrow> parsed_descriptor" where
  "sample_descriptor b = \<lparr>pd_k = 2,
     pd_keys = [sample_key (CHR ''C'') 3 b, sample_key (CHR ''A'') 1 b, sample_key (CHR ''B'') 2 b]\<rparr>"

section \<open>Lemmas\<close>

lemma witness_script_2of3_Ok:
  assumes "length ks = 3"
  shows "witness_script_2of3 ks = Ok ws \<longleftrightarrow> list_all compressed_prefix ks \<and> ws = multisig_2of3 ks"
proof -
  have n: "(of_nat (length ks) :: u32) = 3" using assms by simp
  have loop: "for_check (\<lambda>i pk. if pk ! 0 \<noteq> 0x02 \<and> pk ! 0 \<noteq> 0x03
      then Err (DE_InvalidCompressedPubkey i) else Ok ()) 0 ks = Ok () \<longleftrightarrow> list_all compressed_prefix ks"
    by (simp add: for_check_Ok list_all_length compressed_prefix_def) (metis res.distinct(1))
  show ?thesis
    unfolding witness_script_2of3_def build_checkmultisig_script_def Let_def n res_bind_eq_Ok
    using loop by (auto simp: multisig_2of3_def push_int_def OP_CHECKMULTISIG_def res_simps)
qed

lemma sort_three_facts [simp]:
  "length (sort_three ks) = length ks" "sorted (sort_three ks)" "mset (sort_three ks) = mset ks"
  "set (sort_three ks) = set ks"
  by (simp_all add: sort_three_def sort_pubkeys_def)

lemma sort_three_cong: "mset ks = mset ks' \<Longrightarrow> sort_three ks = sort_three ks'"
  by (metis sort_three_def sort_pubkeys_def properties_for_sort mset_sort sorted_sort)

lemma derive_child_Ok:
  assumes "derive_child pr k i = Ok c"
  shows "dc_fingerprint c = ke_fingerprint k" and "dc_branch c = ke_derivation k"
    and "dc_address_index c = i" and "i \<le> MAX_NON_HARDENED_INDEX"
    and "pubkey_valid pr (dc_public_key c)"
  using assms by (auto simp: derive_child_def res_bind_eq_Ok not_less split: if_splits)

lemma derive_child_not_Panic: "derive_child pr k i \<noteq> Panic"
  by (auto simp: derive_child_def res_bind_eq_Panic decode_xpub_def ckd_pub_def parse_il_def
      tweak_add_parent_def Let_def)

lemma derive_child_length:
  assumes "tweaks_give_33_bytes pr" and "derive_child pr k i = Ok c"
  shows "length (dc_public_key c) = 33"
  using assms by (auto simp: derive_child_def res_bind_eq_Ok ckd_pub_def Let_def tweak_add_parent_def
      ok_or_eq_Ok tweaks_give_33_bytes_def split: if_splits)

lemma derive_at_Ok:
  assumes "pd_keys d = [k0, k1, k2]"
  shows "derive_at pr d i = Ok out \<longleftrightarrow>
    (\<exists>c0 c1 c2. derive_child pr k0 i = Ok c0 \<and> derive_child pr k1 i = Ok c1 \<and> derive_child pr k2 i = Ok c2
      \<and> list_all compressed_prefix (map dc_public_key [c0, c1, c2])
      \<and> out = (let ks = sort_three (map dc_public_key [c0, c1, c2])
             in \<lparr>do_children = [c0, c1, c2], do_sorted_pubkeys = ks,
                 do_witness_script = multisig_2of3 ks,
                 do_script_pubkey = p2wsh_script_pubkey pr (multisig_2of3 ks)\<rparr>))"
proof -
  have three: "witness_script_2of3 (sort_three [a, b, c]) = Ok ws \<longleftrightarrow>
      list_all compressed_prefix [a, b, c] \<and> ws = multisig_2of3 (sort_three [a, b, c])" for a b c ws
    using witness_script_2of3_Ok [of "sort_three [a, b, c]"] by (simp add: list_all_iff)
  show ?thesis
    using assms by (auto simp: derive_at_def res_bind_eq_Ok Let_def three)
qed

lemma derive_at_not_Panic:
  assumes "length (pd_keys d) = 3"
  shows "derive_at pr d i \<noteq> Panic"
proof -
  have "for_check (\<lambda>i pk. if pk ! 0 \<noteq> 0x02 \<and> pk ! 0 \<noteq> 0x03
      then Err (DE_InvalidCompressedPubkey i) else Ok ()) 0 ks \<noteq> Panic" for ks :: "bytes list"
    by (rule for_in_not_Panic) simp
  then have "witness_script_2of3 ks \<noteq> Panic" for ks
    by (simp add: witness_script_2of3_def build_checkmultisig_script_def Let_def res_bind_eq_Panic)
  then show ?thesis
    by (auto simp: derive_at_def res_bind_eq_Panic Let_def derive_child_not_Panic)
qed

lemma length_push_slice: "length (push_slice k) = Suc (length k)"
  by (simp add: push_slice_def)

lemma multisig_inject:
  assumes "multisig_2of3 ks = multisig_2of3 ks'" and "length ks = length ks'"
    and "list_all (\<lambda>k. length k = 33) ks" and "list_all (\<lambda>k. length k = 33) ks'"
  shows "ks = ks'"
proof -
  have "concat (map push_slice ks) = concat (map push_slice ks')"
    using assms(1) by (simp add: multisig_2of3_def)
  moreover have "\<forall>(x, y)\<in>set (zip (map push_slice ks) (map push_slice ks')). length x = length y"
    using assms(2-4) by (auto simp: set_zip list_all_length length_push_slice)
  ultimately have "map push_slice ks = map push_slice ks'"
    using concat_injective assms(2) by (metis length_map)
  moreover have "inj push_slice" by (auto simp: inj_def push_slice_def)
  ultimately show ?thesis by (simp add: inj_map_eq_map)
qed

subsection \<open>The sample descriptor derives\<close>

lemma map2_replicate: "map2 f (replicate n a) (replicate n b) = replicate n (f a b)"
  by (induction n) simp_all

lemma sample_ckd:
  assumes "index AND HARDENED_BIT = 0"
  shows "\<exists>y z. ckd_pub sample_prims (replicate 32 c) (2 # replicate 32 x) index
    = Ok \<lparr>ck_chain_code = replicate 32 z, ck_public_key = 2 # replicate 32 y\<rparr>"
  using assms by (simp add: ckd_pub_def sample_prims_def Let_def parse_il_def tweak_add_parent_def map2_replicate)

lemma index_not_hardened:
  assumes "i \<le> MAX_NON_HARDENED_INDEX"
  shows "i AND HARDENED_BIT = 0"
proof -
  have "unat i < 2 ^ 31" using assms by (simp add: word_le_nat_alt MAX_NON_HARDENED_INDEX_def)
  then have "i = take_bit 31 i"
    by (simp add: word_unat_eq_iff unsigned_take_bit_eq take_bit_nat_eq_self)
  moreover have low: "take_bit n i AND push_bit n 1 = 0" for n by (rule bit_word_eqI) (auto simp: bit_simps)
  moreover have "HARDENED_BIT = push_bit 31 1" by (simp add: HARDENED_BIT_def)
  ultimately show ?thesis using low [of 31] by metis
qed

lemma sample_derive_child:
  assumes "i \<le> MAX_NON_HARDENED_INDEX"
  shows "\<exists>c. derive_child sample_prims (sample_key ch f b) i = Ok c \<and> compressed_prefix (dc_public_key c)
    \<and> length (dc_public_key c) = 33"
proof -
  let ?x = "of_char ch :: u8"
  have bi: "branch_index b AND HARDENED_BIT = 0"
    by (cases b) (simp_all add: branch_index_def HARDENED_BIT_def)
  obtain y z where mid: "ckd_pub sample_prims (replicate 32 ?x) (2 # replicate 32 ?x) (branch_index b)
      = Ok \<lparr>ck_chain_code = replicate 32 z, ck_public_key = 2 # replicate 32 y\<rparr>"
    using sample_ckd [OF bi] by blast
  obtain y' z' where child: "ckd_pub sample_prims (replicate 32 z) (2 # replicate 32 y) i
      = Ok \<lparr>ck_chain_code = replicate 32 z', ck_public_key = 2 # replicate 32 y'\<rparr>"
    using sample_ckd [OF index_not_hardened [OF assms]] by blast
  have "xpub_from_str sample_prims (''xpub'' @ [ch]) = Some (replicate 32 ?x, 2 # replicate 32 ?x)"
    "pubkey_valid sample_prims (2 # replicate 32 y')"
    by (simp_all add: sample_prims_def)
  then show ?thesis
    using assms mid child
    by (simp add: derive_child_def decode_xpub_def sample_key_def compressed_prefix_def not_less)
qed

lemma sample_derive_at:
  assumes "i \<le> MAX_NON_HARDENED_INDEX"
  shows "\<exists>out. derive_at sample_prims (sample_descriptor b) i = Ok out"
proof -
  have k: "pd_keys (sample_descriptor b)
      = [sample_key (CHR ''C'') 3 b, sample_key (CHR ''A'') 1 b, sample_key (CHR ''B'') 2 b]"
    by (simp add: sample_descriptor_def)
  show ?thesis
    unfolding derive_at_Ok [OF k]
    using sample_derive_child [OF assms, of "CHR ''C''" 3 b] sample_derive_child [OF assms, of "CHR ''A''" 1 b]
      sample_derive_child [OF assms, of "CHR ''B''" 2 b] by auto
qed

section \<open>Properties\<close>



text \<open>
  the order of the key expressions in the descriptor does not matter. A descriptor with
  the same three key expressions in another order derives at every index, if the first one
  does, and gives the same sorted keys, witness script and script pubkey.
\<close>

theorem derive_at_order_independent:
  assumes "length (pd_keys d) = 3" and "mset (pd_keys d') = mset (pd_keys d)"
    and "derive_at pr d i = Ok out"
  shows "\<exists>out'. derive_at pr d' i = Ok out' \<and> do_sorted_pubkeys out' = do_sorted_pubkeys out
    \<and> do_witness_script out' = do_witness_script out \<and> do_script_pubkey out' = do_script_pubkey out"
proof -
  let ?pk = "\<lambda>k. case derive_child pr k i of Ok c \<Rightarrow> dc_public_key c | _ \<Rightarrow> []"
  obtain k0 k1 k2 where k: "pd_keys d = [k0, k1, k2]"
    using assms(1) by (auto simp: numeral_eq_Suc length_Suc_conv)
  have "length (pd_keys d') = 3" using assms(1,2) mset_eq_length by metis
  then obtain j0 j1 j2 where j: "pd_keys d' = [j0, j1, j2]"
    by (auto simp: numeral_eq_Suc length_Suc_conv)
  have sub: "{j0, j1, j2} = {k0, k1, k2}" using assms(2) k j mset_eq_setD by fastforce
  obtain c0 c1 c2 where c: "derive_child pr k0 i = Ok c0" "derive_child pr k1 i = Ok c1"
      "derive_child pr k2 i = Ok c2" "list_all compressed_prefix (map dc_public_key [c0, c1, c2])"
      "do_sorted_pubkeys out = sort_three (map ?pk (pd_keys d))"
      "do_witness_script out = multisig_2of3 (do_sorted_pubkeys out)"
      "do_script_pubkey out = p2wsh_script_pubkey pr (do_witness_script out)"
    using assms(3) k unfolding derive_at_Ok [OF k] by (auto simp: Let_def)
  have good: "\<exists>c. derive_child pr x i = Ok c \<and> compressed_prefix (dc_public_key c)" if "x \<in> {j0, j1, j2}" for x
    using that c(1-4) unfolding sub by auto
  obtain e0 e1 e2 where e: "derive_child pr j0 i = Ok e0" "derive_child pr j1 i = Ok e1"
      "derive_child pr j2 i = Ok e2" "list_all compressed_prefix (map dc_public_key [e0, e1, e2])"
    using good [of j0] good [of j1] good [of j2] by auto
  have "mset (map ?pk (pd_keys d')) = mset (map ?pk (pd_keys d))" using assms(2) by simp
  then have "sort_three (map dc_public_key [e0, e1, e2]) = do_sorted_pubkeys out"
    using c(5) e j sort_three_cong by simp
  then show ?thesis
    using e c(6,7) unfolding derive_at_Ok [OF j] by (auto simp: Let_def)
qed

theorem derive_at_order_independent_witness:
  "\<exists>out out'. derive_at sample_prims (sample_descriptor BranchExternal) 5 = Ok out
     \<and> derive_at sample_prims \<lparr>pd_k = 2, pd_keys = rev (pd_keys (sample_descriptor BranchExternal))\<rparr> 5 = Ok out'
     \<and> do_script_pubkey out' = do_script_pubkey out"
proof -
  obtain out where out: "derive_at sample_prims (sample_descriptor BranchExternal) 5 = Ok out"
    using sample_derive_at [of 5 BranchExternal] by (auto simp: MAX_NON_HARDENED_INDEX_def)
  have len: "length (pd_keys (sample_descriptor BranchExternal)) = 3" by (simp add: sample_descriptor_def)
  show ?thesis
    using derive_at_order_independent [OF len _ out,
        of "\<lparr>pd_k = 2, pd_keys = rev (pd_keys (sample_descriptor BranchExternal))\<rparr>"] out by auto
qed

end
