(* ===== verification/Verify_Psbt.thy ===== *)
theory Verify_Psbt
  imports Verify_Derive
begin

text \<open>
  \<open>crates/trinity-verify/src/verify.rs\<close> and \<open>policy.rs\<close>: the independent check of a PSBT against
  the descriptor and the user's confirmed intent, V1 to V10, in the order of the code. The
  \<open>From\<close> conversions of the \<open>?\<close> operator are the error wrappers \<open>VE_Descriptor\<close> and
  \<open>VE_Derive\<close>. A slice index out of range and a failed \<open>expect\<close> are \<open>Panic\<close>.

  The lemmas turn every check into the condition it enforces. Together they give what an
  accepted PSBT guarantees: it spends only known outputs of this wallet, pays only the
  declared recipients and this wallet's own change, conserves the amounts, keeps the fee
  within the policy, and carries only low-s SIGHASH_ALL signatures.
\<close>

record verify_policy =
  vp_declared_recipients :: "string list"
  vp_declared_amount_sats :: u64
  vp_max_absolute_fee :: u64
  vp_max_feerate :: u64
  vp_declared_fee_sats :: "u64 option"
  vp_gap_limit :: u32
  vp_known_utxos :: "(out_point \<times> tx_out) list"
  vp_change_descriptor :: "string option"
  vp_network :: network

record classified_output =
  co_is_change :: bool
  co_amount_sats :: u64
  co_address :: string

definition MAX_PSBT_INS_OR_OUTS :: nat where "MAX_PSBT_INS_OR_OUTS = 100"

definition index_res :: "'a list \<Rightarrow> nat \<Rightarrow> ('a, 'e) res" where
  "index_res xs i = (if i < length xs then Ok (xs ! i) else Panic)"

subsection \<open>V8: structure\<close>

definition check_v8 :: "psbt \<Rightarrow> (unit, verify_error) res" where
  "check_v8 p =
     (let tx = ps_unsigned_tx p
      in if length (ps_inputs p) \<noteq> length (tx_input tx) then Err (VE_InconsistentPsbt InputMapLength)
         else if length (ps_outputs p) \<noteq> length (tx_output tx) then Err (VE_InconsistentPsbt OutputMapLength)
         else if tx_input tx = [] then Err (VE_InconsistentPsbt NoInputs)
         else if MAX_PSBT_INS_OR_OUTS < length (tx_input tx) then Err (VE_TooManyInputsOutputs InputCountExceeds)
         else if MAX_PSBT_INS_OR_OUTS < length (tx_output tx) then Err (VE_TooManyInputsOutputs OutputCountExceeds)
         else
           res_bind (for_check (\<lambda>_ txin.
               if ti_script_sig txin \<noteq> [] then Err (VE_InconsistentPsbt NonEmptyScriptSig)
               else if ti_witness txin \<noteq> [] then Err (VE_InconsistentPsbt NonEmptyWitness)
               else Ok ()) 0 (tx_input tx)) (\<lambda>_.
           if ps_proprietary p \<noteq> [] then Err VE_ProprietaryField
           else
             res_bind (for_check (\<lambda>_ inp. if in_proprietary inp \<noteq> [] then Err VE_ProprietaryField else Ok ())
               0 (ps_inputs p)) (\<lambda>_.
             res_bind (for_check (\<lambda>_ out. if out_proprietary out \<noteq> [] then Err VE_ProprietaryField else Ok ())
               0 (ps_outputs p)) (\<lambda>_. Ok ()))))"

subsection \<open>V9: witness UTXOs\<close>

definition check_v9 :: "psbt \<Rightarrow> (unit, verify_error) res" where
  "check_v9 p =
     for_check (\<lambda>i inp.
       case (in_witness_utxo inp, in_non_witness_utxo inp) of
         (Some _, _) \<Rightarrow> Ok ()
       | (None, Some _) \<Rightarrow> Err (VE_NonWitnessUtxoOnly i)
       | (None, None) \<Rightarrow> Err (VE_MissingWitnessUtxo i)) 0 (ps_inputs p)"

subsection \<open>V7: known outpoints\<close>

definition check_v7 :: "psbt \<Rightarrow> verify_policy \<Rightarrow> (unit, verify_error) res" where
  "check_v7 p policy =
     for_check (\<lambda>i (txin, psbt_in).
       res_bind (ok_or (btree_get (vp_known_utxos policy) (ti_previous_output txin)) (VE_UnknownInput i)) (\<lambda>known.
       res_bind (expect (in_witness_utxo psbt_in)) (\<lambda>utxo.
       if to_value utxo \<noteq> to_value known \<or> to_script_pubkey utxo \<noteq> to_script_pubkey known
       then Err (VE_MismatchedUtxo i) else Ok ())))
     0 (zip (tx_input (ps_unsigned_tx p)) (ps_inputs p))"

subsection \<open>V2: our own inputs\<close>

fun hint_loop :: "u32 option \<Rightarrow> key_source list \<Rightarrow> u32 option" where
  "hint_loop hint [] = hint"
| "hint_loop hint ((fp, path) # rest) =
     (if path = [] then None
      else (case last path of
              Hardened _ \<Rightarrow> None
            | Normal idx \<Rightarrow>
                (case hint of
                   None \<Rightarrow> hint_loop (Some idx) rest
                 | Some h \<Rightarrow> if h \<noteq> idx then None else hint_loop (Some h) rest)))"

definition bip32_index_hint :: "(secp_key \<times> key_source) list \<Rightarrow> u32 option" where
  "bip32_index_hint derivation =
     (case hint_loop None (map snd derivation) of
        None \<Rightarrow> None
      | Some h \<Rightarrow> if derivation \<noteq> [] then Some h else None)"

fun scan_indices ::
    "prims \<Rightarrow> bytes \<Rightarrow> parsed_descriptor \<Rightarrow> u32 option \<Rightarrow> u32 list \<Rightarrow> (u32 option, verify_error) res" where
  "scan_indices pr spk d hint [] = Ok None"
| "scan_indices pr spk d hint (i # is) =
     (if hint = Some i then scan_indices pr spk d hint is
      else
        res_bind (res_map_err VE_Derive (derive_at pr d i)) (\<lambda>derived.
        if do_script_pubkey derived = spk then Ok (Some i)
        else scan_indices pr spk d hint is))"

definition index_range :: "u32 \<Rightarrow> u32 list" where
  "index_range gap_limit = map of_nat [0..<unat gap_limit]"

definition find_index_matching ::
    "prims \<Rightarrow> bytes \<Rightarrow> parsed_descriptor \<Rightarrow> u32 \<Rightarrow> u32 option \<Rightarrow> (u32 option, verify_error) res" where
  "find_index_matching pr spk d gap_limit hint =
     res_bind
       (case hint of
          None \<Rightarrow> Ok None
        | Some h \<Rightarrow>
            if h < gap_limit
            then res_bind (res_map_err VE_Derive (derive_at pr d h)) (\<lambda>derived.
                   if do_script_pubkey derived = spk then Ok (Some h) else Ok None)
            else Ok None) (\<lambda>found.
       case found of
         Some h \<Rightarrow> Ok (Some h)
       | None \<Rightarrow> scan_indices pr spk d hint (index_range gap_limit))"

definition matches_any_derived ::
    "prims \<Rightarrow> bytes \<Rightarrow> parsed_descriptor \<Rightarrow> parsed_descriptor option \<Rightarrow> u32 \<Rightarrow> u32 option
     \<Rightarrow> (bool, verify_error) res" where
  "matches_any_derived pr spk receive change gap_limit hint =
     res_bind (find_index_matching pr spk receive gap_limit hint) (\<lambda>r.
     if r \<noteq> None then Ok True
     else (case change of
             Some chg \<Rightarrow> res_bind (find_index_matching pr spk chg gap_limit hint) (\<lambda>c. Ok (c \<noteq> None))
           | None \<Rightarrow> Ok False))"

definition check_v2 ::
    "prims \<Rightarrow> psbt \<Rightarrow> parsed_descriptor \<Rightarrow> parsed_descriptor option \<Rightarrow> verify_policy
     \<Rightarrow> (unit, verify_error) res" where
  "check_v2 pr p receive change policy =
     for_check (\<lambda>i inp.
       res_bind (expect (in_witness_utxo inp)) (\<lambda>utxo.
       res_bind (matches_any_derived pr (to_script_pubkey utxo) receive change (vp_gap_limit policy)
           (bip32_index_hint (in_bip32_derivation inp))) (\<lambda>ok.
       if \<not> ok then Err (VE_ForeignInput i) else Ok ()))) 0 (ps_inputs p)"

subsection \<open>V3 and V4: outputs\<close>

definition key_expr_for_fingerprint :: "parsed_descriptor \<Rightarrow> fingerprint \<Rightarrow> key_expr option" where
  "key_expr_for_fingerprint d fp = List.find (\<lambda>k. ke_fingerprint k = fp) (pd_keys d)"

fun prefix_all :: "derivation_path \<Rightarrow> derivation_path \<Rightarrow> nat list \<Rightarrow> (bool, unit) res" where
  "prefix_all path origin [] = Ok True"
| "prefix_all path origin (i # is) =
     res_bind (index_res path i) (\<lambda>a.
     res_bind (index_res origin i) (\<lambda>b.
     if a = b then prefix_all path origin is else Ok False))"

definition origin_matches_prefix :: "derivation_path \<Rightarrow> string \<Rightarrow> (bool, unit) res" where
  "origin_matches_prefix path origin_path =
     res_bind (expect (res_ok (derivation_path_from_str (''m/'' @ origin_path)))) (\<lambda>origin.
     prefix_all path origin [0..<4])"

definition path_is_change_at :: "derivation_path \<Rightarrow> key_expr \<Rightarrow> u32 \<Rightarrow> (bool, unit) res" where
  "path_is_change_at path key index =
     (if length path \<noteq> 6 then Ok False
      else (case (path ! 4, path ! 5) of
              (Normal one, Normal idx) \<Rightarrow>
                if one = 1 \<and> idx = index then origin_matches_prefix path (ke_origin_path key)
                else Ok False
            | _ \<Rightarrow> Ok False))"

definition check_v4_change ::
    "prims \<Rightarrow> psbt_output \<Rightarrow> parsed_descriptor \<Rightarrow> u32 \<Rightarrow> (unit, unit) res" where
  "check_v4_change pr out change_desc index =
     res_bind (res_map_err (\<lambda>_. ()) (derive_at pr change_desc index)) (\<lambda>derived.
     if length (out_bip32_derivation out) \<noteq> 3 then Err ()
     else
       res_bind (for_in (\<lambda>_ (pk, fp, path) (seen_fps, map_pubkeys).
           if fp \<in> set seen_fps then Err ()
           else
             res_bind (ok_or (key_expr_for_fingerprint change_desc fp) ()) (\<lambda>key.
             res_bind (path_is_change_at path key index) (\<lambda>ok.
             if \<not> ok then Err () else Ok (fp # seen_fps, map_pubkeys @ [pk]))))
         0 (out_bip32_derivation out) ([], [])) (\<lambda>(_, map_pubkeys).
       if set (map dc_public_key (do_children derived)) \<noteq> set map_pubkeys then Err () else Ok ()))"

definition output_address :: "prims \<Rightarrow> bytes \<Rightarrow> network \<Rightarrow> nat \<Rightarrow> (string, verify_error) res" where
  "output_address pr spk net i = ok_or (address_from_script pr spk net) (VE_InvalidOutputAddress i)"

definition to_ascii_lowercase :: "char \<Rightarrow> char" where
  "to_ascii_lowercase c =
     (if 65 \<le> (of_char c :: nat) \<and> (of_char c :: nat) \<le> 90 then char_of (of_char c + 32 :: nat) else c)"

definition addresses_equal :: "string \<Rightarrow> string \<Rightarrow> bool" where
  "addresses_equal a b \<longleftrightarrow> map to_ascii_lowercase a = map to_ascii_lowercase b"

definition classify_output ::
    "prims \<Rightarrow> psbt \<Rightarrow> parsed_descriptor option \<Rightarrow> verify_policy \<Rightarrow> nat \<Rightarrow> tx_out
     \<Rightarrow> (classified_output, verify_error) res" where
  "classify_output pr p change policy i txout =
     res_bind (output_address pr (to_script_pubkey txout) (vp_network policy) i) (\<lambda>address.
     if list_ex (\<lambda>r. addresses_equal address r) (vp_declared_recipients policy)
     then Ok \<lparr>co_is_change = False, co_amount_sats = to_value txout, co_address = address\<rparr>
     else
       res_bind (ok_or change (VE_ForeignChangeOutput i)) (\<lambda>chg.
       res_bind (index_res (ps_outputs p) i) (\<lambda>out.
       res_bind (find_index_matching pr (to_script_pubkey txout) chg (vp_gap_limit policy)
           (bip32_index_hint (out_bip32_derivation out))) (\<lambda>found.
       res_bind (ok_or found (VE_ForeignChangeOutput i)) (\<lambda>idx.
       res_bind (res_map_err (\<lambda>_. VE_MismatchedDerivation i) (check_v4_change pr out chg idx)) (\<lambda>_.
       Ok \<lparr>co_is_change = True, co_amount_sats = to_value txout, co_address = address\<rparr>))))))"

definition classify_outputs ::
    "prims \<Rightarrow> psbt \<Rightarrow> parsed_descriptor option \<Rightarrow> verify_policy
     \<Rightarrow> (classified_output list, verify_error) res" where
  "classify_outputs pr p change policy =
     for_in (\<lambda>i txout out. res_bind (classify_output pr p change policy i txout) (\<lambda>c. Ok (out @ [c])))
       0 (tx_output (ps_unsigned_tx p)) []"

subsection \<open>V5 and V6: amounts\<close>

definition check_v5 :: "prims \<Rightarrow> psbt \<Rightarrow> verify_policy \<Rightarrow> (u64 \<times> u64, verify_error) res" where
  "check_v5 pr p policy =
     res_bind (for_in (\<lambda>_ inp sum_in.
         res_bind (expect (in_witness_utxo inp)) (\<lambda>utxo.
         ok_or (checked_add sum_in (to_value utxo)) VE_FeeNonPositive)) 0 (ps_inputs p) 0) (\<lambda>sum_in.
     res_bind (for_in (\<lambda>_ txout sum_out. ok_or (checked_add sum_out (to_value txout)) VE_FeeNonPositive)
         0 (tx_output (ps_unsigned_tx p)) 0) (\<lambda>sum_out.
     res_bind (ok_or (checked_sub sum_in sum_out) VE_FeeNonPositive) (\<lambda>fee_sats.
     if fee_sats = 0 then Err VE_FeeNonPositive
     else if vp_max_absolute_fee policy < fee_sats
     then Err (VE_FeeTooHigh fee_sats (vp_max_absolute_fee policy))
     else
       res_bind (case vp_declared_fee_sats policy of
           None \<Rightarrow> Ok ()
         | Some expected \<Rightarrow> if fee_sats \<noteq> expected then Err (VE_FeeMismatch fee_sats expected) else Ok ())
         (\<lambda>_.
       let vsize = max (tx_vsize pr (ps_unsigned_tx p)) 1
       in res_bind (expect (div_ceil fee_sats vsize)) (\<lambda>feerate_sat_vb.
          if vp_max_feerate policy < feerate_sat_vb
          then Err (VE_FeerateTooHigh feerate_sat_vb (vp_max_feerate policy))
          else Ok (fee_sats, feerate_sat_vb))))))"

definition check_v6 :: "classified_output list \<Rightarrow> verify_policy \<Rightarrow> (unit, verify_error) res" where
  "check_v6 classified policy =
     (let actual = foldl sat_add 0 (map co_amount_sats (filter (\<lambda>c. \<not> co_is_change c) classified))
      in if actual \<noteq> vp_declared_amount_sats policy
         then Err (VE_AmountMismatch actual (vp_declared_amount_sats policy)) else Ok ())"

subsection \<open>V10: signatures already present\<close>

definition is_sighash_all :: "u32 \<Rightarrow> bool" where
  "is_sighash_all sht =
     (case sighash_from_standard sht of Some SighashAll \<Rightarrow> True | Some _ \<Rightarrow> False | None \<Rightarrow> False)"

definition check_v10 :: "prims \<Rightarrow> psbt \<Rightarrow> (unit, verify_error) res" where
  "check_v10 pr p =
     for_check (\<lambda>i inp.
       res_bind (case in_sighash_type inp of
           None \<Rightarrow> Ok ()
         | Some sht \<Rightarrow> if \<not> is_sighash_all sht then Err (VE_NonSighashAll i) else Ok ()) (\<lambda>_.
       for_check (\<lambda>_ (_, sg).
           if sig_sighash_type sg \<noteq> SighashAll then Err (VE_NonSighashAll i)
           else if normalize_s pr (sig_signature sg) \<noteq> sig_signature sg then Err (VE_BadSignature i)
           else Ok ()) 0 (in_partial_sigs inp))) 0 (ps_inputs p)"

subsection \<open>The verdict\<close>

definition verdict_step :: "u64 \<times> u64 \<times> string \<Rightarrow> classified_output \<Rightarrow> u64 \<times> u64 \<times> string" where
  "verdict_step st c =
     (let (amount_sats, change_sats, recipient) = st
      in if co_is_change c then (amount_sats, sat_add change_sats (co_amount_sats c), recipient)
         else (sat_add amount_sats (co_amount_sats c), change_sats,
               if recipient = [] then co_address c else recipient))"

definition verify :: "prims \<Rightarrow> psbt \<Rightarrow> string \<Rightarrow> verify_policy \<Rightarrow> (psbt_verdict, verify_error) res" where
  "verify pr p descriptor policy =
     res_bind (res_map_err VE_Descriptor (parse pr descriptor)) (\<lambda>receive.
     res_bind (case vp_change_descriptor policy of
         Some s \<Rightarrow> res_bind (res_map_err VE_Descriptor (parse pr s)) (\<lambda>d. Ok (Some d))
       | None \<Rightarrow> Ok None) (\<lambda>change.
     res_bind (check_v8 p) (\<lambda>_.
     res_bind (check_v9 p) (\<lambda>_.
     res_bind (check_v7 p policy) (\<lambda>_.
     res_bind (check_v2 pr p receive change policy) (\<lambda>_.
     res_bind (classify_outputs pr p change policy) (\<lambda>classified.
     res_bind (check_v5 pr p policy) (\<lambda>(fee_sats, feerate_sat_vb).
     res_bind (check_v6 classified policy) (\<lambda>_.
     res_bind (check_v10 pr p) (\<lambda>_.
     let (amount_sats, change_sats, recipient) = foldl verdict_step (0, 0, []) classified;
         recipient = (case vp_declared_recipients policy of decl # _ \<Rightarrow> decl | [] \<Rightarrow> recipient)
     in Ok \<lparr>vd_ok = True, vd_recipient = recipient, vd_amount_sats = amount_sats,
            vd_change_sats = change_sats, vd_fee_sats = fee_sats,
            vd_feerate_sat_vb = feerate_sat_vb\<rparr>))))))))))"

definition verify_psbt :: "prims \<Rightarrow> string \<Rightarrow> string \<Rightarrow> verify_policy \<Rightarrow> (psbt_verdict, verify_error) res" where
  "verify_psbt pr psbt_b64 descriptor policy =
     res_bind (ok_or (psbt_from_base64 pr psbt_b64) VE_PsbtDecode) (\<lambda>p. verify pr p descriptor policy)"

subsection \<open>What the checks enforce\<close>

text \<open>A script this wallet derives on one chain, below the gap limit.\<close>

definition derives_to :: "prims \<Rightarrow> parsed_descriptor \<Rightarrow> u32 \<Rightarrow> bytes \<Rightarrow> bool" where
  "derives_to pr d i spk \<longleftrightarrow> (\<exists>out. derive_at pr d i = Ok out \<and> do_script_pubkey out = spk)"

definition own_script :: "prims \<Rightarrow> parsed_descriptor \<Rightarrow> u32 \<Rightarrow> bytes \<Rightarrow> bool" where
  "own_script pr d gap spk \<longleftrightarrow> (\<exists>i < gap. derives_to pr d i spk)"

text \<open>
  The change data of an output: exactly one entry per key expression of the change
  descriptor, each with the path origin/1/index of its own key expression, over exactly the
  three derived keys.
\<close>

definition change_map_ok :: "prims \<Rightarrow> parsed_descriptor \<Rightarrow> u32 \<Rightarrow> (secp_key \<times> key_source) list \<Rightarrow> bool" where
  "change_map_ok pr d i m \<longleftrightarrow>
     length m = 3 \<and> distinct (map (\<lambda>(pk, fp, path). fp) m)
     \<and> (\<forall>(pk, fp, path) \<in> set m. \<exists>k \<in> set (pd_keys d). ke_fingerprint k = fp
          \<and> (\<exists>origin. derivation_path_from_str (''m/'' @ ke_origin_path k) = Ok origin
              \<and> length path = 6 \<and> take 4 path = take 4 origin
              \<and> path ! 4 = Normal 1 \<and> path ! 5 = Normal i))
     \<and> (\<exists>out. derive_at pr d i = Ok out
          \<and> set (map fst m) = set (map dc_public_key (do_children out)))"

text \<open>Three accepted origins, none of them written with the prefix m/.\<close>

definition plain_origins :: "parsed_descriptor \<Rightarrow> bool" where
  "plain_origins d \<longleftrightarrow> length (pd_keys d) = 3
     \<and> (\<forall>k \<in> set (pd_keys d). origin_grammar (ke_origin_path k) \<and> \<not> starts_with (ke_origin_path k) ''m/'')"

subsection \<open>A sample payment\<close>

definition sample_key_text :: "string \<Rightarrow> char \<Rightarrow> derivation_branch \<Rightarrow> string" where
  "sample_key_text fp c b = ''['' @ fp @ ''/48h/0h/0h/2h]xpub'' @ [c] @ branch_suffix b"

definition sample_body :: "derivation_branch \<Rightarrow> string" where
  "sample_body b = ''wsh(sortedmulti(2,'' @ sample_key_text ''03030303'' (CHR ''C'') b
     @ '','' @ sample_key_text ''01010101'' (CHR ''A'') b
     @ '','' @ sample_key_text ''02020202'' (CHR ''B'') b @ ''))''"

definition sample_text :: "derivation_branch \<Rightarrow> string" where
  "sample_text b = (case create_checksum (sample_body b) of Ok s \<Rightarrow> s | _ \<Rightarrow> [])"

definition sample_out :: "derivation_branch \<Rightarrow> u32 \<Rightarrow> derived_output" where
  "sample_out b i = (case derive_at sample_prims (sample_descriptor b) i of
     Ok out \<Rightarrow> out
   | _ \<Rightarrow> \<lparr>do_children = [], do_sorted_pubkeys = [], do_witness_script = [], do_script_pubkey = []\<rparr>)"

definition sample_map :: "derivation_branch \<Rightarrow> u32 \<Rightarrow> (secp_key \<times> key_source) list" where
  "sample_map b i = map (\<lambda>c. (dc_public_key c, dc_fingerprint c,
       [Hardened 48, Hardened 0, Hardened 0, Hardened 2, Normal (branch_index b), Normal i]))
     (do_children (sample_out b i))"

definition sample_utxo :: tx_out where
  "sample_utxo = \<lparr>to_value = 100000, to_script_pubkey = do_script_pubkey (sample_out BranchExternal 5)\<rparr>"

definition sample_tx :: transaction where
  "sample_tx = \<lparr>tx_version = 2, tx_lock_time = 0,
     tx_input = [\<lparr>ti_previous_output = OutPoint (replicate 32 7) 0, ti_script_sig = [],
                  ti_sequence = 0, ti_witness = []\<rparr>],
     tx_output = [\<lparr>to_value = 60000, to_script_pubkey = [0x6a]\<rparr>,
                  \<lparr>to_value = 39000, to_script_pubkey = do_script_pubkey (sample_out BranchInternal 3)\<rparr>]\<rparr>"

definition sample_psbt :: psbt where
  "sample_psbt = \<lparr>ps_unsigned_tx = sample_tx,
     ps_inputs = [\<lparr>in_non_witness_utxo = None, in_witness_utxo = Some sample_utxo, in_partial_sigs = [],
       in_sighash_type = Some 1, in_witness_script = Some (do_witness_script (sample_out BranchExternal 5)),
       in_bip32_derivation = sample_map BranchExternal 5, in_final_script_sig = None,
       in_final_script_witness = None, in_proprietary = []\<rparr>],
     ps_outputs = [\<lparr>out_bip32_derivation = [], out_proprietary = []\<rparr>,
                   \<lparr>out_bip32_derivation = sample_map BranchInternal 3, out_proprietary = []\<rparr>],
     ps_proprietary = []\<rparr>"

definition sample_policy :: verify_policy where
  "sample_policy = \<lparr>vp_declared_recipients = [''j''], vp_declared_amount_sats = 60000,
     vp_max_absolute_fee = 2000, vp_max_feerate = 20, vp_declared_fee_sats = Some 1000,
     vp_gap_limit = 20, vp_known_utxos = [(OutPoint (replicate 32 7) 0, sample_utxo)],
     vp_change_descriptor = Some (sample_text BranchInternal), vp_network = Bitcoin\<rparr>"

section \<open>Lemmas\<close>

subsection \<open>Structure\<close>

lemma check_v8_Ok:
  "check_v8 p = Ok () \<longleftrightarrow>
     length (ps_inputs p) = length (tx_input (ps_unsigned_tx p))
     \<and> length (ps_outputs p) = length (tx_output (ps_unsigned_tx p))
     \<and> tx_input (ps_unsigned_tx p) \<noteq> [] \<and> length (ps_inputs p) \<le> MAX_PSBT_INS_OR_OUTS
     \<and> length (ps_outputs p) \<le> MAX_PSBT_INS_OR_OUTS
     \<and> list_all (\<lambda>t. ti_script_sig t = [] \<and> ti_witness t = []) (tx_input (ps_unsigned_tx p))
     \<and> ps_proprietary p = [] \<and> list_all (\<lambda>x. in_proprietary x = []) (ps_inputs p)
     \<and> list_all (\<lambda>x. out_proprietary x = []) (ps_outputs p)"
  by (auto simp: check_v8_def Let_def res_bind_eq_Ok for_check_Ok list_all_length not_less
      split: if_splits) 

lemma check_v9_Ok: "check_v9 p = Ok () \<longleftrightarrow> list_all (\<lambda>x. in_witness_utxo x \<noteq> None) (ps_inputs p)"
  by (auto simp: check_v9_def for_check_Ok list_all_length split: option.splits)

lemma check_v7_Ok:
  "check_v7 p policy = Ok () \<longleftrightarrow>
     list_all (\<lambda>(txin, inp). \<exists>u. btree_get (vp_known_utxos policy) (ti_previous_output txin) = Some u
       \<and> in_witness_utxo inp = Some u) (zip (tx_input (ps_unsigned_tx p)) (ps_inputs p))"
  unfolding check_v7_def
proof (rule for_check_iff)
  fix i and x :: "tx_in \<times> psbt_input"
  obtain txin inp where x: "x = (txin, inp)" by fastforce
  have eq: "to_value u = to_value k \<and> to_script_pubkey u = to_script_pubkey k \<longleftrightarrow> u = k" for u k :: tx_out
    by auto
  show "(case x of (txin, psbt_in) \<Rightarrow>
       res_bind (ok_or (btree_get (vp_known_utxos policy) (ti_previous_output txin)) (VE_UnknownInput i)) (\<lambda>known.
       res_bind (expect (in_witness_utxo psbt_in)) (\<lambda>utxo.
       if to_value utxo \<noteq> to_value known \<or> to_script_pubkey utxo \<noteq> to_script_pubkey known
       then Err (VE_MismatchedUtxo i) else Ok ()))) = Ok () \<longleftrightarrow>
     (case x of (txin, inp) \<Rightarrow> \<exists>u. btree_get (vp_known_utxos policy) (ti_previous_output txin) = Some u
       \<and> in_witness_utxo inp = Some u)"
    unfolding x prod.case res_bind_eq_Ok ok_or_eq_Ok expect_eq_Ok
    using eq by (auto split: if_splits)
qed

subsection \<open>Searching the derivation window\<close>

lemma set_index_range [simp]: "set (index_range gap) = {i. i < gap}"
proof (rule set_eqI)
  fix i :: u32
  have "unat (of_nat n :: u32) = n" if "n < unat gap" for n
    using that unat_lt2p [of gap] by (simp add: unsigned_of_nat take_bit_nat_eq_self)
  moreover have "i \<in> of_nat ` {0..<unat gap}" if "unat i < unat gap"
    using that by (intro image_eqI [of _ _ "unat i"]) simp_all
  ultimately show "i \<in> set (index_range gap) \<longleftrightarrow> i \<in> {i. i < gap}"
    by (auto simp: index_range_def word_less_nat_alt)
qed

lemma scan_indices_Some:
  "scan_indices pr spk d hint is = Ok (Some i) \<Longrightarrow> i \<in> set is \<and> derives_to pr d i spk"
  by (induction "is") (auto simp: res_bind_eq_Ok res_map_err_eq_Ok derives_to_def split: if_splits)

lemma scan_indices_None:
  "scan_indices pr spk d hint is = Ok None \<Longrightarrow> i \<in> set is \<Longrightarrow> hint \<noteq> Some i \<Longrightarrow> \<not> derives_to pr d i spk"
  by (induction "is") (auto simp: res_bind_eq_Ok res_map_err_eq_Ok derives_to_def split: if_splits)

lemma scan_indices_total:
  "\<forall>i \<in> set is. \<exists>out. derive_at pr d i = Ok out \<Longrightarrow> \<exists>r. scan_indices pr spk d hint is = Ok r"
  by (induction "is") fastforce+

lemma find_index_Some:
  assumes "find_index_matching pr spk d gap hint = Ok (Some i)"
  shows "i < gap \<and> derives_to pr d i spk"
  using assms scan_indices_Some [of pr spk d hint "index_range gap" i]
  by (auto simp: find_index_matching_def res_bind_eq_Ok res_map_err_eq_Ok derives_to_def
      split: option.splits if_splits)

lemma find_index_None:
  assumes "find_index_matching pr spk d gap hint = Ok None"
  shows "\<not> own_script pr d gap spk"
proof -
  have scan: "scan_indices pr spk d hint (index_range gap) = Ok None"
    using assms by (auto simp: find_index_matching_def res_bind_eq_Ok split: option.splits)
  have "\<not> derives_to pr d i spk" if "i < gap" for i
  proof (cases "hint = Some i")
    case True
    then show ?thesis
      using assms that by (auto simp: find_index_matching_def res_bind_eq_Ok res_map_err_eq_Ok derives_to_def
          split: if_splits)
  next
    case False
    then show ?thesis using scan_indices_None [OF scan] that by simp
  qed
  then show ?thesis by (auto simp: own_script_def)
qed

lemma find_index_total:
  assumes "\<forall>i < gap. \<exists>out. derive_at pr d i = Ok out"
  shows "\<exists>r. find_index_matching pr spk d gap hint = Ok r"
proof -
  obtain r where r: "scan_indices pr spk d hint (index_range gap) = Ok r"
    using scan_indices_total [of "index_range gap"] assms by fastforce
  show ?thesis
  proof (cases hint)
    case (Some h)
    then show ?thesis
      using assms r by (cases "h < gap") (fastforce simp: find_index_matching_def)+
  qed (use r in \<open>simp add: find_index_matching_def\<close>)
qed

lemma check_v2_Ok:
  assumes "check_v2 pr p receive change policy = Ok ()" and "inp \<in> set (ps_inputs p)"
  shows "\<exists>u d. in_witness_utxo inp = Some u \<and> (d = receive \<or> change = Some d)
    \<and> own_script pr d (vp_gap_limit policy) (to_script_pubkey u)"
proof -
  obtain j where j: "j < length (ps_inputs p)" "inp = ps_inputs p ! j"
    using assms(2) by (auto simp: in_set_conv_nth)
  then obtain u where u: "in_witness_utxo inp = Some u"
      "matches_any_derived pr (to_script_pubkey u) receive change (vp_gap_limit policy)
         (bip32_index_hint (in_bip32_derivation inp)) = Ok True"
    using assms(1) by (auto simp: check_v2_def for_check_Ok res_bind_eq_Ok expect_eq_Ok split: if_splits)
  then show ?thesis
    using find_index_Some unfolding matches_any_derived_def own_script_def
    by (fastforce simp: res_bind_eq_Ok split: if_splits option.splits)
qed

subsection \<open>Origin paths as derivation paths\<close>

lemma child_hardened:
  assumes "m \<in> hardened_markers" and "canonical_decimal num" and "decimal_value num < 0x80000000"
  shows "child_number_from_str (num @ [m]) = Ok (Hardened (of_nat (decimal_value num)))"
proof -
  have "\<not> bit (decimal_value num) 31" using assms(3) by (simp add: bit_iff_odd)
  then have "\<not> bit (of_nat (decimal_value num) :: u32) 31" by (simp add: bit_simps)
  then show ?thesis
    using assms by (auto simp: child_number_from_str_def child_from_idx_def hardened_markers_def
        canonical_decimal_def parse_uint_digits)
qed

lemma markers_no_slash: "m \<in> hardened_markers \<Longrightarrow> m \<noteq> CHR ''/''"
  by (auto simp: hardened_markers_def)

lemma origin_derivation_path:
  assumes "coin \<in> {''0'', ''1''}" and m: "m1 \<in> hardened_markers" "m2 \<in> hardened_markers"
    "m3 \<in> hardened_markers" "m4 \<in> hardened_markers"
  shows "derivation_path_from_str (''m/48'' @ [m1] @ ''/'' @ coin @ [m2] @ ''/0'' @ [m3] @ ''/2'' @ [m4])
    = Ok [Hardened 48, Hardened (of_nat (decimal_value coin)), Hardened 0, Hardened 2]"
proof -
  let ?t = "(''48'' @ [m1]) @ CHR ''/'' # (coin @ [m2]) @ CHR ''/'' # (''0'' @ [m3]) @ CHR ''/'' # (''2'' @ [m4])"
  have coin: "canonical_decimal coin" "decimal_value coin < 0x80000000" "CHR ''/'' \<notin> set coin"
    using assms(1) small_decimals by auto
  have sp: "split_on (CHR ''/'') ?t = [''48'' @ [m1], coin @ [m2], ''0'' @ [m3], ''2'' @ [m4]]"
    unfolding split_on_four using m [THEN markers_no_slash] coin(3) by auto
  have "derivation_path_from_str (''m/'' @ ?t) = res_traverse child_number_from_str (split_on (CHR ''/'') ?t)"
    by (simp add: derivation_path_from_str_def strip_prefix_def)
  also have "\<dots> = Ok [Hardened 48, Hardened (of_nat (decimal_value coin)), Hardened 0, Hardened 2]"
    unfolding sp
    using child_hardened [OF m(1), of "''48''"] child_hardened [OF m(2) coin(1,2)]
      child_hardened [OF m(3), of "''0''"] child_hardened [OF m(4), of "''2''"] small_decimals by simp
  finally show ?thesis by simp
qed

text \<open>An accepted origin without the prefix m/ is a four-step path; with it, it is no path.\<close>

lemma plain_origin_parses:
  assumes "origin_grammar path" and "\<not> starts_with path ''m/''"
  shows "\<exists>c. derivation_path_from_str (''m/'' @ path) = Ok [Hardened 48, c, Hardened 0, Hardened 2]"
proof -
  obtain pre coin m1 m2 m3 m4 where g: "pre \<in> {'''', ''m/''}" "coin \<in> {''0'', ''1''}"
      "m1 \<in> hardened_markers" "m2 \<in> hardened_markers" "m3 \<in> hardened_markers" "m4 \<in> hardened_markers"
      "path = pre @ ''48'' @ [m1] @ ''/'' @ coin @ [m2] @ ''/0'' @ [m3] @ ''/2'' @ [m4]"
    using assms(1) unfolding origin_grammar_def by blast
  then have "pre = ''''" using assms(2) by (auto simp: starts_with_def)
  then show ?thesis using origin_derivation_path [OF g(2-6)] g(7) by auto
qed

lemma prefixed_origin_fails: "derivation_path_from_str (''m/m/'' @ r) = Err InvalidChildNumberFormat"
proof -
  have "split_on (CHR ''/'') (''m/'' @ r) = ''m'' # split_on (CHR ''/'') r"
    using split_on_append [of "CHR ''/''" "''m''" r] by simp
  moreover have "child_number_from_str ''m'' = Err InvalidChildNumberFormat"
    by (simp add: child_number_from_str_def parse_uint_def is_ascii_digit_def)
  ultimately show ?thesis by (simp add: derivation_path_from_str_def strip_prefix_def)
qed

subsection \<open>Change outputs\<close>

lemma index_res_Ok: "index_res xs i = Ok x \<longleftrightarrow> i < length xs \<and> x = xs ! i"
  by (auto simp: index_res_def)

lemma prefix_all_Ok:
  "prefix_all path origin is = Ok True \<longleftrightarrow>
     (\<forall>i \<in> set is. i < length path \<and> i < length origin \<and> path ! i = origin ! i)"
  by (induction "is") (auto simp: res_bind_eq_Ok index_res_Ok split: if_splits)

lemma origin_matches_prefix_Ok:
  "origin_matches_prefix path s = Ok True \<longleftrightarrow>
     (\<exists>origin. derivation_path_from_str (''m/'' @ s) = Ok origin \<and> 4 \<le> length path \<and> 4 \<le> length origin
        \<and> take 4 path = take 4 origin)"
proof -
  have "(\<forall>i \<in> set [0..<4]. i < length path \<and> i < length origin \<and> path ! i = origin ! i) \<longleftrightarrow>
      4 \<le> length path \<and> 4 \<le> length origin \<and> take 4 path = take 4 origin" for origin
  proof
    assume r: "\<forall>i \<in> set [0..<4]. i < length path \<and> i < length origin \<and> path ! i = origin ! i"
    then have "3 < length path" "3 < length origin" by simp_all
    then have len: "4 \<le> length path" "4 \<le> length origin" by simp_all
    moreover have "take 4 path = take 4 origin" using r len by (intro nth_equalityI) simp_all
    ultimately show "4 \<le> length path \<and> 4 \<le> length origin \<and> take 4 path = take 4 origin" by simp
  next
    assume r: "4 \<le> length path \<and> 4 \<le> length origin \<and> take 4 path = take 4 origin"
    then have "take 4 path ! i = take 4 origin ! i" for i by simp
    then have "path ! i = origin ! i" if "i < 4" for i using that by (metis nth_take)
    then show "\<forall>i \<in> set [0..<4]. i < length path \<and> i < length origin \<and> path ! i = origin ! i"
      using r by auto
  qed
  then show ?thesis
    by (simp add: origin_matches_prefix_def res_bind_eq_Ok expect_eq_Ok prefix_all_Ok res_ok_eq_Some)
qed

lemma path_is_change_at_Ok:
  "path_is_change_at path k i = Ok True \<longleftrightarrow>
     length path = 6 \<and> path ! 4 = Normal 1 \<and> path ! 5 = Normal i
     \<and> origin_matches_prefix path (ke_origin_path k) = Ok True"
  by (auto simp: path_is_change_at_def split: child_number.splits if_splits)

lemma change_loop:
  assumes "for_in (\<lambda>_ (pk, fp, path) (seen_fps, map_pubkeys).
           if fp \<in> set seen_fps then Err ()
           else
             res_bind (ok_or (key_expr_for_fingerprint d fp) ()) (\<lambda>key.
             res_bind (path_is_change_at path key i) (\<lambda>ok.
             if \<not> ok then Err () else Ok (fp # seen_fps, map_pubkeys @ [pk]))))
         n m (seen, pks) = Ok (seen', pks')"
  shows "pks' = pks @ map fst m \<and> distinct (map (\<lambda>(pk, fp, path). fp) m)
    \<and> set (map (\<lambda>(pk, fp, path). fp) m) \<inter> set seen = {}
    \<and> (\<forall>(pk, fp, path) \<in> set m. \<exists>k \<in> set (pd_keys d). ke_fingerprint k = fp
          \<and> path_is_change_at path k i = Ok True)"
  using assms
proof (induction m arbitrary: n seen pks)
  case (Cons e m)
  obtain pk fp path where e: "e = (pk, fp, path)" by (cases e)
  obtain k where k: "key_expr_for_fingerprint d fp = Some k" "path_is_change_at path k i = Ok True"
      "fp \<notin> set seen"
    and rest: "for_in (\<lambda>_ (pk, fp, path) (seen_fps, map_pubkeys).
           if fp \<in> set seen_fps then Err ()
           else
             res_bind (ok_or (key_expr_for_fingerprint d fp) ()) (\<lambda>key.
             res_bind (path_is_change_at path key i) (\<lambda>ok.
             if \<not> ok then Err () else Ok (fp # seen_fps, map_pubkeys @ [pk]))))
         (Suc n) m (fp # seen, pks @ [pk]) = Ok (seen', pks')"
    using Cons.prems by (auto simp: e res_bind_eq_Ok ok_or_eq_Ok split: if_splits)
  have "k \<in> set (pd_keys d) \<and> ke_fingerprint k = fp"
    using k(1) by (auto simp: key_expr_for_fingerprint_def find_Some_iff)
  then show ?case using Cons.IH [OF rest] k(2,3) e by auto
qed simp

lemma check_v4_Ok:
  assumes "check_v4_change pr out d i = Ok ()"
  shows "change_map_ok pr d i (out_bip32_derivation out)"
proof -
  let ?m = "out_bip32_derivation out"
  obtain derived seen pks where r: "derive_at pr d i = Ok derived" "length ?m = 3"
      "for_in (\<lambda>_ (pk, fp, path) (seen_fps, map_pubkeys).
           if fp \<in> set seen_fps then Err ()
           else
             res_bind (ok_or (key_expr_for_fingerprint d fp) ()) (\<lambda>key.
             res_bind (path_is_change_at path key i) (\<lambda>ok.
             if \<not> ok then Err () else Ok (fp # seen_fps, map_pubkeys @ [pk]))))
         0 ?m ([], []) = Ok (seen, pks)"
      "set (map dc_public_key (do_children derived)) = set pks"
    using assms unfolding check_v4_change_def
    by (auto simp: res_bind_eq_Ok res_map_err_eq_Ok split: if_splits)
  note l = change_loop [OF r(3)]
  have "\<exists>k \<in> set (pd_keys d). ke_fingerprint k = fp \<and> (\<exists>origin.
        derivation_path_from_str (''m/'' @ ke_origin_path k) = Ok origin
        \<and> length path = 6 \<and> take 4 path = take 4 origin \<and> path ! 4 = Normal 1 \<and> path ! 5 = Normal i)"
    if "(pk, fp, path) \<in> set ?m" for pk fp path
    using l that by (fastforce simp: path_is_change_at_Ok origin_matches_prefix_Ok)
  then show ?thesis using l r(1,2,4) unfolding change_map_ok_def by auto
qed

lemma classify_output_Ok:
  assumes "classify_output pr p change policy i txout = Ok c"
  shows "co_amount_sats c = to_value txout"
    and "\<exists>address. address_from_script pr (to_script_pubkey txout) (vp_network policy) = Some address
      \<and> co_address c = address
      \<and> (if co_is_change c
          then i < length (ps_outputs p) \<and> (\<exists>d idx. change = Some d \<and> idx < vp_gap_limit policy
            \<and> derives_to pr d idx (to_script_pubkey txout)
            \<and> change_map_ok pr d idx (out_bip32_derivation (ps_outputs p ! i)))
          else (\<exists>r \<in> set (vp_declared_recipients policy). addresses_equal address r))"
  using assms find_index_Some check_v4_Ok
  by (auto simp: classify_output_def output_address_def res_bind_eq_Ok res_map_err_eq_Ok ok_or_eq_Ok
      index_res_Ok list_ex_iff split: if_splits) blast+

lemma classify_outputs_Ok:
  assumes "classify_outputs pr p change policy = Ok cs"
  shows "length cs = length (tx_output (ps_unsigned_tx p))"
    and "j < length cs \<Longrightarrow> classify_output pr p change policy j (tx_output (ps_unsigned_tx p) ! j) = Ok (cs ! j)"
  using assms unfolding classify_outputs_def for_in_collect by auto

lemma classified_amounts:
  assumes "classify_outputs pr p change policy = Ok cs"
  shows "map co_amount_sats cs = map to_value (tx_output (ps_unsigned_tx p))"
proof (rule nth_equalityI)
  fix j assume "j < length (map co_amount_sats cs)"
  then show "map co_amount_sats cs ! j = map to_value (tx_output (ps_unsigned_tx p)) ! j"
    using classify_outputs_Ok(1) [OF assms] classify_output_Ok(1) [OF classify_outputs_Ok(2) [OF assms, of j]]
    by simp
qed (simp add: classify_outputs_Ok(1) [OF assms])

subsection \<open>Amounts\<close>

lemma input_sum:
  "for_in (\<lambda>_ inp sum_in. res_bind (expect (in_witness_utxo inp)) (\<lambda>utxo.
      ok_or (checked_add sum_in (to_value utxo)) e)) i ins (z :: u64) = Ok t \<Longrightarrow>
   unat t = unat z + (\<Sum>inp\<leftarrow>ins. unat (to_value (the (in_witness_utxo inp))))"
proof (induction ins arbitrary: i z)
  case (Cons x ins)
  then obtain u c where "in_witness_utxo x = Some u" "checked_add z (to_value u) = Some c"
      "for_in (\<lambda>_ inp sum_in. res_bind (expect (in_witness_utxo inp)) (\<lambda>utxo.
        ok_or (checked_add sum_in (to_value utxo)) e)) (Suc i) ins c = Ok t"
    by (auto simp: res_bind_eq_Ok expect_eq_Ok ok_or_eq_Ok)
  then show ?case using Cons.IH [of "Suc i" c] by (simp add: checked_add_eq_Some)
qed simp

lemma div_ceil_bound:
  assumes "div_ceil (a :: u64) b = Some r"
  shows "unat a \<le> unat r * unat b"
proof -
  let ?q = "unat a div unat b" and ?m = "unat a mod unat b"
  have b: "0 < unat b" using assms by (auto simp: div_ceil_def unat_eq_0 split: if_splits intro: gr0I)
  have a: "unat a = ?q * unat b + ?m" by (simp add: div_mult_mod_eq)
  show ?thesis
  proof (cases "?m = 0")
    case True
    then have "unat r = ?q"
      using assms by (auto simp: div_ceil_def word_less_nat_alt unat_mod unat_div split: if_splits)
    then show ?thesis using a True by simp
  next
    case False
    then have "unat b \<noteq> 1" by auto
    then have "2 \<le> unat b" using b by linarith
    then have "?q \<le> unat a div 2" by (rule div_le_mono2 [rotated]) simp
    then have "?q + 1 < 2 ^ 64" using unat_lt2p [of a] by simp
    moreover have "r = a div b + 1"
      using assms False by (auto simp: div_ceil_def word_less_nat_alt unat_mod split: if_splits)
    ultimately have "unat r = ?q + 1" by (simp add: unat_word_ariths unat_div)
    moreover have "?m < unat b" using b by simp
    ultimately have "unat a < unat b + ?q * unat b" using a by linarith
    then show ?thesis using \<open>unat r = ?q + 1\<close> by simp
  qed
qed

lemma check_v5_Ok:
  assumes "check_v5 pr p policy = Ok (fee, rate)"
  shows "(\<Sum>inp\<leftarrow>ps_inputs p. unat (to_value (the (in_witness_utxo inp))))
      = (\<Sum>out\<leftarrow>tx_output (ps_unsigned_tx p). unat (to_value out)) + unat fee"
    and "(\<Sum>inp\<leftarrow>ps_inputs p. unat (to_value (the (in_witness_utxo inp)))) < 2 ^ 64"
    and "0 < fee" and "fee \<le> vp_max_absolute_fee policy"
    and "vp_declared_fee_sats policy = None \<or> vp_declared_fee_sats policy = Some fee"
    and "rate \<le> vp_max_feerate policy"
    and "unat fee \<le> unat rate * unat (max (tx_vsize pr (ps_unsigned_tx p)) 1)"
proof -
  obtain sum_in sum_out where r:
      "for_in (\<lambda>_ inp sum_in. res_bind (expect (in_witness_utxo inp)) (\<lambda>utxo.
         ok_or (checked_add sum_in (to_value utxo)) VE_FeeNonPositive)) 0 (ps_inputs p) 0 = Ok sum_in"
      "for_in (\<lambda>_ txout sum_out. ok_or (checked_add sum_out (to_value txout)) VE_FeeNonPositive)
         0 (tx_output (ps_unsigned_tx p)) 0 = Ok sum_out"
      "checked_sub sum_in sum_out = Some fee" "fee \<noteq> 0" "\<not> vp_max_absolute_fee policy < fee"
      "vp_declared_fee_sats policy = None \<or> vp_declared_fee_sats policy = Some fee"
      "div_ceil fee (max (tx_vsize pr (ps_unsigned_tx p)) 1) = Some rate"
      "\<not> vp_max_feerate policy < rate"
    using assms unfolding check_v5_def
    by (auto simp: res_bind_eq_Ok ok_or_eq_Ok expect_eq_Ok Let_def split: if_splits option.splits)
  have si: "unat sum_in = (\<Sum>inp\<leftarrow>ps_inputs p. unat (to_value (the (in_witness_utxo inp))))"
    using input_sum [OF r(1)] by simp
  have so: "unat sum_out = (\<Sum>out\<leftarrow>tx_output (ps_unsigned_tx p). unat (to_value out))"
    using r(2) unfolding for_in_checked_sum by simp
  show "(\<Sum>inp\<leftarrow>ps_inputs p. unat (to_value (the (in_witness_utxo inp))))
      = (\<Sum>out\<leftarrow>tx_output (ps_unsigned_tx p). unat (to_value out)) + unat fee"
    using r(3) si so by (simp add: checked_sub_eq_Some)
  show "(\<Sum>inp\<leftarrow>ps_inputs p. unat (to_value (the (in_witness_utxo inp)))) < 2 ^ 64"
    using si unat_lt2p [of sum_in] by simp
  show "0 < fee" "fee \<le> vp_max_absolute_fee policy" "rate \<le> vp_max_feerate policy"
    "vp_declared_fee_sats policy = None \<or> vp_declared_fee_sats policy = Some fee"
    using r(4,5,6,8) by (simp_all add: word_neq_0_conv not_less)
  show "unat fee \<le> unat rate * unat (max (tx_vsize pr (ps_unsigned_tx p)) 1)"
    using div_ceil_bound [OF r(7)] .
qed

lemma verdict_fold:
  "foldl verdict_step (a, c, r) cs = (a', c', r') \<Longrightarrow>
   a' = foldl sat_add a (map co_amount_sats (filter (\<lambda>x. \<not> co_is_change x) cs))
   \<and> c' = foldl sat_add c (map co_amount_sats (filter co_is_change cs))"
  by (induction cs arbitrary: a c r) (auto simp: verdict_step_def)

lemma sum_list_partition:
  "(\<Sum>x\<leftarrow>filter (\<lambda>x. \<not> P x) xs. f x) + (\<Sum>x\<leftarrow>filter P xs. f x) = (\<Sum>x\<leftarrow>xs. f x :: nat)"
  by (induction xs) auto

lemma check_v10_Ok:
  "check_v10 pr p = Ok () \<longleftrightarrow>
     list_all (\<lambda>inp. (in_sighash_type inp = None \<or> in_sighash_type inp = Some 1)
       \<and> list_all (\<lambda>(k, sg). sig_sighash_type sg = SighashAll
            \<and> normalize_s pr (sig_signature sg) = sig_signature sg) (in_partial_sigs inp)) (ps_inputs p)"
proof -
  have all: "is_sighash_all n \<longleftrightarrow> n = 1" for n
    by (auto simp: is_sighash_all_def sighash_from_standard_def)
  have sigs: "for_check (\<lambda>_ (_, sg).
           if sig_sighash_type sg \<noteq> SighashAll then Err (VE_NonSighashAll i)
           else if normalize_s pr (sig_signature sg) \<noteq> sig_signature sg then Err (VE_BadSignature i)
           else Ok ()) 0 m = Ok () \<longleftrightarrow> list_all (\<lambda>(k, sg). sig_sighash_type sg = SighashAll
            \<and> normalize_s pr (sig_signature sg) = sig_signature sg) m" for i and m :: "(public_key \<times> signature) list"
    by (rule for_check_iff) (auto split: if_splits)
  show ?thesis
    unfolding check_v10_def
    by (rule for_check_iff) (auto simp: res_bind_eq_Ok all sigs split: option.splits if_splits)
qed

subsection \<open>An accepted PSBT\<close>

lemma verify_Ok:
  assumes "verify pr p descriptor policy = Ok v"
  obtains receive change cs where
    "parse pr descriptor = Ok receive"
    "change = None \<and> vp_change_descriptor policy = None
      \<or> (\<exists>s d. vp_change_descriptor policy = Some s \<and> parse pr s = Ok d \<and> change = Some d)"
    "check_v8 p = Ok ()" "check_v9 p = Ok ()" "check_v7 p policy = Ok ()"
    "check_v2 pr p receive change policy = Ok ()"
    "classify_outputs pr p change policy = Ok cs"
    "check_v5 pr p policy = Ok (vd_fee_sats v, vd_feerate_sat_vb v)"
    "check_v6 cs policy = Ok ()" "check_v10 pr p = Ok ()"
    "vd_amount_sats v = foldl sat_add 0 (map co_amount_sats (filter (\<lambda>x. \<not> co_is_change x) cs))"
    "vd_change_sats v = foldl sat_add 0 (map co_amount_sats (filter co_is_change cs))"
proof -
  obtain receive change cs fee rate where r:
    "parse pr descriptor = Ok receive"
    "(case vp_change_descriptor policy of
         Some s \<Rightarrow> res_bind (res_map_err VE_Descriptor (parse pr s)) (\<lambda>d. Ok (Some d))
       | None \<Rightarrow> Ok None) = Ok change"
    "check_v8 p = Ok ()" "check_v9 p = Ok ()" "check_v7 p policy = Ok ()"
    "check_v2 pr p receive change policy = Ok ()" "classify_outputs pr p change policy = Ok cs"
    "check_v5 pr p policy = Ok (fee, rate)" "check_v6 cs policy = Ok ()" "check_v10 pr p = Ok ()"
    and v: "(let (amount_sats, change_sats, recipient) = foldl verdict_step (0, 0, []) cs;
         recipient = (case vp_declared_recipients policy of decl # _ \<Rightarrow> decl | [] \<Rightarrow> recipient)
     in Ok \<lparr>vd_ok = True, vd_recipient = recipient, vd_amount_sats = amount_sats,
            vd_change_sats = change_sats, vd_fee_sats = fee,
            vd_feerate_sat_vb = rate\<rparr>) = (Ok v :: (psbt_verdict, verify_error) res)"
    using assms unfolding verify_def by (auto simp: res_bind_eq_Ok res_map_err_eq_Ok)
  obtain a c s where f: "foldl verdict_step (0, 0, []) cs = (a, c, s)" using prod_cases3 by blast
  show thesis
  proof (rule that)
    show "change = None \<and> vp_change_descriptor policy = None
      \<or> (\<exists>s d. vp_change_descriptor policy = Some s \<and> parse pr s = Ok d \<and> change = Some d)"
      using r(2) by (auto simp: res_bind_eq_Ok res_map_err_eq_Ok split: option.splits)
    show "check_v5 pr p policy = Ok (vd_fee_sats v, vd_feerate_sat_vb v)"
      using r(8) v f by (auto simp: Let_def)
    show "vd_amount_sats v = foldl sat_add 0 (map co_amount_sats (filter (\<lambda>x. \<not> co_is_change x) cs))"
      "vd_change_sats v = foldl sat_add 0 (map co_amount_sats (filter co_is_change cs))"
      using verdict_fold [OF f] v f by (auto simp: Let_def)
  qed (fact r)+
qed

subsection \<open>Panics\<close>

lemma scan_indices_not_Panic:
  assumes "length (pd_keys d) = 3"
  shows "scan_indices pr spk d hint is \<noteq> Panic"
  using derive_at_not_Panic [OF assms]
  by (induction "is") (auto simp: res_bind_eq_Panic res_map_err_eq_Panic)

lemma find_index_not_Panic:
  assumes "length (pd_keys d) = 3"
  shows "find_index_matching pr spk d gap hint \<noteq> Panic"
  using derive_at_not_Panic [OF assms] scan_indices_not_Panic [OF assms]
  by (auto simp: find_index_matching_def res_bind_eq_Panic res_map_err_eq_Panic split: option.splits)

lemma origin_matches_prefix_not_Panic:
  assumes "origin_grammar s" and "\<not> starts_with s ''m/''" and "4 \<le> length path"
  shows "origin_matches_prefix path s \<noteq> Panic"
proof -
  obtain c where c: "derivation_path_from_str (''m/'' @ s) = Ok [Hardened 48, c, Hardened 0, Hardened 2]"
    using plain_origin_parses [OF assms(1,2)] by blast
  have "prefix_all path [a, b, d, e] is \<noteq> Panic" if "\<forall>i \<in> set is. i < 4" for a b d e "is"
    using that assms(3) by (induction "is") (auto simp: res_bind_eq_Panic index_res_def)
  then show ?thesis using c by (simp add: origin_matches_prefix_def)
qed

lemma check_v4_not_Panic:
  assumes "plain_origins d"
  shows "check_v4_change pr out d i \<noteq> Panic"
proof -
  have path: "path_is_change_at path k i \<noteq> Panic" if "key_expr_for_fingerprint d fp = Some k" for path k fp
  proof -
    have "k \<in> set (pd_keys d)" using that by (auto simp: key_expr_for_fingerprint_def find_Some_iff)
    then show ?thesis
      using assms origin_matches_prefix_not_Panic [of "ke_origin_path k" path]
      by (auto simp: path_is_change_at_def plain_origins_def split: child_number.splits)
  qed
  have "for_in (\<lambda>_ (pk, fp, path) (seen_fps, map_pubkeys).
           if fp \<in> set seen_fps then Err ()
           else
             res_bind (ok_or (key_expr_for_fingerprint d fp) ()) (\<lambda>key.
             res_bind (path_is_change_at path key i) (\<lambda>ok.
             if \<not> ok then Err () else Ok (fp # seen_fps, map_pubkeys @ [pk])))) 0 m st \<noteq> Panic" for m st
    by (rule for_in_not_Panic) (auto simp: res_bind_eq_Panic ok_or_eq_Ok path split: prod.splits)
  then show ?thesis
    using assms derive_at_not_Panic
    by (auto simp: check_v4_change_def res_bind_eq_Panic res_map_err_eq_Panic plain_origins_def)
qed

lemma classify_outputs_not_Panic:
  assumes "check_v8 p = Ok ()" and "\<And>d. change = Some d \<Longrightarrow> plain_origins d"
  shows "classify_outputs pr p change policy \<noteq> Panic"
proof -
  have one: "classify_output pr p change policy j t \<noteq> Panic" if "j < length (ps_outputs p)" for j t
    using that assms(2) find_index_not_Panic check_v4_not_Panic
    by (auto simp: classify_output_def output_address_def res_bind_eq_Panic res_map_err_eq_Panic index_res_def
        ok_or_eq_Ok plain_origins_def)
  have "for_in (\<lambda>i txout out. res_bind (classify_output pr p change policy i txout) (\<lambda>c. Ok (out @ [c])))
      k ts acc \<noteq> Panic" if "k + length ts \<le> length (ps_outputs p)" for k ts acc
    using that one by (induction ts arbitrary: k acc) (auto simp: res_bind_eq_Panic)
  then show ?thesis
    using assms(1) by (auto simp: classify_outputs_def check_v8_Ok)
qed

lemma check_v2_not_Panic:
  assumes "check_v9 p = Ok ()" and "length (pd_keys receive) = 3" and "\<And>d. change = Some d \<Longrightarrow> length (pd_keys d) = 3"
  shows "check_v2 pr p receive change policy \<noteq> Panic"
  unfolding check_v2_def
proof (rule for_check_not_Panic)
  fix j inp assume "inp \<in> set (ps_inputs p)"
  then have "in_witness_utxo inp \<noteq> None" using assms(1) by (simp add: check_v9_Ok list_all_iff)
  then show "res_bind (expect (in_witness_utxo inp)) (\<lambda>utxo.
       res_bind (matches_any_derived pr (to_script_pubkey utxo) receive change (vp_gap_limit policy)
           (bip32_index_hint (in_bip32_derivation inp))) (\<lambda>ok.
       if \<not> ok then Err (VE_ForeignInput j) else Ok ())) \<noteq> Panic"
    using find_index_not_Panic assms(2,3)
    by (auto simp: matches_any_derived_def res_bind_eq_Panic split: option.splits)
qed

lemma check_v7_not_Panic:
  assumes "check_v9 p = Ok ()"
  shows "check_v7 p policy \<noteq> Panic"
  unfolding check_v7_def
  using assms
  by (intro for_check_not_Panic) (auto simp: check_v9_Ok list_all_iff res_bind_eq_Panic dest!: set_zip_rightD
      split: if_splits)

lemma check_v5_not_Panic:
  assumes "check_v9 p = Ok ()"
  shows "check_v5 pr p policy \<noteq> Panic"
proof -
  have "max v 1 \<noteq> (0 :: u64)" for v by (metis max.cobounded2 word_gt_0_no zero_neq_one word_le_0_iff)
  then have dc: "div_ceil f (max v 1) \<noteq> None" for f v :: u64 by (simp add: div_ceil_def)
  have ins: "for_in (\<lambda>_ inp sum_in. res_bind (expect (in_witness_utxo inp)) (\<lambda>utxo.
      ok_or (checked_add sum_in (to_value utxo)) VE_FeeNonPositive)) k ins (z :: u64) \<noteq> Panic"
    if "list_all (\<lambda>x. in_witness_utxo x \<noteq> None) ins" for k ins z
    using that by (induction ins arbitrary: k z) (auto simp: res_bind_eq_Panic)
  have outs: "for_in (\<lambda>_ txout sum_out. ok_or (checked_add sum_out (to_value txout)) VE_FeeNonPositive)
      k ts (z :: u64) \<noteq> Panic" for k ts z
    by (rule for_in_not_Panic) simp
  show ?thesis
    using assms dc unfolding check_v5_def check_v9_Ok
    by (auto simp: res_bind_eq_Panic ins outs Let_def split: option.splits)
qed

lemma check_v8_not_Panic: "check_v8 p \<noteq> Panic"
  by (auto simp: check_v8_def Let_def res_bind_eq_Panic for_check_not_Panic)

lemma check_v10_not_Panic: "check_v10 pr p \<noteq> Panic"
  unfolding check_v10_def
  by (intro for_check_not_Panic) (auto simp: res_bind_eq_Panic for_check_not_Panic split: option.splits prod.splits)

lemma parse_plain_origins:
  assumes "parse pr s = Ok d" and "\<forall>k \<in> set (pd_keys d). \<not> starts_with (ke_origin_path k) ''m/''"
  shows "plain_origins d"
  using assms(1) by (rule parse_keys) (use assms(2) in \<open>auto simp: plain_origins_def\<close>)

lemma parse_three: "parse pr s = Ok d \<Longrightarrow> length (pd_keys d) = 3"
  by (rule parse_keys) auto

subsection \<open>The sample is accepted\<close>

lemma sample_body_charset: "set (sample_body b) \<subseteq> set INPUT_CHARSET" "sample_body b \<noteq> []"
  by (cases b; simp add: sample_body_def sample_key_text_def branch_suffix_def INPUT_CHARSET_def)+

lemma sample_text_facts:
  "verify_checksum (sample_text b) = Ok ()" "take (length (sample_text b) - 9) (sample_text b) = sample_body b"
proof -
  obtain t where t: "create_checksum (sample_body b) = Ok t"
    using create_checksum_eq [OF sample_body_charset(1)] by blast
  then have "sample_text b = t" by (simp add: sample_text_def)
  then show "verify_checksum (sample_text b) = Ok ()"
      "take (length (sample_text b) - 9) (sample_text b) = sample_body b"
    using create_checksum_verifies [OF sample_body_charset(2) t] by auto
qed

lemma sample_key_grammar:
  assumes "fp_from_hex fp = Ok (Fingerprint f f f f)" and "set [c] \<inter> set ''<;*,)'' = {}"
  shows "key_grammar sample_prims (sample_key c f b) (sample_key_text fp c b)"
proof -
  have "CHR ''h'' \<in> hardened_markers" by (simp add: hardened_markers_def)
  then have "origin_grammar ''48h/0h/0h/2h''" unfolding origin_grammar_def by fastforce
  moreover have "xpub_grammar sample_prims (''xpub'' @ [c])"
    using assms(2) by (auto simp: xpub_grammar_def starts_with_def sample_prims_def)
  ultimately show ?thesis
    using assms(1) unfolding key_grammar_def sample_key_text_def sample_key_def
    by (auto intro!: exI [of _ fp])
qed

lemma sample_fingerprints:
  "fp_from_hex ''03030303'' = Ok (Fingerprint 3 3 3 3)" "fp_from_hex ''01010101'' = Ok (Fingerprint 1 1 1 1)"
  "fp_from_hex ''02020202'' = Ok (Fingerprint 2 2 2 2)"
  by code_simp+

lemma sample_parse: "parse sample_prims (sample_text b) = Ok (sample_descriptor b)"
proof -
  note k = sample_fingerprints [THEN sample_key_grammar]
  have "descriptor_grammar sample_prims (sample_descriptor b) (sample_body b)"
    unfolding descriptor_grammar_def sample_body_def sample_descriptor_def
    using k(1) [of "CHR ''C''" b] k(2) [of "CHR ''A''" b] k(3) [of "CHR ''B''" b] by auto
  then show ?thesis unfolding parse_body using sample_text_facts by simp
qed

lemma sample_out:
  assumes "i \<le> MAX_NON_HARDENED_INDEX"
  shows "derive_at sample_prims (sample_descriptor b) i = Ok (sample_out b i)"
  using sample_derive_at [OF assms, of b] by (auto simp: sample_out_def)

lemma small_index: "(5 :: u32) \<le> MAX_NON_HARDENED_INDEX" "(3 :: u32) \<le> MAX_NON_HARDENED_INDEX"
  by (simp_all add: MAX_NON_HARDENED_INDEX_def)

lemma sample_children:
  assumes "i \<le> MAX_NON_HARDENED_INDEX"
  shows "\<exists>k0 k1 k2. sample_map b i =
    [(k0, Fingerprint 3 3 3 3, [Hardened 48, Hardened 0, Hardened 0, Hardened 2, Normal (branch_index b), Normal i]),
     (k1, Fingerprint 1 1 1 1, [Hardened 48, Hardened 0, Hardened 0, Hardened 2, Normal (branch_index b), Normal i]),
     (k2, Fingerprint 2 2 2 2, [Hardened 48, Hardened 0, Hardened 0, Hardened 2, Normal (branch_index b), Normal i])]
    \<and> map dc_public_key (do_children (sample_out b i)) = [k0, k1, k2]
    \<and> length (do_script_pubkey (sample_out b i)) = 34"
proof -
  have k: "pd_keys (sample_descriptor b)
      = [sample_key (CHR ''C'') 3 b, sample_key (CHR ''A'') 1 b, sample_key (CHR ''B'') 2 b]"
    by (simp add: sample_descriptor_def)
  have fp: "ke_fingerprint (sample_key c f b) = Fingerprint f f f f" for c f by (simp add: sample_key_def)
  show ?thesis
    using sample_out [OF assms, of b] unfolding derive_at_Ok [OF k]
    by (auto simp: sample_map_def Let_def derive_child_Ok(1) fp p2wsh_script_pubkey_def)
      (simp add: sample_prims_def)
qed

lemma sample_find:
  assumes "i < gap" and "i \<le> MAX_NON_HARDENED_INDEX"
  shows "find_index_matching sample_prims (do_script_pubkey (sample_out b i)) (sample_descriptor b) gap (Some i) = Ok (Some i)"
  using assms sample_out [OF assms(2)] by (simp add: find_index_matching_def)

lemma sample_hint:
  assumes "i \<le> MAX_NON_HARDENED_INDEX"
  shows "bip32_index_hint (sample_map b i) = Some i"
  using sample_children [OF assms, of b] by (auto simp: bip32_index_hint_def)

lemma sample_origin_path:
  "derivation_path_from_str ''m/48h/0h/0h/2h'' = Ok [Hardened 48, Hardened 0, Hardened 0, Hardened 2]"
  using origin_derivation_path [of "''0''" "CHR ''h''" "CHR ''h''" "CHR ''h''" "CHR ''h''"]
  by (simp add: hardened_markers_def small_decimals)

lemma sample_v4:
  assumes "i \<le> MAX_NON_HARDENED_INDEX"
  shows "check_v4_change sample_prims \<lparr>out_bip32_derivation = sample_map BranchInternal i, out_proprietary = []\<rparr>
    (sample_descriptor BranchInternal) i = Ok ()"
proof -
  have "origin_matches_prefix [Hardened 48, Hardened 0, Hardened 0, Hardened 2, Normal 1, Normal i] ''48h/0h/0h/2h'' = Ok True"
    unfolding origin_matches_prefix_Ok using sample_origin_path by simp
  then have path: "path_is_change_at [Hardened 48, Hardened 0, Hardened 0, Hardened 2, Normal 1, Normal i]
      (sample_key c f BranchInternal) i = Ok True" for c f
    by (simp add: path_is_change_at_def sample_key_def)
  have key: "key_expr_for_fingerprint (sample_descriptor BranchInternal) (Fingerprint 3 3 3 3) = Some (sample_key (CHR ''C'') 3 BranchInternal)"
    "key_expr_for_fingerprint (sample_descriptor BranchInternal) (Fingerprint 1 1 1 1) = Some (sample_key (CHR ''A'') 1 BranchInternal)"
    "key_expr_for_fingerprint (sample_descriptor BranchInternal) (Fingerprint 2 2 2 2) = Some (sample_key (CHR ''B'') 2 BranchInternal)"
    by (simp_all add: key_expr_for_fingerprint_def sample_descriptor_def sample_key_def)
  obtain k0 k1 k2 where m: "sample_map BranchInternal i =
    [(k0, Fingerprint 3 3 3 3, [Hardened 48, Hardened 0, Hardened 0, Hardened 2, Normal 1, Normal i]),
     (k1, Fingerprint 1 1 1 1, [Hardened 48, Hardened 0, Hardened 0, Hardened 2, Normal 1, Normal i]),
     (k2, Fingerprint 2 2 2 2, [Hardened 48, Hardened 0, Hardened 0, Hardened 2, Normal 1, Normal i])]"
    "map dc_public_key (do_children (sample_out BranchInternal i)) = [k0, k1, k2]"
    using sample_children [OF assms, of BranchInternal] by (auto simp: branch_index_def)
  have "set (map dc_public_key (do_children (sample_out BranchInternal i))) = {k0, k1, k2}"
    using m(2) by simp
  then show ?thesis
    using m(1) by (simp add: check_v4_change_def sample_out [OF assms] path key)
qed

lemma sample_classified:
  "classify_outputs sample_prims sample_psbt (Some (sample_descriptor BranchInternal)) sample_policy =
   Ok [\<lparr>co_is_change = False, co_amount_sats = 60000, co_address = ''j''\<rparr>,
       \<lparr>co_is_change = True, co_amount_sats = 39000,
        co_address = map (\<lambda>b. char_of (unat b)) (do_script_pubkey (sample_out BranchInternal 3))\<rparr>]"
proof -
  let ?spk = "do_script_pubkey (sample_out BranchInternal 3)"
  have adr: "address_from_script sample_prims spk net = Some (map (\<lambda>b. char_of (unat b)) spk)" for spk net
    by (simp add: sample_prims_def)
  have len: "length ?spk = 34" using sample_children [OF small_index(2), of BranchInternal] by blast
  then have "length (map to_ascii_lowercase (map (\<lambda>b. char_of (unat b)) ?spk)) \<noteq> length (map to_ascii_lowercase ''j'')"
    by simp
  then have ne: "\<not> addresses_equal (map (\<lambda>b. char_of (unat b)) ?spk) ''j''"
    unfolding addresses_equal_def by metis
  have "(3 :: u32) < 20" by simp
  note f = sample_find [OF this small_index(2), of BranchInternal]
  have j: "char_of (106 :: nat) = CHR ''j''" by code_simp
  have c0: "classify_output sample_prims sample_psbt (Some (sample_descriptor BranchInternal)) sample_policy 0
      \<lparr>to_value = 60000, to_script_pubkey = [0x6a]\<rparr>
    = Ok \<lparr>co_is_change = False, co_amount_sats = 60000, co_address = ''j''\<rparr>"
    by (simp add: classify_output_def output_address_def adr j addresses_equal_def sample_policy_def)
  have out1: "index_res (ps_outputs sample_psbt) (Suc 0)
      = Ok \<lparr>out_bip32_derivation = sample_map BranchInternal 3, out_proprietary = []\<rparr>"
    by (simp add: index_res_def sample_psbt_def)
  have c1: "classify_output sample_prims sample_psbt (Some (sample_descriptor BranchInternal)) sample_policy (Suc 0)
      \<lparr>to_value = 39000, to_script_pubkey = ?spk\<rparr>
    = Ok \<lparr>co_is_change = True, co_amount_sats = 39000, co_address = map (\<lambda>b. char_of (unat b)) ?spk\<rparr>"
    using sample_v4 [OF small_index(2)] f sample_hint [OF small_index(2), of BranchInternal] ne
    by (simp add: classify_output_def output_address_def adr out1 sample_policy_def)
  have "tx_output (ps_unsigned_tx sample_psbt) = [\<lparr>to_value = 60000, to_script_pubkey = [0x6a]\<rparr>,
      \<lparr>to_value = 39000, to_script_pubkey = ?spk\<rparr>]"
    by (simp add: sample_psbt_def sample_tx_def)
  then show ?thesis by (simp add: classify_outputs_def c0 c1)
qed

lemma sample_verifies:
  "verify sample_prims sample_psbt (sample_text BranchExternal) sample_policy =
   Ok \<lparr>vd_ok = True, vd_recipient = ''j'', vd_amount_sats = 60000, vd_change_sats = 39000,
       vd_fee_sats = 1000, vd_feerate_sat_vb = 9\<rparr>"
proof -
  have v8: "check_v8 sample_psbt = Ok ()"
    by (simp add: check_v8_Ok sample_psbt_def sample_tx_def MAX_PSBT_INS_OR_OUTS_def)
  have v9: "check_v9 sample_psbt = Ok ()"
    by (simp add: check_v9_Ok sample_psbt_def)
  have v7: "check_v7 sample_psbt sample_policy = Ok ()"
    by (simp add: check_v7_Ok sample_psbt_def sample_tx_def sample_policy_def btree_get_def)
  have "(5 :: u32) < 20" by simp
  note f = sample_find [OF this small_index(1), of BranchExternal]
  have v2: "check_v2 sample_prims sample_psbt (sample_descriptor BranchExternal)
      (Some (sample_descriptor BranchInternal)) sample_policy = Ok ()"
    using f sample_hint [OF small_index(1), of BranchExternal]
    by (simp add: check_v2_def sample_psbt_def sample_policy_def sample_utxo_def matches_any_derived_def)
  have vs: "tx_vsize sample_prims sample_tx = 120" by (simp add: sample_prims_def sample_tx_def)
  have mx: "max (120 :: u64) 1 = 120" by (simp add: max_def word_le_nat_alt)
  have outs: "tx_output sample_tx = [\<lparr>to_value = 60000, to_script_pubkey = [0x6a]\<rparr>,
      \<lparr>to_value = 39000, to_script_pubkey = do_script_pubkey (sample_out BranchInternal 3)\<rparr>]"
    by (simp add: sample_tx_def)
  have v5: "check_v5 sample_prims sample_psbt sample_policy = Ok (1000, 9)"
    by (simp add: check_v5_def sample_psbt_def sample_policy_def sample_utxo_def vs outs checked_add_def
        checked_sub_def div_ceil_def mx)
  have v10: "check_v10 sample_prims sample_psbt = Ok ()"
    by (simp add: check_v10_Ok sample_psbt_def)
  have pol: "vp_change_descriptor sample_policy = Some (sample_text BranchInternal)"
      "vp_declared_recipients sample_policy = [''j'']" "vp_declared_amount_sats sample_policy = 60000"
    by (simp_all add: sample_policy_def)
  show ?thesis
    unfolding verify_def
    by (simp add: sample_parse v8 v9 v7 v2 v5 v10 sample_classified check_v6_def verdict_step_def sat_add_def pol)
qed

section \<open>Properties\<close>

text \<open>
  C1: an accepted PSBT conserves value. The amount paid out, the change and the fee of the
  verdict add up exactly to the value of the inputs, without overflow; the amount is the one
  the user declared; the fee is positive, within the absolute cap, equal to the pinned fee if
  one was pinned, and within the feerate cap for the size of the unsigned transaction.
\<close>

theorem verify_conserves_value:
  assumes "verify pr p descriptor policy = Ok v"
  shows "unat (vd_amount_sats v) + unat (vd_change_sats v) + unat (vd_fee_sats v)
      = (\<Sum>inp\<leftarrow>ps_inputs p. unat (to_value (the (in_witness_utxo inp))))
    \<and> vd_amount_sats v = vp_declared_amount_sats policy
    \<and> 0 < vd_fee_sats v \<and> vd_fee_sats v \<le> vp_max_absolute_fee policy
    \<and> (case vp_declared_fee_sats policy of None \<Rightarrow> True | Some f \<Rightarrow> vd_fee_sats v = f)
    \<and> vd_feerate_sat_vb v \<le> vp_max_feerate policy
    \<and> unat (vd_fee_sats v) \<le> unat (vd_feerate_sat_vb v) * unat (max (tx_vsize pr (ps_unsigned_tx p)) 1)"
  using assms
proof (rule verify_Ok)
  fix receive change cs
  assume cl: "classify_outputs pr p change policy = Ok cs"
    and v5: "check_v5 pr p policy = Ok (vd_fee_sats v, vd_feerate_sat_vb v)"
    and v6: "check_v6 cs policy = Ok ()"
    and am: "vd_amount_sats v = foldl sat_add 0 (map co_amount_sats (filter (\<lambda>x. \<not> co_is_change x) cs))"
    and ch: "vd_change_sats v = foldl sat_add 0 (map co_amount_sats (filter co_is_change cs))"
  note f = check_v5_Ok [OF v5]
  let ?A = "\<Sum>c\<leftarrow>filter (\<lambda>x. \<not> co_is_change x) cs. unat (co_amount_sats c)"
  let ?C = "\<Sum>c\<leftarrow>filter co_is_change cs. unat (co_amount_sats c)"
  have "?A + ?C = (\<Sum>c\<leftarrow>cs. unat (co_amount_sats c))" by (rule sum_list_partition)
  also have "\<dots> = (\<Sum>out\<leftarrow>tx_output (ps_unsigned_tx p). unat (to_value out))"
    using arg_cong [OF classified_amounts [OF cl], of "\<lambda>l. sum_list (map unat l)"] by (simp add: o_def)
  finally have parts: "?A + ?C = (\<Sum>out\<leftarrow>tx_output (ps_unsigned_tx p). unat (to_value out))" .
  have lt: "?A < 2 ^ 64" "?C < 2 ^ 64" using parts f(1,2) by linarith+
  have "unat (vd_amount_sats v) = ?A" "unat (vd_change_sats v) = ?C"
    using lt unfolding am ch fold_sat_add by (simp_all add: o_def)
  moreover have "vd_amount_sats v = vp_declared_amount_sats policy"
    using v6 am by (simp add: check_v6_def Let_def split: if_splits)
  ultimately show ?thesis using f parts by (auto split: option.splits)
qed

theorem verify_conserves_value_witness:
  "\<exists>v. verify sample_prims sample_psbt (sample_text BranchExternal) sample_policy = Ok v
     \<and> unat (vd_amount_sats v) + unat (vd_change_sats v) + unat (vd_fee_sats v) = 100000"
  using verify_conserves_value [OF sample_verifies] sample_verifies by simp

text \<open>
  C5: an accepted PSBT spends only this wallet's coins. Every input names an outpoint the
  wallet knows, with exactly the recorded amount and script, and that script is one the
  wallet derives itself from its receive or change descriptor below the gap limit.
\<close>

theorem verify_inputs_own:
  assumes "verify pr p descriptor policy = Ok v" and "j < length (tx_input (ps_unsigned_tx p))"
  shows "\<exists>u d s. btree_get (vp_known_utxos policy) (ti_previous_output (tx_input (ps_unsigned_tx p) ! j)) = Some u
    \<and> in_witness_utxo (ps_inputs p ! j) = Some u
    \<and> (s = descriptor \<or> vp_change_descriptor policy = Some s) \<and> parse pr s = Ok d
    \<and> own_script pr d (vp_gap_limit policy) (to_script_pubkey u)"
  using assms(1)
proof (rule verify_Ok)
  fix receive change cs
  assume p: "parse pr descriptor = Ok receive"
    and c: "change = None \<and> vp_change_descriptor policy = None
      \<or> (\<exists>s d. vp_change_descriptor policy = Some s \<and> parse pr s = Ok d \<and> change = Some d)"
    and v8: "check_v8 p = Ok ()" and v7: "check_v7 p policy = Ok ()"
    and v2: "check_v2 pr p receive change policy = Ok ()"
  have len: "j < length (ps_inputs p)" using v8 assms(2) by (simp add: check_v8_Ok)
  then obtain u where u: "btree_get (vp_known_utxos policy) (ti_previous_output (tx_input (ps_unsigned_tx p) ! j)) = Some u"
      "in_witness_utxo (ps_inputs p ! j) = Some u"
    using v7 assms(2) unfolding check_v7_Ok list_all_length by fastforce
  obtain d where "d = receive \<or> change = Some d" "own_script pr d (vp_gap_limit policy) (to_script_pubkey u)"
    using check_v2_Ok [OF v2 nth_mem [OF len]] u(2) by auto
  then show ?thesis using u p c by auto
qed

theorem verify_inputs_own_witness:
  "\<exists>d s. (s = sample_text BranchExternal \<or> vp_change_descriptor sample_policy = Some s) \<and> parse sample_prims s = Ok d
     \<and> own_script sample_prims d 20 (to_script_pubkey sample_utxo)"
proof -
  have gap: "vp_gap_limit sample_policy = 20" by (simp add: sample_policy_def)
  have "in_witness_utxo (ps_inputs sample_psbt ! 0) = Some sample_utxo" by (simp add: sample_psbt_def)
  then show ?thesis
    using verify_inputs_own [OF sample_verifies, of 0] unfolding gap
    by (auto simp: sample_psbt_def sample_tx_def)
qed

text \<open>
  C4: an accepted PSBT pays only where it may. Every output either pays an address that the
  user declared, or is change that the wallet derives itself from its change descriptor below
  the gap limit; and the derivation data of a change output names each key expression of the
  change descriptor once, with its own origin path, the change branch and that index, over
  exactly the derived keys.
\<close>

theorem verify_outputs_accounted:
  assumes "verify pr p descriptor policy = Ok v" and "j < length (tx_output (ps_unsigned_tx p))"
  shows "\<exists>address. address_from_script pr (to_script_pubkey (tx_output (ps_unsigned_tx p) ! j)) (vp_network policy)
      = Some address
    \<and> ((\<exists>r \<in> set (vp_declared_recipients policy). addresses_equal address r)
       \<or> (\<exists>s d i. vp_change_descriptor policy = Some s \<and> parse pr s = Ok d \<and> i < vp_gap_limit policy
            \<and> derives_to pr d i (to_script_pubkey (tx_output (ps_unsigned_tx p) ! j))
            \<and> change_map_ok pr d i (out_bip32_derivation (ps_outputs p ! j))))"
  using assms(1)
proof (rule verify_Ok)
  fix receive change cs
  assume c: "change = None \<and> vp_change_descriptor policy = None
      \<or> (\<exists>s d. vp_change_descriptor policy = Some s \<and> parse pr s = Ok d \<and> change = Some d)"
    and cl: "classify_outputs pr p change policy = Ok cs"
  have "j < length cs" using assms(2) classify_outputs_Ok(1) [OF cl] by simp
  from classify_output_Ok(2) [OF classify_outputs_Ok(2) [OF cl this]] c
  show ?thesis by (cases "co_is_change (cs ! j)") auto
qed

theorem verify_outputs_accounted_witness:
  "change_map_ok sample_prims (sample_descriptor BranchInternal) 3 (sample_map BranchInternal 3) \<or>
   (\<exists>i < 20. change_map_ok sample_prims (sample_descriptor BranchInternal) i (sample_map BranchInternal 3))"
proof -
  let ?spk = "do_script_pubkey (sample_out BranchInternal 3)"
  have len: "length ?spk = 34" using sample_children [OF small_index(2), of BranchInternal] by blast
  have o: "tx_output (ps_unsigned_tx sample_psbt) ! 1 = \<lparr>to_value = 39000, to_script_pubkey = ?spk\<rparr>"
      "ps_outputs sample_psbt ! 1 = \<lparr>out_bip32_derivation = sample_map BranchInternal 3, out_proprietary = []\<rparr>"
      "1 < length (tx_output (ps_unsigned_tx sample_psbt))"
    by (simp_all add: sample_psbt_def sample_tx_def)
  have pol: "vp_declared_recipients sample_policy = [''j'']" "vp_gap_limit sample_policy = 20"
      "vp_change_descriptor sample_policy = Some (sample_text BranchInternal)"
    by (simp_all add: sample_policy_def)
  have "\<not> addresses_equal a ''j''" if "address_from_script sample_prims ?spk net = Some a" for a net
  proof -
    have "length a = 34" using that len by (auto simp: sample_prims_def)
    then have "length (map to_ascii_lowercase a) \<noteq> length (map to_ascii_lowercase ''j'')" by simp
    then show ?thesis unfolding addresses_equal_def by metis
  qed
  then show ?thesis
    using verify_outputs_accounted [OF sample_verifies o(3)] unfolding o pol
    by (auto simp: sample_parse)
qed

text \<open>
  an accepted PSBT is well-formed and carries nothing that could be signed differently: as
  many input and output maps as the transaction has, at least one and at most a hundred
  inputs, empty script signatures and witnesses, no proprietary data, and only low-s
  SIGHASH_ALL signatures and sighash fields.
\<close>

theorem verify_structure:
  assumes "verify pr p descriptor policy = Ok v"
  shows "length (ps_inputs p) = length (tx_input (ps_unsigned_tx p))
    \<and> length (ps_outputs p) = length (tx_output (ps_unsigned_tx p))
    \<and> 0 < length (ps_inputs p) \<and> length (ps_inputs p) \<le> 100 \<and> length (ps_outputs p) \<le> 100
    \<and> list_all (\<lambda>t. ti_script_sig t = [] \<and> ti_witness t = []) (tx_input (ps_unsigned_tx p))
    \<and> ps_proprietary p = [] \<and> list_all (\<lambda>x. in_proprietary x = []) (ps_inputs p)
    \<and> list_all (\<lambda>x. out_proprietary x = []) (ps_outputs p)
    \<and> list_all (\<lambda>inp. (in_sighash_type inp = None \<or> in_sighash_type inp = Some 1)
         \<and> list_all (\<lambda>(k, sg). sig_sighash_type sg = SighashAll
              \<and> normalize_s pr (sig_signature sg) = sig_signature sg) (in_partial_sigs inp)) (ps_inputs p)"
  using assms by (rule verify_Ok) (auto simp: check_v8_Ok check_v10_Ok MAX_PSBT_INS_OR_OUTS_def)

theorem verify_structure_witness:
  "0 < length (ps_inputs sample_psbt) \<and> length (ps_inputs sample_psbt) \<le> 100"
  using verify_structure [OF sample_verifies] by blast

text \<open>
  trying the index named by the PSBT first does not change what the search finds. If every
  index below the gap limit derives, the search returns for every hint; it returns an index
  exactly when some index below the gap limit derives to the script, and the returned index
  does.
\<close>

theorem find_index_hint_irrelevant:
  assumes "\<forall>i < gap. \<exists>out. derive_at pr d i = Ok out"
  shows "\<exists>r. find_index_matching pr spk d gap hint = Ok r
    \<and> (r = None \<longleftrightarrow> (\<forall>i < gap. \<not> derives_to pr d i spk))
    \<and> (r = None \<longleftrightarrow> find_index_matching pr spk d gap None = Ok None)
    \<and> (\<forall>i. r = Some i \<longrightarrow> i < gap \<and> derives_to pr d i spk)"
proof -
  obtain r r0 where r: "find_index_matching pr spk d gap hint = Ok r"
      "find_index_matching pr spk d gap None = Ok r0"
    using find_index_total [OF assms] by metis
  have "q = None \<longleftrightarrow> \<not> own_script pr d gap spk" if "find_index_matching pr spk d gap h = Ok q" for q h
    using that find_index_None [of pr spk d gap h] find_index_Some [of pr spk d gap h]
    by (cases q) (auto simp: own_script_def)
  from this [OF r(1)] this [OF r(2)] show ?thesis
    using r find_index_Some [of pr spk d gap hint] by (auto simp: own_script_def)
qed

theorem find_index_hint_irrelevant_witness:
  "\<exists>r. find_index_matching sample_prims (do_script_pubkey (sample_out BranchExternal 5))
     (sample_descriptor BranchExternal) 20 (Some 7) = Ok r \<and> r \<noteq> None"
proof -
  have all: "\<forall>i < 20. \<exists>out. derive_at sample_prims (sample_descriptor BranchExternal) i = Ok out"
    using sample_derive_at by (auto simp: MAX_NON_HARDENED_INDEX_def word_le_nat_alt word_less_nat_alt)
  have "derives_to sample_prims (sample_descriptor BranchExternal) 5 (do_script_pubkey (sample_out BranchExternal 5))"
    using sample_out [OF small_index(1)] by (simp add: derives_to_def)
  moreover have "(5 :: u32) < 20" by simp
  ultimately show ?thesis
    using find_index_hint_irrelevant [OF all, of "do_script_pubkey (sample_out BranchExternal 5)" "Some 7"] by blast
qed

text \<open>
  C38: the verifier never panics, on any PSBT, descriptor and policy, as long as the change
  descriptor writes no key origin with the prefix m/.
\<close>

theorem verify_never_panics:
  assumes "\<forall>s d. vp_change_descriptor policy = Some s \<and> parse pr s = Ok d \<longrightarrow>
      (\<forall>k \<in> set (pd_keys d). \<not> starts_with (ke_origin_path k) ''m/'')"
  shows "verify pr p descriptor policy \<noteq> Panic"
proof -
  have plain: "plain_origins d" if "vp_change_descriptor policy = Some s" "parse pr s = Ok d" for s d
    using parse_plain_origins [OF that(2)] assms that by blast
  have chg: "(case vp_change_descriptor policy of
         Some s \<Rightarrow> res_bind (res_map_err VE_Descriptor (parse pr s)) (\<lambda>d. Ok (Some d))
       | None \<Rightarrow> Ok None) \<noteq> Panic"
    using parse_not_Panic by (auto simp: res_bind_eq_Panic res_map_err_eq_Panic split: option.splits)
  have chg_ok: "plain_origins d" if "(case vp_change_descriptor policy of
         Some s \<Rightarrow> res_bind (res_map_err VE_Descriptor (parse pr s)) (\<lambda>d. Ok (Some d))
       | None \<Rightarrow> Ok None) = Ok (Some d)" for d
    using that plain by (auto simp: res_bind_eq_Ok res_map_err_eq_Ok split: option.splits)
  have v9: "check_v9 p \<noteq> Panic"
    unfolding check_v9_def by (intro for_check_not_Panic) (auto split: option.splits)
  have v6: "check_v6 cs policy \<noteq> Panic" for cs by (simp add: check_v6_def Let_def)
  note steps = parse_not_Panic chg check_v8_not_Panic v9 check_v7_not_Panic check_v5_not_Panic v6
    check_v10_not_Panic
  have v2: "check_v2 pr p receive change policy \<noteq> Panic"
    if "check_v9 p = Ok ()" "parse pr descriptor = Ok receive" "(case vp_change_descriptor policy of
         Some s \<Rightarrow> res_bind (res_map_err VE_Descriptor (parse pr s)) (\<lambda>d. Ok (Some d))
       | None \<Rightarrow> Ok None) = Ok change" for receive change
    using check_v2_not_Panic [OF that(1) parse_three [OF that(2)]] that(3) chg_ok by (auto simp: plain_origins_def)
  have cl: "classify_outputs pr p change policy \<noteq> Panic"
    if "check_v8 p = Ok ()" "(case vp_change_descriptor policy of
         Some s \<Rightarrow> res_bind (res_map_err VE_Descriptor (parse pr s)) (\<lambda>d. Ok (Some d))
       | None \<Rightarrow> Ok None) = Ok change" for change
    using classify_outputs_not_Panic [OF that(1)] that(2) chg_ok by auto
  show ?thesis
    unfolding verify_def
    by (auto simp: res_bind_eq_Panic res_map_err_eq_Panic res_map_err_eq_Ok steps v2 cl Let_def split: prod.splits)
qed

theorem verify_never_panics_witness:
  "verify sample_prims (sample_psbt\<lparr>ps_inputs := []\<rparr>) (sample_text BranchExternal) sample_policy \<noteq> Panic"
proof (rule verify_never_panics)
  show "\<forall>s d. vp_change_descriptor sample_policy = Some s \<and> parse sample_prims s = Ok d \<longrightarrow>
      (\<forall>k \<in> set (pd_keys d). \<not> starts_with (ke_origin_path k) ''m/'')"
    by (auto simp: sample_policy_def sample_parse sample_descriptor_def sample_key_def starts_with_def)
qed



end
