(* ===== verification/Spend_Window.thy ===== *)
theory Spend_Window
  imports Spend_Limits Core_State Verify_Psbt
begin

text \<open>
  \<open>crates/trinity-signer/src/window.rs\<close> and the traits of \<open>clock.rs\<close>: the sliding spend window.
  The readings that \<open>authorize\<close> takes from the injected clock and block source are one
  \<open>observation\<close>; the \<open>&mut self\<close> operations take the counter and return it updated, and
  \<open>authorize\<close> returns its result next to the counter because a refusal also moves the clock
  anchor. A \<open>BTreeSet\<close> of outpoints is the sorted list of its elements.

  The lemmas show that window time never runs faster than the trusted monotonic clock, that
  the charge of a PSBT is exactly what leaves the wallet, and how every operation changes the
  booked total. \<open>window_run\<close> is the history of a counter from installation on, with the value
  each commit added; its invariant bounds what any stretch of window time can spend.
\<close>

definition SECONDS_PER_BLOCK :: u64 where
  "SECONDS_PER_BLOCK = 24 * 60 * 60 div 144"

record observation =
  ob_now :: duration
  ob_boot_id :: "u64 option"
  ob_tip_height :: "u32 option"
  ob_wall_unix_ns :: "u64 option"

record spend_approval =
  sa_input_set :: "out_point list"
  sa_charge_sat :: u64

record window_counter =
  wc_kek :: bytes
  wc_state :: core_state

subsection \<open>Window time\<close>

definition duration_as_ns :: "duration \<Rightarrow> u64" where
  "duration_as_ns d = (if d < 2 ^ 64 then of_nat d else u64_max)"

definition apply_wall_veto ::
    "duration \<Rightarrow> bool \<Rightarrow> duration option \<Rightarrow> u64 option \<Rightarrow> u64 option \<Rightarrow> duration" where
  "apply_wall_veto from_sources mono_trusted mono_delta prev_wall now_wall =
     (if \<not> mono_trusted then from_sources
      else (case (prev_wall, now_wall) of
              (Some prev_w, Some now_w) \<Rightarrow>
                if now_w < prev_w then 0
                else
                  let wall_delta = now_w - prev_w;
                      mono_ns = unwrap_or (map_option duration_as_ns mono_delta) 0
                  in if mono_ns < wall_delta then 0 else from_sources
            | _ \<Rightarrow> from_sources))"

definition step_elapsed ::
    "core_state \<Rightarrow> u64 \<Rightarrow> u64 option \<Rightarrow> u32 option \<Rightarrow> u64 option \<Rightarrow> duration" where
  "step_elapsed prev now_mono_ns now_boot now_height now_wall =
     (let same_boot = (case (cs_boot_id_at_anchor prev, now_boot) of
            (Some a, Some b) \<Rightarrow> a = b
          | _ \<Rightarrow> cs_monotonic_ns_at_anchor prev \<le> now_mono_ns);
          mono_regressed = now_mono_ns < cs_monotonic_ns_at_anchor prev;
          mono_trusted = same_boot \<and> \<not> mono_regressed;
          mono_delta = (if mono_trusted
                  then Some (duration_from_nanos (now_mono_ns - cs_monotonic_ns_at_anchor prev)) else None);
          blocks = (case (cs_block_height_at_anchor prev, now_height) of
            (Some prev_h, Some now_h) \<Rightarrow>
              if prev_h \<le> now_h
              then Some (duration_from_secs (sat_mul (ucast (now_h - prev_h)) SECONDS_PER_BLOCK))
              else Some 0
          | _ \<Rightarrow> None);
          from_sources = (case (mono_delta, blocks) of
            (Some m, Some b) \<Rightarrow> min m b
          | (Some m, None) \<Rightarrow> m
          | (None, Some _) \<Rightarrow> 0
          | (None, None) \<Rightarrow> 0)
      in apply_wall_veto from_sources mono_trusted mono_delta (cs_wall_unix_ns_at_anchor prev) now_wall)"

definition advance :: "core_state \<Rightarrow> observation \<Rightarrow> core_state" where
  "advance s ob =
     (let now_mono_ns = duration_as_ns (ob_now ob);
          now_boot = ob_boot_id ob;
          now_height = ob_tip_height ob;
          wall_unix_ns = ob_wall_unix_ns ob
      in if \<not> cs_initialized s
         then s\<lparr>cs_initialized := True, cs_monotonic_ns_at_anchor := now_mono_ns,
                cs_block_height_at_anchor := now_height, cs_boot_id_at_anchor := now_boot,
                cs_wall_unix_ns_at_anchor := wall_unix_ns, cs_window_elapsed_ns := 0,
                cs_window_start_elapsed_ns := 0\<rparr>
         else
           let step = step_elapsed s now_mono_ns now_boot now_height wall_unix_ns;
               s = s\<lparr>cs_window_elapsed_ns := sat_add (cs_window_elapsed_ns s) (duration_as_ns step)\<rparr>;
               s = s\<lparr>cs_monotonic_ns_at_anchor := now_mono_ns\<rparr>;
               s = (if now_height \<noteq> None then s\<lparr>cs_block_height_at_anchor := now_height\<rparr> else s);
               s = (if now_boot \<noteq> None then s\<lparr>cs_boot_id_at_anchor := now_boot\<rparr> else s)
           in (if wall_unix_ns \<noteq> None then s\<lparr>cs_wall_unix_ns_at_anchor := wall_unix_ns\<rparr> else s))"

definition prune :: "core_state \<Rightarrow> duration \<Rightarrow> core_state" where
  "prune s window =
     (let window_ns = duration_as_ns window;
          now = cs_window_elapsed_ns s;
          start = sat_sub now window_ns
      in s\<lparr>cs_window_start_elapsed_ns := start,
           cs_bookings := filter (\<lambda>b. start \<le> bk_elapsed_at_ns b) (cs_bookings s)\<rparr>)"

subsection \<open>What a PSBT charges\<close>

fun matches_descriptor_from ::
    "prims \<Rightarrow> bytes \<Rightarrow> parsed_descriptor \<Rightarrow> u32 list \<Rightarrow> (bool, sign_error) res" where
  "matches_descriptor_from pr script desc [] = Ok False"
| "matches_descriptor_from pr script desc (i # is) =
     res_bind (res_map_err (\<lambda>e. SE_Verify (VE_Derive e)) (derive_at pr desc i)) (\<lambda>derived.
     if do_script_pubkey derived = script then Ok True
     else matches_descriptor_from pr script desc is)"

definition matches_descriptor ::
    "prims \<Rightarrow> bytes \<Rightarrow> parsed_descriptor \<Rightarrow> u32 \<Rightarrow> (bool, sign_error) res" where
  "matches_descriptor pr script desc gap = matches_descriptor_from pr script desc (index_range gap)"

definition belongs_to_wallet ::
    "prims \<Rightarrow> bytes \<Rightarrow> parsed_descriptor \<Rightarrow> parsed_descriptor option \<Rightarrow> u32 \<Rightarrow> (bool, sign_error) res" where
  "belongs_to_wallet pr script receive change gap =
     res_bind (matches_descriptor pr script receive gap) (\<lambda>r.
     if r then Ok True
     else (case change of
             Some chg \<Rightarrow> matches_descriptor pr script chg gap
           | None \<Rightarrow> Ok False))"

definition spend_charge :: "prims \<Rightarrow> psbt \<Rightarrow> string \<Rightarrow> verify_policy \<Rightarrow> (u64, sign_error) res" where
  "spend_charge pr p descriptor vp =
     res_bind (res_map_err (\<lambda>e. SE_Verify (VE_Descriptor e)) (parse pr descriptor)) (\<lambda>receive.
     res_bind (case vp_change_descriptor vp of
         Some s \<Rightarrow> res_bind (res_map_err (\<lambda>e. SE_Verify (VE_Descriptor e)) (parse pr s)) (\<lambda>d. Ok (Some d))
       | None \<Rightarrow> Ok None) (\<lambda>change.
     let gap = vp_gap_limit vp
     in res_bind (for_in (\<lambda>i inp sum_in.
            res_bind (ok_or (in_witness_utxo inp) (SE_MissingWitnessUtxo i)) (\<lambda>utxo.
            ok_or (checked_add sum_in (to_value utxo)) SE_UnbalancedPsbt)) 0 (ps_inputs p) 0) (\<lambda>sum_in.
        res_bind (for_in (\<lambda>_ txout (sum_out, foreign).
            let v = to_value txout
            in res_bind (ok_or (checked_add sum_out v) SE_UnbalancedPsbt) (\<lambda>sum_out.
               res_bind (belongs_to_wallet pr (to_script_pubkey txout) receive change gap) (\<lambda>own.
               Ok (sum_out, if \<not> own then sat_add foreign v else foreign))))
          0 (tx_output (ps_unsigned_tx p)) (0, 0)) (\<lambda>(sum_out, foreign).
        res_bind (ok_or (checked_sub sum_in sum_out) SE_UnbalancedPsbt) (\<lambda>fee.
        Ok (sat_add foreign fee))))))"

definition input_set :: "psbt \<Rightarrow> (out_point list, sign_error) res" where
  "input_set p =
     (if tx_input (ps_unsigned_tx p) = [] then Err SE_EmptyPsbt
      else if MAX_INPUTS < length (tx_input (ps_unsigned_tx p)) then Err SE_TooManyInputs
      else Ok (btree_set_of (map ti_previous_output (tx_input (ps_unsigned_tx p)))))"

subsection \<open>The ledger\<close>

definition same_inputs :: "out_point list \<Rightarrow> out_point list \<Rightarrow> bool" where
  "same_inputs stored inps =
     (if length stored \<noteq> length inps then False else list_all (\<lambda>op. op \<in> set inps) stored)"

definition extra_against_bookings :: "booked_spend list \<Rightarrow> out_point list \<Rightarrow> u64 \<Rightarrow> u64" where
  "extra_against_bookings bookings inps charge =
     (case List.find (\<lambda>b. same_inputs (bk_inputs b) inps) bookings of
        Some existing \<Rightarrow> sat_sub charge (bk_amount_sat existing)
      | None \<Rightarrow> charge)"

definition booked_sat :: "core_state \<Rightarrow> u64" where
  "booked_sat s = foldl sat_add 0 (map bk_amount_sat (cs_bookings s))"

text \<open>Update the first element that satisfies a predicate (\<open>iter_mut().find\<close>).\<close>

primrec update_first :: "('a \<Rightarrow> bool) \<Rightarrow> ('a \<Rightarrow> 'a) \<Rightarrow> 'a list \<Rightarrow> 'a list" where
  "update_first P f [] = []"
| "update_first P f (x # xs) = (if P x then f x # xs else x # update_first P f xs)"

definition commit_state :: "core_state \<Rightarrow> spend_approval \<Rightarrow> core_state" where
  "commit_state s ap =
     (if list_ex (\<lambda>b. same_inputs (bk_inputs b) (sa_input_set ap)) (cs_bookings s)
      then s\<lparr>cs_bookings := update_first (\<lambda>b. same_inputs (bk_inputs b) (sa_input_set ap))
          (\<lambda>existing. if bk_amount_sat existing < sa_charge_sat ap
             then existing\<lparr>bk_amount_sat := sa_charge_sat ap, bk_elapsed_at_ns := cs_window_elapsed_ns s\<rparr>
             else existing) (cs_bookings s)\<rparr>
      else if length (cs_bookings s) < MAX_BOOKINGS
      then s\<lparr>cs_bookings := cs_bookings s @ [\<lparr>bk_inputs = sort (sa_input_set ap),
          bk_amount_sat = sa_charge_sat ap, bk_elapsed_at_ns = cs_window_elapsed_ns s\<rparr>]\<rparr>
      else s)"

definition authorize_state ::
    "prims \<Rightarrow> core_state \<Rightarrow> spend_policy \<Rightarrow> psbt \<Rightarrow> string \<Rightarrow> verify_policy \<Rightarrow> balance \<Rightarrow> observation
     \<Rightarrow> (spend_approval, sign_error) res \<times> core_state" where
  "authorize_state pr s policy p descriptor vp bal ob =
     (case policy_validate policy of
        Err e \<Rightarrow> (Err e, s)
      | Panic \<Rightarrow> (Panic, s)
      | Ok _ \<Rightarrow>
          let s = prune (advance s ob) (sp_window policy)
          in if \<not> cs_passphrase_used_since_install s then (Err SE_SpendLimitExceeded, s)
             else
               let reference = spend_policy_reference_sats bal;
                   allowed = allowance policy reference
               in (res_bind (spend_charge pr p descriptor vp) (\<lambda>charge.
                   res_bind (input_set p) (\<lambda>inps.
                   let known = list_ex (\<lambda>b. same_inputs (bk_inputs b) inps) (cs_bookings s);
                       extra = extra_against_bookings (cs_bookings s) inps charge;
                       used = booked_sat s;
                       remaining = sat_sub allowed used
                   in if remaining < extra then Err SE_SpendLimitExceeded
                      else if \<not> known \<and> MAX_BOOKINGS \<le> length (cs_bookings s) then Err SE_WindowLedgerFull
                      else Ok \<lparr>sa_input_set = inps, sa_charge_sat = charge\<rparr>)), s))"

subsection \<open>The counter\<close>

definition counter_new :: "bytes \<Rightarrow> (window_counter, sign_error) res" where
  "counter_new kek =
     (if length kek \<noteq> 32 then Err SE_InvalidKekLength
      else Ok \<lparr>wc_kek = kek, wc_state = core_state_empty\<rparr>)"

definition counter_open :: "aead \<Rightarrow> bytes \<Rightarrow> bytes \<Rightarrow> (window_counter, sign_error) res" where
  "counter_open A kek blob =
     (if length kek \<noteq> 32 then Err SE_InvalidKekLength
      else res_bind (res_map_err SE_CoreState (core_decrypt A kek blob)) (\<lambda>s.
        Ok \<lparr>wc_kek = kek, wc_state = s\<rparr>))"

definition counter_seal :: "aead \<Rightarrow> bytes option \<Rightarrow> window_counter \<Rightarrow> (bytes, sign_error) res" where
  "counter_seal A draw c = res_map_err SE_CoreState (core_encrypt A draw (wc_kek c) (wc_state c))"

definition set_passphrase_used_since_install :: "window_counter \<Rightarrow> bool \<Rightarrow> window_counter" where
  "set_passphrase_used_since_install c used =
     c\<lparr>wc_state := (wc_state c)\<lparr>cs_passphrase_used_since_install := used\<rparr>\<rparr>"

definition passphrase_used_since_install :: "window_counter \<Rightarrow> bool" where
  "passphrase_used_since_install c = cs_passphrase_used_since_install (wc_state c)"

definition window_elapsed :: "window_counter \<Rightarrow> duration" where
  "window_elapsed c = duration_from_nanos (cs_window_elapsed_ns (wc_state c))"

definition authorize ::
    "prims \<Rightarrow> window_counter \<Rightarrow> spend_policy \<Rightarrow> psbt \<Rightarrow> string \<Rightarrow> verify_policy \<Rightarrow> balance \<Rightarrow> observation
     \<Rightarrow> (spend_approval, sign_error) res \<times> window_counter" where
  "authorize pr c policy p descriptor vp bal ob =
     (let (r, s) = authorize_state pr (wc_state c) policy p descriptor vp bal ob
      in (r, c\<lparr>wc_state := s\<rparr>))"

definition commit :: "window_counter \<Rightarrow> spend_approval \<Rightarrow> window_counter" where
  "commit c ap = c\<lparr>wc_state := commit_state (wc_state c) ap\<rparr>"

text \<open>The scripts that the receive descriptor or the change descriptor derives inside the gap.\<close>

definition wallet_script :: "prims \<Rightarrow> string \<Rightarrow> verify_policy \<Rightarrow> bytes \<Rightarrow> bool" where
  "wallet_script pr descriptor vp spk \<longleftrightarrow>
     (\<exists>d. (parse pr descriptor = Ok d \<or> (\<exists>s. vp_change_descriptor vp = Some s \<and> parse pr s = Ok d))
        \<and> own_script pr d (vp_gap_limit vp) spk)"

definition outputs_value :: "(bytes \<Rightarrow> bool) \<Rightarrow> psbt \<Rightarrow> nat" where
  "outputs_value P p =
     (\<Sum>o'\<leftarrow>tx_output (ps_unsigned_tx p). if P (to_script_pubkey o') then unat (to_value o') else 0)"

definition inputs_value :: "psbt \<Rightarrow> nat" where
  "inputs_value p = (\<Sum>i\<leftarrow>ps_inputs p. case in_witness_utxo i of None \<Rightarrow> 0 | Some u \<Rightarrow> unat (to_value u))"

subsection \<open>Histories of a counter\<close>

text \<open>
  A history is the list of the spends a counter let through, latest first: the window time, the
  inputs and the charge. Two approved transactions over the same inputs conflict, so an entry
  puts at risk only what exceeds the charges of the same inputs in the preceding window.
\<close>

type_synonym spend_log = "(nat \<times> out_point list \<times> nat) list"

definition prior_charge :: "nat \<Rightarrow> nat \<Rightarrow> out_point list \<Rightarrow> spend_log \<Rightarrow> nat" where
  "prior_charge w t inps log =
     foldr max (map (\<lambda>(_, _, ch). ch) (filter (\<lambda>(t', inps', _). inps' = inps \<and> t \<le> t' + w) log)) 0"

primrec exposures :: "nat \<Rightarrow> spend_log \<Rightarrow> (nat \<times> nat) list" where
  "exposures w [] = []"
| "exposures w (e # log) =
     (case e of (t, inps, ch) \<Rightarrow> (t, ch - prior_charge w t inps log) # exposures w log)"

definition exposed_between :: "nat \<Rightarrow> spend_log \<Rightarrow> nat \<Rightarrow> nat \<Rightarrow> nat" where
  "exposed_between w log lo hi =
     sum_list (map snd (filter (\<lambda>(t, _). lo \<le> t \<and> t \<le> hi) (exposures w log)))"

definition exposed_since :: "nat \<Rightarrow> spend_log \<Rightarrow> nat \<Rightarrow> nat" where
  "exposed_since w log lo = sum_list (map snd (filter (\<lambda>(t, _). lo \<le> t) (exposures w log)))"

definition booked_since :: "booked_spend list \<Rightarrow> nat \<Rightarrow> nat" where
  "booked_since bs lo =
     (\<Sum>b\<leftarrow>bs. if lo \<le> unat (bk_elapsed_at_ns b) then unat (bk_amount_sat b) else 0)"

definition log_entry :: "window_counter \<Rightarrow> spend_approval \<Rightarrow> nat \<times> out_point list \<times> nat" where
  "log_entry c ap = (window_elapsed c, sa_input_set ap, unat (sa_charge_sat ap))"

definition txids_ok :: "psbt \<Rightarrow> bool" where
  "txids_ok p \<longleftrightarrow> list_all (\<lambda>i. out_point_wf (ti_previous_output i)) (tx_input (ps_unsigned_tx p))"

inductive window_run :: "prims \<Rightarrow> aead \<Rightarrow> spend_policy \<Rightarrow> spend_log \<Rightarrow> window_counter \<Rightarrow> bool"
  for pr A policy where
  install: "window_run pr A policy [] c" if "counter_new kek = Ok c"
| passphrase: "window_run pr A policy log (set_passphrase_used_since_install c used)"
    if "window_run pr A policy log c"
| refused: "window_run pr A policy log c'"
    if "window_run pr A policy log c" and "txids_ok p"
      and "authorize pr c policy p desc vp bal ob = (Err e, c')"
| unsigned: "window_run pr A policy log c'"
    if "window_run pr A policy log c" and "txids_ok p"
      and "authorize pr c policy p desc vp bal ob = (Ok ap, c')"
| spent: "window_run pr A policy (log_entry c' ap # log) (commit c' ap)"
    if "window_run pr A policy log c" and "txids_ok p"
      and "authorize pr c policy p desc vp bal ob = (Ok ap, c')"
| reopened: "window_run pr A policy log c'"
    if "window_run pr A policy log c" and "counter_seal A (Some nonce) c = Ok blob"
      and "length nonce = NONCE_LEN" and "counter_open A (wc_kek c) blob = Ok c'"

inductive_cases window_run_empty_cases: "window_run pr A policy [] c"

text \<open>The invariant of a history: the ledger covers every exposure younger than the window.\<close>

definition run_inv :: "spend_policy \<Rightarrow> spend_log \<Rightarrow> core_state \<Rightarrow> bool" where
  "run_inv policy log s \<longleftrightarrow>
     (cs_initialized s \<or> cs_bookings s = [] \<and> log = [])
     \<and> (\<forall>e\<in>set log. fst e \<le> unat (cs_window_elapsed_ns s))
     \<and> (\<forall>b\<in>set (cs_bookings s). (unat (bk_elapsed_at_ns b), bk_inputs b, unat (bk_amount_sat b)) \<in> set log)
     \<and> (\<forall>lo \<ge> unat (cs_window_elapsed_ns s) - sp_window policy.
          exposed_since (sp_window policy) log lo \<le> booked_since (cs_bookings s) lo)
     \<and> booked_since (cs_bookings s) 0 \<le> policy_cap policy
     \<and> (\<forall>lo. exposed_between (sp_window policy) log lo (lo + sp_window policy) \<le> policy_cap policy)"

definition counter_wf :: "window_counter \<Rightarrow> bool" where
  "counter_wf c \<longleftrightarrow> length (wc_kek c) = 32 \<and> core_state_wf (wc_state c)
     \<and> (\<forall>b\<in>set (cs_bookings (wc_state c)). sorted (bk_inputs b) \<and> distinct (bk_inputs b))"

definition run_ok :: "spend_policy \<Rightarrow> spend_log \<Rightarrow> window_counter \<Rightarrow> bool" where
  "run_ok policy log c \<longleftrightarrow> counter_wf c
     \<and> (if policy_validate policy = Ok policy then run_inv policy log (wc_state c) else log = [])"

text \<open>A concrete policy, balance and observation for the examples.\<close>

definition sample_spend_policy :: spend_policy where
  "sample_spend_policy = \<lparr>window_fraction = None, window_floor_sat = None, window_cap_sat = Some 70000,
     sp_window = duration_from_secs 86400, passphrase_on_first_use = True\<rparr>"

definition sample_balance :: balance where
  "sample_balance = \<lparr>confirmed_sats = 1000000, trusted_pending_sats = 0, untrusted_pending_sats = 0,
     immature_sats = 0\<rparr>"

definition sample_observation :: observation where
  "sample_observation = \<lparr>ob_now = 5, ob_boot_id = Some 1, ob_tip_height = Some 800000, ob_wall_unix_ns = None\<rparr>"

definition sample_approval :: spend_approval where
  "sample_approval = \<lparr>sa_input_set = [OutPoint (replicate 32 7) 0], sa_charge_sat = 61000\<rparr>"

definition sample_counter :: window_counter where
  "sample_counter = \<lparr>wc_kek = replicate 32 0,
     wc_state = core_state_empty\<lparr>cs_passphrase_used_since_install := True\<rparr>\<rparr>"

section \<open>Lemmas\<close>

subsection \<open>Window time\<close>

lemma unat_duration_as_ns: "unat (duration_as_ns d) = min d (2 ^ 64 - 1)"
proof (cases "d < 2 ^ 64")
  case True
  then have "unat (of_nat d :: u64) = d" by (simp add: unsigned_of_nat take_bit_nat_eq_self_iff)
  then show ?thesis using True by (simp add: duration_as_ns_def)
next
  case False
  then show ?thesis by (simp add: duration_as_ns_def unat_minus_1)
qed

lemma apply_wall_veto_le: "apply_wall_veto d t m pw nw \<le> d"
  by (auto simp: apply_wall_veto_def Let_def split: option.splits)

lemma wall_veto_zero:
  assumes "nw < pw \<or> unat m < unat nw - unat pw"
  shows "apply_wall_veto d True (Some (duration_from_nanos m)) (Some pw) (Some nw) = 0"
proof -
  have "unat (duration_as_ns (duration_from_nanos m)) = unat m"
    using unat_lt2p [of m] by (simp add: unat_duration_as_ns duration_from_nanos_def)
  then show ?thesis
    using assms by (auto simp: apply_wall_veto_def Let_def word_less_nat_alt unat_sub word_le_nat_alt not_less)
qed

lemma step_elapsed_le_mono:
  "step_elapsed s m b h w \<le> unat m - unat (cs_monotonic_ns_at_anchor s)"
proof -
  have "unat (m - cs_monotonic_ns_at_anchor s) = unat m - unat (cs_monotonic_ns_at_anchor s)"
    if "cs_monotonic_ns_at_anchor s \<le> m"
    using that by (simp add: unat_sub)
  then show ?thesis
    unfolding step_elapsed_def Let_def
    by (intro order.trans [OF apply_wall_veto_le])
      (auto simp: duration_from_nanos_def not_less min_def split: option.splits)
qed

lemma unat_block_seconds:
  assumes "p \<le> n"
  shows "duration_from_secs (sat_mul (ucast (n - p :: u32)) SECONDS_PER_BLOCK) = (unat n - unat p) * 600 * 10 ^ 9"
proof -
  have u: "unat (ucast (n - p) :: u64) = unat n - unat p"
    using assms unat_lt2p [of "n - p"]
    by (simp add: unsigned_ucast_eq take_bit_nat_eq_self_iff unat_sub)
  have c: "unat SECONDS_PER_BLOCK = 600" by (simp add: SECONDS_PER_BLOCK_def)
  have "(unat n - unat p) * 600 < 2 ^ 64" using unat_lt2p [of n] by simp
  then have "unat (sat_mul (ucast (n - p) :: u64) SECONDS_PER_BLOCK) = (unat n - unat p) * 600"
    by (simp add: unat_sat_mul u c)
  then show ?thesis by (simp only: duration_from_secs_def) simp
qed

lemma step_elapsed_le_blocks:
  assumes "cs_block_height_at_anchor s = Some p"
  shows "step_elapsed s m b (Some h) w \<le> (unat h - unat p) * 600 * 10 ^ 9"
  unfolding step_elapsed_def Let_def assms
  by (intro order.trans [OF apply_wall_veto_le])
    (auto simp: unat_block_seconds simp del: power_numeral split: option.splits)

lemma step_elapsed_reboot:
  assumes "cs_boot_id_at_anchor s = Some a" and "a \<noteq> b"
  shows "step_elapsed s m (Some b) h w = 0"
  using assms
  by (auto simp: step_elapsed_def Let_def apply_wall_veto_def split: option.splits)

lemma step_elapsed_wall_jump:
  assumes "cs_wall_unix_ns_at_anchor s = Some pw"
    and "nw < pw \<or> unat m - unat (cs_monotonic_ns_at_anchor s) < unat nw - unat pw"
  shows "step_elapsed s m b h (Some nw) = 0"
proof (cases "cs_monotonic_ns_at_anchor s \<le> m \<and> (\<forall>a c. cs_boot_id_at_anchor s = Some a \<longrightarrow> b = Some c \<longrightarrow> a = c)")
  case True
  then have "unat (m - cs_monotonic_ns_at_anchor s) = unat m - unat (cs_monotonic_ns_at_anchor s)"
    by (simp add: unat_sub)
  then have "nw < pw \<or> unat (m - cs_monotonic_ns_at_anchor s) < unat nw - unat pw"
    using assms(2) by simp
  from wall_veto_zero [OF this] show ?thesis
    using True assms(1) by (auto simp: step_elapsed_def Let_def split: option.splits)
next
  case False
  then consider "unat m \<le> unat (cs_monotonic_ns_at_anchor s)"
    | a c where "cs_boot_id_at_anchor s = Some a" "b = Some c" "a \<noteq> c"
    by (auto simp: word_le_nat_alt)
  then show ?thesis
    using step_elapsed_le_mono [of s m b h "Some nw"] step_elapsed_reboot by cases auto
qed

subsection \<open>Advancing and pruning\<close>

lemma advance_keeps [simp]:
  "cs_bookings (advance s ob) = cs_bookings s"
  "cs_passphrase_used_since_install (advance s ob) = cs_passphrase_used_since_install s"
  "cs_initialized (advance s ob)"
  by (auto simp: advance_def Let_def)

lemma advance_elapsed:
  "cs_window_elapsed_ns (advance s ob) =
     (if cs_initialized s
      then sat_add (cs_window_elapsed_ns s) (duration_as_ns (step_elapsed s (duration_as_ns (ob_now ob))
             (ob_boot_id ob) (ob_tip_height ob) (ob_wall_unix_ns ob)))
      else 0)"
  by (simp add: advance_def Let_def)

lemma advance_elapsed_mono:
  "cs_initialized s \<Longrightarrow> unat (cs_window_elapsed_ns s) \<le> unat (cs_window_elapsed_ns (advance s ob))"
  using unat_lt2p [of "cs_window_elapsed_ns s"] by (auto simp: advance_elapsed unat_sat_add)

lemma prune_keeps [simp]:
  "cs_initialized (prune s w) = cs_initialized s"
  "cs_passphrase_used_since_install (prune s w) = cs_passphrase_used_since_install s"
  "cs_window_elapsed_ns (prune s w) = cs_window_elapsed_ns s"
  by (simp_all add: prune_def Let_def)

lemma prune_start:
  assumes "w < 2 ^ 64"
  shows "unat (cs_window_start_elapsed_ns (prune s w)) = unat (cs_window_elapsed_ns s) - w"
  using assms by (simp add: prune_def Let_def unat_sat_sub unat_duration_as_ns)

lemma prune_bookings:
  assumes "w < 2 ^ 64"
  shows "cs_bookings (prune s w) =
    filter (\<lambda>b. unat (cs_window_elapsed_ns s) - w \<le> unat (bk_elapsed_at_ns b)) (cs_bookings s)"
  using assms by (simp add: prune_def Let_def word_le_nat_alt unat_sat_sub unat_duration_as_ns)

subsection \<open>The charge\<close>

lemma matches_descriptor_from_Ok:
  "matches_descriptor_from pr spk d is = Ok b \<Longrightarrow> b \<longleftrightarrow> (\<exists>i\<in>set is. derives_to pr d i spk)"
  by (induction "is") (auto simp: res_simps derives_to_def split: if_splits)

lemma matches_descriptor_Ok:
  "matches_descriptor pr spk d gap = Ok b \<Longrightarrow> b \<longleftrightarrow> own_script pr d gap spk"
  using matches_descriptor_from_Ok [of pr spk d "index_range gap" b]
  by (auto simp: matches_descriptor_def own_script_def)

lemma belongs_to_wallet_Ok:
  "belongs_to_wallet pr spk r chg gap = Ok b \<Longrightarrow>
     b \<longleftrightarrow> own_script pr r gap spk \<or> (\<exists>c. chg = Some c \<and> own_script pr c gap spk)"
  by (auto simp: belongs_to_wallet_def res_simps dest!: matches_descriptor_Ok
      split: if_splits option.splits)

lemma charge_inputs_loop:
  "for_in (\<lambda>i inp sum_in. res_bind (ok_or (in_witness_utxo inp) (SE_MissingWitnessUtxo i)) (\<lambda>utxo.
       ok_or (checked_add sum_in (to_value utxo)) SE_UnbalancedPsbt)) k xs z = Ok t \<Longrightarrow>
   list_all (\<lambda>i. in_witness_utxo i \<noteq> None) xs
   \<and> unat t = unat z + (\<Sum>i\<leftarrow>xs. case in_witness_utxo i of None \<Rightarrow> 0 | Some u \<Rightarrow> unat (to_value u))"
  by (induction xs arbitrary: k z) (force simp: res_simps checked_add_eq_Some)+

lemma charge_outputs_loop:
  assumes own: "\<And>spk b. bel spk = Ok b \<Longrightarrow> b = P spk"
  shows "for_in (\<lambda>_ txout (sum_out, foreign). let v = to_value txout
       in res_bind (ok_or (checked_add sum_out v) SE_UnbalancedPsbt) (\<lambda>sum_out.
          res_bind (bel (to_script_pubkey txout)) (\<lambda>own.
          Ok (sum_out, if \<not> own then sat_add foreign v else foreign)))) k xs (a, f) = Ok (a', f') \<Longrightarrow>
   unat f \<le> unat a \<Longrightarrow>
   unat f' \<le> unat a' \<and> unat a' = unat a + (\<Sum>x\<leftarrow>xs. unat (to_value x))
   \<and> unat f' + (\<Sum>x\<leftarrow>xs. if P (to_script_pubkey x) then unat (to_value x) else 0)
     = unat f + (\<Sum>x\<leftarrow>xs. unat (to_value x))"
proof (induction xs arbitrary: k a f)
  case (Cons x xs)
  from Cons.prems(1) obtain a1 own where step: "checked_add a (to_value x) = Some a1"
      "bel (to_script_pubkey x) = Ok own"
    and rest: "for_in (\<lambda>_ txout (sum_out, foreign). let v = to_value txout
       in res_bind (ok_or (checked_add sum_out v) SE_UnbalancedPsbt) (\<lambda>sum_out.
          res_bind (bel (to_script_pubkey txout)) (\<lambda>own.
          Ok (sum_out, if \<not> own then sat_add foreign v else foreign)))) (Suc k) xs
        (a1, if \<not> own then sat_add f (to_value x) else f) = Ok (a', f')"
    by (auto simp: res_simps Let_def)
  have a1: "unat a1 = unat a + unat (to_value x)" using step(1) by (simp add: checked_add_eq_Some)
  have "unat f + unat (to_value x) < 2 ^ 64" using a1 Cons.prems(2) unat_lt2p [of a1] by simp
  then have f1: "unat (sat_add f (to_value x)) = unat f + unat (to_value x)" by (simp add: unat_sat_add)
  have "unat (if \<not> own then sat_add f (to_value x) else f) \<le> unat a1"
    using a1 f1 Cons.prems(2) by auto
  from Cons.IH [OF rest this] show ?case using own [OF step(2)] a1 f1 by (cases own) simp_all
qed simp

lemma spend_charge_Ok:
  assumes "spend_charge pr p descriptor vp = Ok ch"
  shows "list_all (\<lambda>i. in_witness_utxo i \<noteq> None) (ps_inputs p)
    \<and> unat ch + outputs_value (wallet_script pr descriptor vp) p = inputs_value p"
proof -
  from assms obtain r chg sum_in sum_out foreign fee where
    r: "parse pr descriptor = Ok r"
    and chg: "(case vp_change_descriptor vp of
         Some s \<Rightarrow> res_bind (res_map_err (\<lambda>e. SE_Verify (VE_Descriptor e)) (parse pr s)) (\<lambda>d. Ok (Some d))
       | None \<Rightarrow> Ok None) = Ok chg"
    and ins: "for_in (\<lambda>i inp sum_in. res_bind (ok_or (in_witness_utxo inp) (SE_MissingWitnessUtxo i)) (\<lambda>utxo.
       ok_or (checked_add sum_in (to_value utxo)) SE_UnbalancedPsbt)) 0 (ps_inputs p) 0 = Ok sum_in"
    and outs: "for_in (\<lambda>_ txout (sum_out, foreign). let v = to_value txout
       in res_bind (ok_or (checked_add sum_out v) SE_UnbalancedPsbt) (\<lambda>sum_out.
          res_bind (belongs_to_wallet pr (to_script_pubkey txout) r chg (vp_gap_limit vp)) (\<lambda>own.
          Ok (sum_out, if \<not> own then sat_add foreign v else foreign)))) 0
        (tx_output (ps_unsigned_tx p)) (0, 0) = Ok (sum_out, foreign)"
    and fee: "checked_sub sum_in sum_out = Some fee" and ch: "ch = sat_add foreign fee"
    unfolding spend_charge_def Let_def by (auto simp: res_simps)
  have own: "b = wallet_script pr descriptor vp spk"
    if "belongs_to_wallet pr spk r chg (vp_gap_limit vp) = Ok b" for spk b
    using belongs_to_wallet_Ok [OF that] r chg
    by (auto simp: wallet_script_def res_simps split: option.splits)
  note i = charge_inputs_loop [OF ins]
  note q = charge_outputs_loop [where P = "wallet_script pr descriptor vp", OF own outs, simplified]
  have f: "unat sum_in = unat sum_out + unat fee" using fee by (auto simp: checked_sub_eq_Some)
  have "unat foreign + unat fee < 2 ^ 64" using q f unat_lt2p [of sum_in] by simp
  then have "unat ch = unat foreign + unat fee" by (simp add: ch unat_sat_add)
  then show ?thesis using i q f by (simp add: outputs_value_def inputs_value_def)
qed

subsection \<open>The ledger\<close>

lemma same_inputs_iff:
  assumes "sorted a" "distinct a" "sorted b" "distinct b"
  shows "same_inputs a b \<longleftrightarrow> a = b"
proof
  assume "same_inputs a b"
  then have "length a = length b" and "set a \<subseteq> set b"
    by (auto simp: same_inputs_def list_all_iff split: if_splits)
  then have "set a = set b"
    using assms by (metis List.finite_set card_subset_eq distinct_card)
  then show "a = b" using assms by (simp add: sorted_distinct_set_unique)
qed (simp add: same_inputs_def list_all_iff)

lemma input_set_Ok:
  assumes "input_set p = Ok inps"
  shows "sorted inps \<and> distinct inps \<and> inps \<noteq> [] \<and> length inps \<le> MAX_INPUTS
     \<and> (txids_ok p \<longrightarrow> list_all out_point_wf inps)"
proof -
  let ?ops = "map ti_previous_output (tx_input (ps_unsigned_tx p))"
  have r: "?ops \<noteq> []" "length ?ops \<le> MAX_INPUTS" "inps = btree_set_of ?ops"
    using assms by (auto simp: input_set_def split: if_splits)
  have "set inps \<noteq> {}" using r(1) unfolding r(3) by simp
  then have "inps \<noteq> []" by auto
  moreover have "length inps \<le> MAX_INPUTS"
    using r(2) length_remdups_leq [of ?ops] unfolding r(3) btree_set_of_def by simp
  ultimately show ?thesis unfolding r(3) by (auto simp: txids_ok_def list_all_iff)
qed

lemma set_update_first: "y \<in> set (update_first P f xs) \<Longrightarrow>
    y \<in> set xs \<or> (\<exists>x. List.find P xs = Some x \<and> y = f x)"
  by (induction xs) (auto split: if_splits)

lemma length_update_first [simp]: "length (update_first P f xs) = length xs"
  by (induction xs) auto

lemma find_None_list_ex: "List.find P xs = None \<longleftrightarrow> \<not> list_ex P xs"
  by (auto simp: find_None_iff list_ex_iff)

lemma find_Some_mem: "List.find P xs = Some x \<Longrightarrow> x \<in> set xs \<and> P x"
  by (auto simp: find_Some_iff)

lemma sum_update_first:
  "List.find P xs = Some x \<Longrightarrow>
     (\<Sum>y\<leftarrow>update_first P f xs. g y) + (g x :: nat) = (\<Sum>y\<leftarrow>xs. g y) + g (f x)"
  by (induction xs) (auto split: if_splits)

lemma unat_booked_sat: "unat (booked_sat s) = min (booked_since (cs_bookings s) 0) (2 ^ 64 - 1)"
  by (simp add: booked_sat_def fold_sat_add booked_since_def o_def)

lemma booked_since_filter:
  "lo' \<le> lo \<Longrightarrow> booked_since (filter (\<lambda>b. lo' \<le> unat (bk_elapsed_at_ns b)) bs) lo = booked_since bs lo"
  by (induction bs) (auto simp: booked_since_def)

lemma booked_since_filter_le: "booked_since (filter P bs) lo \<le> booked_since bs lo"
  by (induction bs) (auto simp: booked_since_def)

lemma booked_since_mono: "lo' \<le> lo \<Longrightarrow> booked_since bs lo \<le> booked_since bs lo'"
  unfolding booked_since_def by (induction bs) auto

lemma commit_new:
  assumes "List.find (\<lambda>b. same_inputs (bk_inputs b) (sa_input_set ap)) (cs_bookings s) = None"
    and "length (cs_bookings s) < MAX_BOOKINGS"
  shows "commit_state s ap = s\<lparr>cs_bookings := cs_bookings s @ [\<lparr>bk_inputs = sort (sa_input_set ap),
      bk_amount_sat = sa_charge_sat ap, bk_elapsed_at_ns = cs_window_elapsed_ns s\<rparr>]\<rparr>"
    "extra_against_bookings (cs_bookings s) (sa_input_set ap) ch = ch"
  using assms find_None_list_ex [THEN iffD1, OF assms(1)]
  by (simp_all add: commit_state_def extra_against_bookings_def)

lemma commit_known:
  assumes "List.find (\<lambda>b. same_inputs (bk_inputs b) (sa_input_set ap)) (cs_bookings s) = Some x"
  shows "commit_state s ap = s\<lparr>cs_bookings := update_first (\<lambda>b. same_inputs (bk_inputs b) (sa_input_set ap))
      (\<lambda>e. if bk_amount_sat e < sa_charge_sat ap
        then e\<lparr>bk_amount_sat := sa_charge_sat ap, bk_elapsed_at_ns := cs_window_elapsed_ns s\<rparr> else e)
      (cs_bookings s)\<rparr>"
    "extra_against_bookings (cs_bookings s) (sa_input_set ap) ch = sat_sub ch (bk_amount_sat x)"
proof -
  have "list_ex (\<lambda>b. same_inputs (bk_inputs b) (sa_input_set ap)) (cs_bookings s)"
    using find_Some_mem [OF assms] by (auto simp: list_ex_iff)
  then show "commit_state s ap = s\<lparr>cs_bookings := update_first (\<lambda>b. same_inputs (bk_inputs b) (sa_input_set ap))
      (\<lambda>e. if bk_amount_sat e < sa_charge_sat ap
        then e\<lparr>bk_amount_sat := sa_charge_sat ap, bk_elapsed_at_ns := cs_window_elapsed_ns s\<rparr> else e)
      (cs_bookings s)\<rparr>"
    by (simp add: commit_state_def)
qed (simp add: extra_against_bookings_def assms)

lemma commit_booked_total:
  assumes "list_ex (\<lambda>b. same_inputs (bk_inputs b) (sa_input_set ap)) (cs_bookings s)
      \<or> length (cs_bookings s) < MAX_BOOKINGS"
  shows "booked_since (cs_bookings (commit_state s ap)) 0 = booked_since (cs_bookings s) 0
    + unat (extra_against_bookings (cs_bookings s) (sa_input_set ap) (sa_charge_sat ap))"
proof (cases "List.find (\<lambda>b. same_inputs (bk_inputs b) (sa_input_set ap)) (cs_bookings s)")
  case None
  with assms have "length (cs_bookings s) < MAX_BOOKINGS" by (simp add: find_None_list_ex)
  with None show ?thesis by (simp add: commit_new booked_since_def)
next
  case (Some x)
  let ?f = "\<lambda>e. if bk_amount_sat e < sa_charge_sat ap
     then e\<lparr>bk_amount_sat := sa_charge_sat ap, bk_elapsed_at_ns := cs_window_elapsed_ns s\<rparr> else e"
  let ?g = "\<lambda>b. if 0 \<le> unat (bk_elapsed_at_ns b) then unat (bk_amount_sat b) else 0"
  have "?g x + unat (sat_sub (sa_charge_sat ap) (bk_amount_sat x)) = ?g (?f x)"
    by (simp add: unat_sat_sub word_less_nat_alt not_less)
  moreover note sum_update_first [OF Some, of ?g ?f]
  ultimately show ?thesis by (simp only: commit_known [OF Some] booked_since_def core_state.simps) simp
qed

lemma commit_booked_since:
  assumes "list_ex (\<lambda>b. same_inputs (bk_inputs b) (sa_input_set ap)) (cs_bookings s)
      \<or> length (cs_bookings s) < MAX_BOOKINGS"
    and "lo \<le> unat (cs_window_elapsed_ns s)"
  shows "booked_since (cs_bookings s) lo
      + unat (extra_against_bookings (cs_bookings s) (sa_input_set ap) (sa_charge_sat ap))
    \<le> booked_since (cs_bookings (commit_state s ap)) lo"
proof (cases "List.find (\<lambda>b. same_inputs (bk_inputs b) (sa_input_set ap)) (cs_bookings s)")
  case None
  with assms have "length (cs_bookings s) < MAX_BOOKINGS" by (simp add: find_None_list_ex)
  with None show ?thesis using assms(2) by (simp add: commit_new booked_since_def)
next
  case (Some x)
  let ?f = "\<lambda>e. if bk_amount_sat e < sa_charge_sat ap
     then e\<lparr>bk_amount_sat := sa_charge_sat ap, bk_elapsed_at_ns := cs_window_elapsed_ns s\<rparr> else e"
  let ?g = "\<lambda>b. if lo \<le> unat (bk_elapsed_at_ns b) then unat (bk_amount_sat b) else 0"
  have "?g x + unat (sat_sub (sa_charge_sat ap) (bk_amount_sat x)) \<le> ?g (?f x)"
    using assms(2) by (simp add: unat_sat_sub word_less_nat_alt not_less)
  moreover note sum_update_first [OF Some, of ?g ?f]
  ultimately show ?thesis by (simp only: commit_known [OF Some] booked_since_def core_state.simps) simp
qed

lemma find_append_new: "List.find P xs = None \<Longrightarrow> P y \<Longrightarrow> List.find P (xs @ [y]) = Some y"
  by (induction xs) (auto split: if_splits)

lemma find_update_first:
  "List.find P xs = Some x \<Longrightarrow> P (f x) \<Longrightarrow> List.find P (update_first P f xs) = Some (f x)"
  by (induction xs) (auto split: if_splits)

lemma commit_covers:
  assumes room: "list_ex (\<lambda>b. same_inputs (bk_inputs b) (sa_input_set ap)) (cs_bookings s)
      \<or> length (cs_bookings s) < MAX_BOOKINGS"
    and charge: "charge \<le> sa_charge_sat ap"
  shows "extra_against_bookings (cs_bookings (commit_state s ap)) (sa_input_set ap) charge = 0"
proof (cases "List.find (\<lambda>b. same_inputs (bk_inputs b) (sa_input_set ap)) (cs_bookings s)")
  case None
  with room have "length (cs_bookings s) < MAX_BOOKINGS" by (simp add: find_None_list_ex)
  note new = commit_new(1) [OF None this] and found = find_append_new [OF None]
  have "same_inputs (sort (sa_input_set ap)) (sa_input_set ap)" by (simp add: same_inputs_def list_all_iff)
  then show ?thesis using charge by (simp add: new extra_against_bookings_def found sat_sub_def)
next
  case (Some x)
  note known = commit_known(1) [OF Some]
  have "same_inputs (bk_inputs x) (sa_input_set ap)" using find_Some_mem [OF Some] by simp
  then show ?thesis
    using charge by (auto simp: known extra_against_bookings_def find_update_first [OF Some] sat_sub_def)
qed

subsection \<open>Authorizing\<close>

lemma valid_window:
  assumes "policy_validate policy = Ok q"
  shows "sp_window policy < 2 ^ 64" and "policy_floor policy \<le> policy_cap policy"
  using assms by (simp_all add: policy_validate_Ok)

lemma allowance_le_cap: "unat (allowance p b) \<le> policy_cap p"
  by (auto simp: unat_allowance)

lemma authorize_state_snd:
  "authorize_state pr s policy p desc vp bal ob = (r, s') \<Longrightarrow>
     (if policy_validate policy = Ok policy then s' = prune (advance s ob) (sp_window policy) else s' = s)"
  by (cases "policy_validate policy")
    (auto simp: authorize_state_def Let_def policy_validate_Ok split: if_splits)

lemma authorize_state_Ok:
  assumes "authorize_state pr s policy p desc vp bal ob = (Ok ap, s')"
  shows "policy_validate policy = Ok policy" and "s' = prune (advance s ob) (sp_window policy)"
    and "cs_passphrase_used_since_install s"
    and "spend_charge pr p desc vp = Ok (sa_charge_sat ap)" and "input_set p = Ok (sa_input_set ap)"
    and "unat (extra_against_bookings (cs_bookings s') (sa_input_set ap) (sa_charge_sat ap))
      \<le> unat (allowance policy (spend_policy_reference_sats bal)) - unat (booked_sat s')"
    and "list_ex (\<lambda>b. same_inputs (bk_inputs b) (sa_input_set ap)) (cs_bookings s')
      \<or> length (cs_bookings s') < MAX_BOOKINGS"
proof -
  show v: "policy_validate policy = Ok policy"
    using assms by (cases "policy_validate policy")
      (auto simp: authorize_state_def policy_validate_Ok)
  show s': "s' = prune (advance s ob) (sp_window policy)"
    using authorize_state_snd [OF assms] v by simp
  from assms v have r: "cs_passphrase_used_since_install s"
    "res_bind (spend_charge pr p desc vp) (\<lambda>charge. res_bind (input_set p) (\<lambda>inps.
       if sat_sub (allowance policy (spend_policy_reference_sats bal)) (booked_sat s')
            < extra_against_bookings (cs_bookings s') inps charge then Err SE_SpendLimitExceeded
       else if \<not> list_ex (\<lambda>b. same_inputs (bk_inputs b) inps) (cs_bookings s')
            \<and> MAX_BOOKINGS \<le> length (cs_bookings s') then Err SE_WindowLedgerFull
       else Ok \<lparr>sa_input_set = inps, sa_charge_sat = charge\<rparr>)) = Ok ap"
    unfolding s' by (simp_all add: authorize_state_def Let_def split: if_splits)
  then show "cs_passphrase_used_since_install s" by simp
  from r(2) show "spend_charge pr p desc vp = Ok (sa_charge_sat ap)" "input_set p = Ok (sa_input_set ap)"
    "unat (extra_against_bookings (cs_bookings s') (sa_input_set ap) (sa_charge_sat ap))
      \<le> unat (allowance policy (spend_policy_reference_sats bal)) - unat (booked_sat s')"
    "list_ex (\<lambda>b. same_inputs (bk_inputs b) (sa_input_set ap)) (cs_bookings s')
      \<or> length (cs_bookings s') < MAX_BOOKINGS"
    by (auto simp: res_simps word_less_nat_alt unat_sat_sub not_less split: if_splits)
qed

lemma authorize_eq:
  "authorize pr c policy p desc vp bal ob = (r, c') \<longleftrightarrow>
     (\<exists>s'. authorize_state pr (wc_state c) policy p desc vp bal ob = (r, s') \<and> c' = c\<lparr>wc_state := s'\<rparr>)"
  by (auto simp: authorize_def split: prod.splits)

lemma authorize_state_eq:
  assumes "policy_validate policy = Ok policy" and "cs_passphrase_used_since_install s"
    and "spend_charge pr p desc vp = Ok charge" and "input_set p = Ok inps"
    and s': "s' = prune (advance s ob) (sp_window policy)"
  shows "authorize_state pr s policy p desc vp bal ob =
    (if unat (allowance policy (spend_policy_reference_sats bal)) - unat (booked_sat s')
          < unat (extra_against_bookings (cs_bookings s') inps charge) then Err SE_SpendLimitExceeded
     else if \<not> list_ex (\<lambda>b. same_inputs (bk_inputs b) inps) (cs_bookings s')
          \<and> MAX_BOOKINGS \<le> length (cs_bookings s') then Err SE_WindowLedgerFull
     else Ok \<lparr>sa_input_set = inps, sa_charge_sat = charge\<rparr>, s')"
  using assms(1-4) unfolding s'
  by (simp add: authorize_state_def Let_def word_less_nat_alt unat_sat_sub)

subsection \<open>Histories\<close>

lemma exposed_since_Cons:
  "exposed_since w ((t, inps, ch) # log) lo =
     (if lo \<le> t then ch - prior_charge w t inps log else 0) + exposed_since w log lo"
  by (simp add: exposed_since_def)

lemma exposed_between_Cons:
  "exposed_between w ((t, inps, ch) # log) lo hi =
     (if lo \<le> t \<and> t \<le> hi then ch - prior_charge w t inps log else 0) + exposed_between w log lo hi"
  by (simp add: exposed_between_def)

lemma exposed_between_le: "exposed_between w log lo hi \<le> exposed_since w log lo"
  by (induction log) (auto simp: exposed_between_Cons exposed_since_Cons exposed_between_def exposed_since_def)

lemma exposed_since_late:
  "\<forall>e\<in>set log. fst e < lo \<Longrightarrow> exposed_since w log lo = 0"
  by (induction log) (auto simp: exposed_since_Cons exposed_since_def)

lemma prior_charge_ge:
  "(t', inps, ch) \<in> set log \<Longrightarrow> t \<le> t' + w \<Longrightarrow> ch \<le> prior_charge w t inps log"
  by (induction log) (auto simp: prior_charge_def max_def)

lemma run_inv_empty: "run_inv policy [] core_state_empty"
  by (simp add: run_inv_def core_state_empty_def exposed_since_def exposed_between_def booked_since_def)

lemma run_inv_advance_prune:
  assumes inv: "run_inv policy log s" and w: "sp_window policy < 2 ^ 64"
  shows "run_inv policy log (prune (advance s ob) (sp_window policy))"
proof (cases "cs_initialized s")
  case False
  with inv show ?thesis
    by (simp add: run_inv_def prune_bookings [OF w] exposed_since_def exposed_between_def booked_since_def)
next
  case True
  let ?e = "unat (cs_window_elapsed_ns (advance s ob))"
  have e: "unat (cs_window_elapsed_ns s) \<le> ?e" by (rule advance_elapsed_mono [OF True])
  have "exposed_since (sp_window policy) log lo \<le> booked_since (cs_bookings (prune (advance s ob) (sp_window policy))) lo"
    if "?e - sp_window policy \<le> lo" for lo
  proof -
    have "unat (cs_window_elapsed_ns s) - sp_window policy \<le> lo" using e that by simp
    then show ?thesis
      using inv booked_since_filter [OF that, of "cs_bookings s"]
      by (simp add: run_inv_def prune_bookings [OF w])
  qed
  then show ?thesis
    using inv e order.trans [OF booked_since_filter_le]
    by (auto simp: run_inv_def prune_bookings [OF w] intro: order.trans)
qed

lemma commit_keeps [simp]:
  "cs_window_elapsed_ns (commit_state s ap) = cs_window_elapsed_ns s"
  "cs_initialized (commit_state s ap) = cs_initialized s"
  by (simp_all add: commit_state_def)

lemma commit_bookings_cases:
  assumes "b \<in> set (cs_bookings (commit_state s ap))"
  shows "b \<in> set (cs_bookings s)
    \<or> unat (bk_elapsed_at_ns b) = unat (cs_window_elapsed_ns s) \<and> bk_amount_sat b = sa_charge_sat ap
      \<and> (bk_inputs b = sort (sa_input_set ap)
         \<or> same_inputs (bk_inputs b) (sa_input_set ap) \<and> (\<exists>b'\<in>set (cs_bookings s). bk_inputs b' = bk_inputs b))"
  using assms
  by (auto simp: commit_state_def dest!: set_update_first find_Some_mem split: if_splits)

lemma commit_inputs:
  assumes "b \<in> set (cs_bookings (commit_state s ap))"
    and ledger: "\<forall>b\<in>set (cs_bookings s). sorted (bk_inputs b) \<and> distinct (bk_inputs b)"
    and ap: "sorted (sa_input_set ap)" "distinct (sa_input_set ap)"
  shows "b \<in> set (cs_bookings s)
    \<or> unat (bk_elapsed_at_ns b) = unat (cs_window_elapsed_ns s) \<and> bk_amount_sat b = sa_charge_sat ap
      \<and> bk_inputs b = sa_input_set ap"
proof -
  have "bk_inputs b = sa_input_set ap"
    if "same_inputs (bk_inputs b) (sa_input_set ap)" "b' \<in> set (cs_bookings s)" "bk_inputs b' = bk_inputs b" for b'
    using that ledger ap same_inputs_iff [of "bk_inputs b" "sa_input_set ap"] by metis
  then show ?thesis using commit_bookings_cases [OF assms(1)] ap by (auto simp: sorted_sort_id)
qed

lemma extra_covers_exposure:
  assumes entries: "\<forall>b\<in>set bs. (unat (bk_elapsed_at_ns b), bk_inputs b, unat (bk_amount_sat b)) \<in> set log"
    and ledger: "\<forall>b\<in>set bs. sorted (bk_inputs b) \<and> distinct (bk_inputs b)"
    and recent: "\<forall>b\<in>set bs. t \<le> unat (bk_elapsed_at_ns b) + w"
    and inps: "sorted inps" "distinct inps"
  shows "unat ch - prior_charge w t inps log \<le> unat (extra_against_bookings bs inps ch)"
proof (cases "List.find (\<lambda>b. same_inputs (bk_inputs b) inps) bs")
  case (Some x)
  note x = find_Some_mem [OF Some]
  then have "bk_inputs x = inps" using ledger inps same_inputs_iff [of "bk_inputs x" inps] by blast
  then have "unat (bk_amount_sat x) \<le> prior_charge w t inps log"
    using x entries recent prior_charge_ge by fastforce
  then show ?thesis by (simp add: extra_against_bookings_def Some unat_sat_sub)
qed (simp add: extra_against_bookings_def)

lemma run_inv_commit:
  assumes inv: "run_inv policy log s"
    and ledger: "\<forall>b\<in>set (cs_bookings s). sorted (bk_inputs b) \<and> distinct (bk_inputs b)"
    and ap: "sorted (sa_input_set ap)" "distinct (sa_input_set ap)"
    and recent: "\<forall>b\<in>set (cs_bookings s). unat (cs_window_elapsed_ns s) \<le> unat (bk_elapsed_at_ns b) + sp_window policy"
    and room: "list_ex (\<lambda>b. same_inputs (bk_inputs b) (sa_input_set ap)) (cs_bookings s)
      \<or> length (cs_bookings s) < MAX_BOOKINGS"
    and cap: "booked_since (cs_bookings s) 0
      + unat (extra_against_bookings (cs_bookings s) (sa_input_set ap) (sa_charge_sat ap)) \<le> policy_cap policy"
    and init: "cs_initialized s"
  shows "run_inv policy ((unat (cs_window_elapsed_ns s), sa_input_set ap, unat (sa_charge_sat ap)) # log)
    (commit_state s ap)"
proof -
  let ?w = "sp_window policy" and ?t = "unat (cs_window_elapsed_ns s)"
  let ?bs = "cs_bookings (commit_state s ap)"
  let ?log = "(?t, sa_input_set ap, unat (sa_charge_sat ap)) # log"
  have extra: "unat (sa_charge_sat ap) - prior_charge ?w ?t (sa_input_set ap) log
      \<le> unat (extra_against_bookings (cs_bookings s) (sa_input_set ap) (sa_charge_sat ap))"
    using inv by (intro extra_covers_exposure ledger recent ap) (simp add: run_inv_def)
  have times: "\<forall>e\<in>set log. fst e \<le> ?t" using inv by (simp add: run_inv_def)
  have since: "exposed_since ?w ?log lo \<le> booked_since ?bs lo" if lo: "?t - ?w \<le> lo" for lo
  proof (cases "lo \<le> ?t")
    case True
    have "exposed_since ?w log lo \<le> booked_since (cs_bookings s) lo" using inv lo by (simp add: run_inv_def)
    then show ?thesis
      using True extra commit_booked_since [OF room True] by (simp add: exposed_since_Cons)
  next
    case False
    then have "exposed_since ?w log lo = 0" using times by (intro exposed_since_late) force
    then show ?thesis using False by (simp add: exposed_since_Cons)
  qed
  have total: "booked_since ?bs 0 \<le> policy_cap policy" using cap commit_booked_total [OF room] by simp
  have between: "exposed_between ?w ?log lo (lo + ?w) \<le> policy_cap policy" for lo
  proof (cases "lo \<le> ?t \<and> ?t \<le> lo + ?w")
    case True
    then have "exposed_since ?w ?log lo \<le> booked_since ?bs lo" by (intro since) linarith
    also have "\<dots> \<le> policy_cap policy" using total booked_since_mono [of 0 lo ?bs] by simp
    finally show ?thesis using exposed_between_le order.trans by blast
  next
    case False
    then show ?thesis using inv by (auto simp: exposed_between_Cons run_inv_def)
  qed
  have entries: "(unat (bk_elapsed_at_ns b), bk_inputs b, unat (bk_amount_sat b)) \<in> set ?log" if "b \<in> set ?bs" for b
    using commit_inputs [OF that ledger ap] inv by (auto simp: run_inv_def)
  show ?thesis
    using since total between entries times init by (simp add: run_inv_def)
qed

lemma counter_wf_advance_prune:
  "counter_wf c \<Longrightarrow> sp_window policy < 2 ^ 64 \<Longrightarrow>
     counter_wf (c\<lparr>wc_state := prune (advance (wc_state c) ob) (sp_window policy)\<rparr>)"
  by (auto simp: counter_wf_def core_state_wf_def prune_bookings list_all_iff
      intro: order.trans [OF length_filter_le])

lemma counter_wf_commit:
  assumes wf: "counter_wf c"
    and ap: "sorted (sa_input_set ap)" "distinct (sa_input_set ap)" "sa_input_set ap \<noteq> []"
      "length (sa_input_set ap) \<le> MAX_INPUTS" "list_all out_point_wf (sa_input_set ap)"
  shows "counter_wf (commit c ap)"
proof -
  have ledger: "\<forall>b\<in>set (cs_bookings (wc_state c)). sorted (bk_inputs b) \<and> distinct (bk_inputs b)"
    using wf by (simp add: counter_wf_def)
  have "booking_wf b \<and> sorted (bk_inputs b) \<and> distinct (bk_inputs b)"
    if "b \<in> set (cs_bookings (commit_state (wc_state c) ap))" for b
    using commit_inputs [OF that ledger ap(1,2)] wf ap
    by (auto simp: counter_wf_def core_state_wf_def list_all_iff booking_wf_def)
  moreover have "length (cs_bookings (commit_state (wc_state c) ap)) \<le> MAX_BOOKINGS"
    using wf by (auto simp: counter_wf_def core_state_wf_def commit_state_def)
  ultimately show ?thesis using wf by (auto simp: counter_wf_def core_state_wf_def commit_def list_all_iff)
qed

lemma counter_reopen:
  assumes "aead_correct A" and "counter_wf c" and "length nonce = NONCE_LEN"
  shows "\<exists>blob. counter_seal A (Some nonce) c = Ok blob
    \<and> counter_open A (wc_kek c) blob = Ok (c\<lparr>wc_state := forget_sentinels (wc_state c)\<rparr>)"
proof -
  obtain blob where "core_encrypt A (Some nonce) (wc_kek c) (wc_state c) = Ok blob"
      "core_decrypt A (wc_kek c) blob = Ok (forget_sentinels (wc_state c))"
    using core_encrypt_decrypt [OF assms(1) _ assms(3), of "wc_state c" "wc_kek c"] assms(2)
    by (auto simp: counter_wf_def)
  then show ?thesis using assms(2) by (simp add: counter_seal_def counter_open_def counter_wf_def)
qed

lemma forget_sentinels_keeps [simp]:
  "cs_bookings (forget_sentinels s) = cs_bookings s"
  "cs_window_elapsed_ns (forget_sentinels s) = cs_window_elapsed_ns s"
  "cs_initialized (forget_sentinels s) = cs_initialized s"
  by (simp_all add: forget_sentinels_def)

lemma run_inv_forget: "run_inv policy log (forget_sentinels s) = run_inv policy log s"
  by (simp add: run_inv_def)

lemma run_inv_passphrase:
  "run_inv policy log (s\<lparr>cs_passphrase_used_since_install := u\<rparr>) = run_inv policy log s"
  by (simp add: run_inv_def)

lemma counter_wf_state:
  "counter_wf (c\<lparr>wc_state := forget_sentinels (wc_state c)\<rparr>) = counter_wf c"
  "counter_wf (set_passphrase_used_since_install c used) = counter_wf c"
  by (simp_all add: counter_wf_def core_state_wf_def set_passphrase_used_since_install_def)

lemma run_ok_authorize:
  assumes "run_ok policy log c" and "authorize pr c policy p desc vp bal ob = (r, c')"
  shows "run_ok policy log c'"
proof -
  obtain s' where s': "authorize_state pr (wc_state c) policy p desc vp bal ob = (r, s')" "c' = c\<lparr>wc_state := s'\<rparr>"
    using assms(2) by (auto simp: authorize_eq)
  show ?thesis
  proof (cases "policy_validate policy = Ok policy")
    case True
    note w = valid_window(1) [OF True]
    show ?thesis
      using assms(1) True authorize_state_snd [OF s'(1)] s'(2)
        counter_wf_advance_prune [OF _ w] run_inv_advance_prune [OF _ w]
      by (simp add: run_ok_def)
  next
    case False
    then show ?thesis using assms(1) authorize_state_snd [OF s'(1)] s'(2) by (simp add: run_ok_def)
  qed
qed

lemma run_ok_commit:
  assumes ok: "run_ok policy log c" and ids: "txids_ok p"
    and auth: "authorize pr c policy p desc vp bal ob = (Ok ap, c')"
  shows "run_ok policy (log_entry c' ap # log) (commit c' ap)"
proof -
  obtain s' where s': "authorize_state pr (wc_state c) policy p desc vp bal ob = (Ok ap, s')" "c' = c\<lparr>wc_state := s'\<rparr>"
    using auth by (auto simp: authorize_eq)
  note a = authorize_state_Ok [OF s'(1)]
  note w = valid_window [OF a(1)]
  have ap: "sorted (sa_input_set ap)" "distinct (sa_input_set ap)" "sa_input_set ap \<noteq> []"
      "length (sa_input_set ap) \<le> MAX_INPUTS" "list_all out_point_wf (sa_input_set ap)"
    using input_set_Ok [OF a(5)] ids by simp_all
  have c': "counter_wf c'" "run_inv policy log s'"
    using run_ok_authorize [OF ok auth] a(1) s'(2) by (simp_all add: run_ok_def)
  have cap: "booked_since (cs_bookings s') 0 \<le> policy_cap policy" using c'(2) by (simp add: run_inv_def)
  have "booked_since (cs_bookings s') 0
      + unat (extra_against_bookings (cs_bookings s') (sa_input_set ap) (sa_charge_sat ap)) \<le> policy_cap policy"
    using a(6) cap allowance_le_cap [of policy "spend_policy_reference_sats bal"]
      unat_lt2p [of "unwrap_or (window_cap_sat policy) u64_max"]
    by (simp add: unat_booked_sat)
  moreover have "\<forall>b\<in>set (cs_bookings s'). unat (cs_window_elapsed_ns s') \<le> unat (bk_elapsed_at_ns b) + sp_window policy"
    unfolding a(2) prune_bookings [OF w(1)] by auto
  moreover have "\<forall>b\<in>set (cs_bookings s'). sorted (bk_inputs b) \<and> distinct (bk_inputs b)" "cs_initialized s'"
    using c'(1) s'(2) a(2) by (simp_all add: counter_wf_def)
  ultimately have "run_inv policy ((unat (cs_window_elapsed_ns s'), sa_input_set ap, unat (sa_charge_sat ap)) # log)
      (commit_state s' ap)"
    using run_inv_commit [OF c'(2) _ ap(1,2) _ a(7)] by blast
  then show ?thesis
    using counter_wf_commit [OF c'(1) ap] a(1) s'(2)
    by (simp add: run_ok_def log_entry_def commit_def window_elapsed_def duration_from_nanos_def)
qed

lemma window_run_ok:
  assumes "window_run pr A policy log c" and "aead_correct A"
  shows "run_ok policy log c"
  using assms(1)
proof induction
  case (install kek c)
  then show ?case
    using run_inv_empty by (auto simp: run_ok_def counter_new_def counter_wf_def core_state_wf_def
        core_state_empty_def split: if_splits)
next
  case (passphrase log c used)
  then show ?case
    by (simp add: run_ok_def counter_wf_state) (simp add: set_passphrase_used_since_install_def run_inv_passphrase)
next
  case (reopened log c nonce blob c')
  then have "counter_wf c" by (simp add: run_ok_def)
  then have "c' = c\<lparr>wc_state := forget_sentinels (wc_state c)\<rparr>"
    using counter_reopen [OF assms(2) _ reopened.hyps(3)] reopened.hyps by fastforce
  then show ?case using reopened.IH by (simp add: run_ok_def counter_wf_state run_inv_forget)
qed (blast intro: run_ok_authorize run_ok_commit)+

subsection \<open>The sample spend\<close>

lemma matches_descriptor_from_total:
  assumes "\<forall>i\<in>set is. \<exists>out. derive_at pr d i = Ok out"
  shows "matches_descriptor_from pr spk d is = Ok (\<exists>i\<in>set is. derives_to pr d i spk)"
  using assms by (induction "is") (auto simp: derives_to_def)

lemma sample_belongs:
  "belongs_to_wallet sample_prims spk (sample_descriptor BranchExternal) (Some (sample_descriptor BranchInternal)) 20
   = Ok (\<exists>b. own_script sample_prims (sample_descriptor b) 20 spk)"
proof -
  have tot: "matches_descriptor sample_prims spk (sample_descriptor b) 20
      = Ok (own_script sample_prims (sample_descriptor b) 20 spk)" for b
  proof -
    have "\<exists>out. derive_at sample_prims (sample_descriptor b) i = Ok out" if "i < 20" for i
      using that sample_out [of i b] by (simp add: MAX_NON_HARDENED_INDEX_def word_less_nat_alt word_le_nat_alt)
    then show ?thesis
      using matches_descriptor_from_total [of "index_range 20" sample_prims "sample_descriptor b" spk]
      by (simp add: matches_descriptor_def own_script_def)
  qed
  have "(\<exists>b. P b) \<longleftrightarrow> P BranchExternal \<or> P BranchInternal" for P
    by (metis derivation_branch.exhaust)
  then show ?thesis by (simp add: belongs_to_wallet_def tot)
qed

lemma sample_own:
  "own_script sample_prims (sample_descriptor BranchInternal) 20 (do_script_pubkey (sample_out BranchInternal 3))"
  "\<not> own_script sample_prims (sample_descriptor b) 20 [0x6a]"
proof -
  show "own_script sample_prims (sample_descriptor BranchInternal) 20 (do_script_pubkey (sample_out BranchInternal 3))"
    unfolding own_script_def derives_to_def
    by (rule exI [of _ 3]) (simp add: sample_out [OF small_index(2)])
  have "length (do_script_pubkey (sample_out b i)) = 34" if "i < 20" for i
    using that sample_children [of i b]
    by (auto simp: MAX_NON_HARDENED_INDEX_def word_less_nat_alt word_le_nat_alt)
  moreover have "derive_at sample_prims (sample_descriptor b) i = Ok (sample_out b i)" if "i < 20" for i
    using that sample_out [of i b] by (simp add: MAX_NON_HARDENED_INDEX_def word_less_nat_alt word_le_nat_alt)
  ultimately show "\<not> own_script sample_prims (sample_descriptor b) 20 [0x6a]"
    by (fastforce simp: own_script_def derives_to_def)
qed

lemma sample_charge:
  "spend_charge sample_prims sample_psbt (sample_text BranchExternal) sample_policy = Ok 61000"
proof -
  have pol: "vp_change_descriptor sample_policy = Some (sample_text BranchInternal)" "vp_gap_limit sample_policy = 20"
    by (simp_all add: sample_policy_def)
  have ins: "ps_inputs sample_psbt = [(hd (ps_inputs sample_psbt))]"
      "in_witness_utxo (hd (ps_inputs sample_psbt)) = Some sample_utxo" "to_value sample_utxo = 100000"
    by (simp_all add: sample_psbt_def sample_utxo_def)
  have outs: "tx_output (ps_unsigned_tx sample_psbt) = [\<lparr>to_value = 60000, to_script_pubkey = [0x6a]\<rparr>,
      \<lparr>to_value = 39000, to_script_pubkey = do_script_pubkey (sample_out BranchInternal 3)\<rparr>]"
    by (simp add: sample_psbt_def sample_tx_def)
  have b: "belongs_to_wallet sample_prims [0x6a] (sample_descriptor BranchExternal)
        (Some (sample_descriptor BranchInternal)) 20 = Ok False"
      "belongs_to_wallet sample_prims (do_script_pubkey (sample_out BranchInternal 3)) (sample_descriptor BranchExternal)
        (Some (sample_descriptor BranchInternal)) 20 = Ok True"
    using sample_own by (auto simp: sample_belongs)
  show ?thesis
    unfolding spend_charge_def
    by (subst ins(1)) (simp add: sample_parse pol ins(2,3) outs b checked_add_def checked_sub_def sat_add_def Let_def)
qed

lemma sample_spend_policy_valid: "policy_validate sample_spend_policy = Ok sample_spend_policy"
  by (simp add: policy_validate_Ok sample_spend_policy_def duration_from_secs_def)

lemma sample_authorize:
  "authorize sample_prims sample_counter sample_spend_policy sample_psbt (sample_text BranchExternal)
     sample_policy sample_balance sample_observation
   = (Ok sample_approval, sample_counter\<lparr>wc_state := prune (advance (wc_state sample_counter) sample_observation)
        (sp_window sample_spend_policy)\<rparr>)"
proof -
  have "unat (allowance sample_spend_policy (spend_policy_reference_sats sample_balance)) = 70000"
    by (simp add: unat_allowance sample_spend_policy_def sample_balance_def spend_policy_reference_sats_def
        sat_add_def share_of_def)
  then have al: "allowance sample_spend_policy (spend_policy_reference_sats sample_balance) = 70000"
    by (simp add: word_unat_eq_iff)
  have inps: "input_set sample_psbt = Ok [OutPoint (replicate 32 7) 0]"
    by (simp add: input_set_def sample_psbt_def sample_tx_def MAX_INPUTS_def btree_set_of_def)
  have bs: "cs_bookings (prune (advance (wc_state sample_counter) sample_observation) w) = []"
      "cs_passphrase_used_since_install (wc_state sample_counter)" for w
    by (simp_all add: prune_def Let_def sample_counter_def core_state_empty_def)
  show ?thesis
    by (simp add: authorize_def authorize_state_def sample_spend_policy_valid Let_def sample_charge inps al bs
        extra_against_bookings_def booked_sat_def sat_sub_def MAX_BOOKINGS_def sample_approval_def)
qed

lemma sample_run_start: "window_run sample_prims A policy [] sample_counter"
proof -
  have "window_run sample_prims A policy [] \<lparr>wc_kek = replicate 32 0, wc_state = core_state_empty\<rparr>"
    by (rule install [of "replicate 32 0"]) (simp add: counter_new_def)
  from passphrase [OF this, of True] show ?thesis
    by (simp add: sample_counter_def set_passphrase_used_since_install_def)
qed

section \<open>Properties\<close>

text \<open>
  C2: over every history of a counter since installation (spends booked, refusals, approvals
  that were never signed, passphrase entries and sealed restarts in any order), the value newly
  put at risk by the booked spends within any stretch of window time as long as the policy's
  window is at most the policy's cap.
\<close>

theorem window_never_exceeds_cap:
  assumes "aead_correct A" and "window_run pr A policy log c"
  shows "exposed_between (sp_window policy) log t (t + sp_window policy) \<le> policy_cap policy"
proof (cases "policy_validate policy = Ok policy")
  case True
  then show ?thesis using window_run_ok [OF assms(2,1)] by (simp add: run_ok_def run_inv_def)
next
  case False
  then show ?thesis using window_run_ok [OF assms(2,1)] by (simp add: run_ok_def exposed_between_def)
qed

theorem window_never_exceeds_cap_witness:
  "exposed_between (sp_window sample_spend_policy) [(0, [OutPoint (replicate 32 7) 0], 61000)] 0
     (0 + sp_window sample_spend_policy) \<le> 70000
   \<and> exposures (sp_window sample_spend_policy) [(0, [OutPoint (replicate 32 7) 0], 61000)] = [(0, 61000)]"
proof -
  let ?c = "sample_counter\<lparr>wc_state := prune (advance (wc_state sample_counter) sample_observation)
        (sp_window sample_spend_policy)\<rparr>"
  have "txids_ok sample_psbt" by (simp add: txids_ok_def sample_psbt_def sample_tx_def out_point_wf_def)
  from spent [OF sample_run_start this sample_authorize]
  have "window_run sample_prims plain_aead sample_spend_policy [log_entry ?c sample_approval] (commit ?c sample_approval)" .
  moreover have "log_entry ?c sample_approval = (0, [OutPoint (replicate 32 7) 0], 61000)"
    by (simp add: log_entry_def sample_approval_def window_elapsed_def duration_from_nanos_def advance_elapsed
        sample_counter_def core_state_empty_def)
  ultimately show ?thesis
    using window_never_exceeds_cap [OF plain_aead_correct, of sample_prims sample_spend_policy _ _ 0]
    by (force simp: sample_spend_policy_def prior_charge_def)
qed



text \<open>
  C17: window time is conservative. One observation adds at most what the monotonic clock
  advanced since the anchor, and at most ten minutes per new block when both heights are known.
  It adds nothing after a reboot, nothing when the monotonic clock went back, and nothing when
  the wall clock went back or moved further than the monotonic clock.
\<close>

theorem step_elapsed_conservative:
  "step_elapsed s m boot height wall \<le> unat m - unat (cs_monotonic_ns_at_anchor s)
   \<and> (\<forall>p h. cs_block_height_at_anchor s = Some p \<and> height = Some h \<longrightarrow>
        step_elapsed s m boot height wall \<le> (unat h - unat p) * 600 * 10 ^ 9)
   \<and> (\<forall>a b. cs_boot_id_at_anchor s = Some a \<and> boot = Some b \<and> a \<noteq> b \<longrightarrow>
        step_elapsed s m boot height wall = 0)
   \<and> (\<forall>p n. cs_wall_unix_ns_at_anchor s = Some p \<and> wall = Some n
        \<and> (n < p \<or> unat m - unat (cs_monotonic_ns_at_anchor s) < unat n - unat p) \<longrightarrow>
        step_elapsed s m boot height wall = 0)"
  by (intro conjI allI impI)
    (rule step_elapsed_le_mono, clarify, erule step_elapsed_le_blocks, clarify, erule (1) step_elapsed_reboot,
      elim conjE, hypsubst, erule (1) step_elapsed_wall_jump)

theorem step_elapsed_conservative_witness:
  "step_elapsed (core_state_empty\<lparr>cs_boot_id_at_anchor := Some 1, cs_block_height_at_anchor := Some 10,
      cs_wall_unix_ns_at_anchor := Some 50\<rparr>) 900 (Some 2) (Some 11) (Some 40) = 0"
  using step_elapsed_conservative [of "core_state_empty\<lparr>cs_boot_id_at_anchor := Some 1,
      cs_block_height_at_anchor := Some 10, cs_wall_unix_ns_at_anchor := Some 50\<rparr>" 900 "Some 2" "Some 11" "Some 40"]
  by simp

text \<open>
  C8: the charge of a PSBT is exactly what leaves the wallet: charge plus the outputs that the
  receive or change descriptor derives inside the gap add up to the inputs, without wrap-around
  or saturation, and every input names the output it spends.
\<close>

theorem spend_charge_exact:
  assumes "spend_charge pr p descriptor vp = Ok charge"
  shows "list_all (\<lambda>i. in_witness_utxo i \<noteq> None) (ps_inputs p)
    \<and> unat charge + outputs_value (wallet_script pr descriptor vp) p = inputs_value p"
  using assms by (rule spend_charge_Ok)

theorem spend_charge_exact_witness:
  "unat (61000 :: u64) + outputs_value (wallet_script sample_prims (sample_text BranchExternal) sample_policy)
     sample_psbt = inputs_value sample_psbt"
  using spend_charge_exact [OF sample_charge] by simp


text \<open>
  a refused authorization books nothing. An invalid policy leaves the counter untouched;
  every other refusal only moves the clock anchor and drops expired bookings, so no booking
  inside the window is lost, none is added and the booked total does not grow.
\<close>

theorem authorize_refusal_books_nothing:
  assumes "authorize pr c policy p desc vp bal ob = (Err e, c')"
  shows "(if policy_validate policy = Ok policy
     then cs_bookings (wc_state c') = filter (\<lambda>b. window_elapsed c' \<le> unat (bk_elapsed_at_ns b) + sp_window policy)
            (cs_bookings (wc_state c))
       \<and> passphrase_used_since_install c' = passphrase_used_since_install c
     else c' = c)
    \<and> booked_sat (wc_state c') \<le> booked_sat (wc_state c)"
proof -
  obtain s' where s': "authorize_state pr (wc_state c) policy p desc vp bal ob = (Err e, s')" "c' = c\<lparr>wc_state := s'\<rparr>"
    using assms by (auto simp: authorize_eq)
  note r = authorize_state_snd [OF s'(1)]
  show ?thesis
  proof (cases "policy_validate policy = Ok policy")
    case True
    note w = valid_window(1) [OF True]
    have "unat (booked_sat s') \<le> unat (booked_sat (wc_state c))"
      using r True booked_since_filter_le by (simp add: unat_booked_sat prune_bookings [OF w] min.coboundedI1)
    then show ?thesis
      using True r s'(2) by (simp add: prune_bookings [OF w] window_elapsed_def duration_from_nanos_def
          passphrase_used_since_install_def word_le_nat_alt le_diff_conv)
  next
    case False
    then have "c' = c" using r s'(2) by simp
    then show ?thesis using False by simp
  qed
qed

theorem authorize_refusal_books_nothing_witness:
  "booked_sat (wc_state (snd (authorize sample_prims (sample_counter\<lparr>wc_state := core_state_empty\<rparr>)
      sample_spend_policy sample_psbt (sample_text BranchExternal) sample_policy sample_balance sample_observation)))
   \<le> booked_sat core_state_empty"
proof -
  have "fst (authorize sample_prims (sample_counter\<lparr>wc_state := core_state_empty\<rparr>)
      sample_spend_policy sample_psbt (sample_text BranchExternal) sample_policy sample_balance sample_observation)
    = Err SE_SpendLimitExceeded"
    by (simp add: authorize_def authorize_state_def sample_spend_policy_valid Let_def core_state_empty_def)
  then obtain c' where r: "authorize sample_prims (sample_counter\<lparr>wc_state := core_state_empty\<rparr>)
      sample_spend_policy sample_psbt (sample_text BranchExternal) sample_policy sample_balance sample_observation
    = (Err SE_SpendLimitExceeded, c')"
    by (metis prod.collapse)
  then show ?thesis using authorize_refusal_books_nothing [OF r] by simp
qed

text \<open>
  booking an approval covers its inputs: signing the same inputs again for at most the same
  charge costs nothing of the window, and the booked total has grown by exactly the extra that
  was authorized.
\<close>

theorem commit_covers_resigning:
  assumes "authorize pr c policy p desc vp bal ob = (Ok ap, c')" and "charge \<le> sa_charge_sat ap"
  shows "extra_against_bookings (cs_bookings (wc_state (commit c' ap))) (sa_input_set ap) charge = 0
    \<and> booked_since (cs_bookings (wc_state (commit c' ap))) 0 = booked_since (cs_bookings (wc_state c')) 0
        + unat (extra_against_bookings (cs_bookings (wc_state c')) (sa_input_set ap) (sa_charge_sat ap))"
proof -
  obtain s' where s': "authorize_state pr (wc_state c) policy p desc vp bal ob = (Ok ap, s')" "c' = c\<lparr>wc_state := s'\<rparr>"
    using assms(1) by (auto simp: authorize_eq)
  note r = authorize_state_Ok [OF s'(1)]
  have "extra_against_bookings (cs_bookings (commit_state s' ap)) (sa_input_set ap) charge = 0"
    using commit_covers [OF r(7) assms(2)] .
  then show ?thesis using commit_booked_total [OF r(7)] s'(2) by (simp add: commit_def)
qed

theorem commit_covers_resigning_witness:
  "extra_against_bookings (cs_bookings (wc_state (commit (sample_counter\<lparr>wc_state :=
      prune (advance (wc_state sample_counter) sample_observation) (sp_window sample_spend_policy)\<rparr>) sample_approval)))
    [OutPoint (replicate 32 7) 0] 60500 = 0"
  using commit_covers_resigning [OF sample_authorize, of 60500]
  by (simp add: sample_approval_def word_le_nat_alt)

text \<open>
  the window frees itself. Once trusted time of more than one window has passed since the
  last observation, every booking has expired and any PSBT whose charge is within the allowance
  is approved, whatever was booked before.
\<close>

theorem window_frees_itself:
  assumes "policy_validate policy = Ok policy" and "passphrase_used_since_install c"
    and "cs_initialized (wc_state c)"
    and "\<forall>b\<in>set (cs_bookings (wc_state c)). bk_elapsed_at_ns b \<le> cs_window_elapsed_ns (wc_state c)"
    and "sp_window policy < step_elapsed (wc_state c) (duration_as_ns (ob_now ob)) (ob_boot_id ob)
      (ob_tip_height ob) (ob_wall_unix_ns ob)"
    and "window_elapsed c + sp_window policy < 2 ^ 64 - 1"
    and "spend_charge pr p desc vp = Ok charge" and "input_set p = Ok inps"
    and "charge \<le> allowance policy (spend_policy_reference_sats bal)"
  shows "\<exists>c'. authorize pr c policy p desc vp bal ob = (Ok \<lparr>sa_input_set = inps, sa_charge_sat = charge\<rparr>, c')
    \<and> cs_bookings (wc_state c') = []"
proof -
  let ?s = "prune (advance (wc_state c) ob) (sp_window policy)"
  let ?d = "step_elapsed (wc_state c) (duration_as_ns (ob_now ob)) (ob_boot_id ob) (ob_tip_height ob) (ob_wall_unix_ns ob)"
  note w = valid_window(1) [OF assms(1)]
  have "unat (cs_window_elapsed_ns (advance (wc_state c) ob))
      = min (unat (cs_window_elapsed_ns (wc_state c)) + min ?d (2 ^ 64 - 1)) (2 ^ 64 - 1)"
    using assms(3) by (simp add: advance_elapsed unat_sat_add unat_duration_as_ns)
  then have "unat (cs_window_elapsed_ns (wc_state c)) + sp_window policy
      < unat (cs_window_elapsed_ns (advance (wc_state c) ob))"
    using assms(5,6) by (auto simp: window_elapsed_def duration_from_nanos_def)
  then have empty: "cs_bookings ?s = []"
    using assms(4) by (auto simp: prune_bookings [OF w] word_le_nat_alt filter_empty_conv not_le)
  have "authorize_state pr (wc_state c) policy p desc vp bal ob
      = (Ok \<lparr>sa_input_set = inps, sa_charge_sat = charge\<rparr>, ?s)"
    using authorize_state_eq [OF assms(1) _ assms(7,8) refl, of "wc_state c" bal ob] assms(2,9) empty
    by (simp add: passphrase_used_since_install_def extra_against_bookings_def booked_sat_def MAX_BOOKINGS_def
        word_le_nat_alt)
  then show ?thesis using empty by (simp add: authorize_def)
qed

theorem window_frees_itself_witness:
  "\<exists>c'. authorize sample_prims (sample_counter\<lparr>wc_state := core_state_empty\<lparr>cs_passphrase_used_since_install := True,
        cs_initialized := True, cs_bookings := [\<lparr>bk_inputs = [OutPoint (replicate 32 1) 0], bk_amount_sat = 70000,
          bk_elapsed_at_ns = 0\<rparr>]\<rparr>\<rparr>) sample_spend_policy sample_psbt (sample_text BranchExternal) sample_policy
      sample_balance (sample_observation\<lparr>ob_now := 90000 * 10 ^ 9\<rparr>) = (Ok sample_approval, c')
    \<and> cs_bookings (wc_state c') = []"
proof -
  let ?s = "core_state_empty\<lparr>cs_passphrase_used_since_install := True,
        cs_initialized := True, cs_bookings := [\<lparr>bk_inputs = [OutPoint (replicate 32 1) 0], bk_amount_sat = 70000,
          bk_elapsed_at_ns = 0\<rparr>]\<rparr>"
  let ?c = "sample_counter\<lparr>wc_state := ?s\<rparr>" and ?ob = "sample_observation\<lparr>ob_now := 90000 * 10 ^ 9\<rparr>"
  have "step_elapsed ?s (duration_as_ns (ob_now ?ob)) (ob_boot_id ?ob) (ob_tip_height ?ob) (ob_wall_unix_ns ?ob)
      = 90000 * 10 ^ 9"
    by (simp add: step_elapsed_def core_state_empty_def sample_observation_def apply_wall_veto_def
        duration_from_nanos_def unat_duration_as_ns)
  moreover have "input_set sample_psbt = Ok (sa_input_set sample_approval)"
    by (simp add: input_set_def sample_psbt_def sample_tx_def MAX_INPUTS_def btree_set_of_def sample_approval_def)
  moreover have "61000 \<le> allowance sample_spend_policy (spend_policy_reference_sats sample_balance)"
    by (simp add: word_le_nat_alt unat_allowance sample_spend_policy_def sample_balance_def
        spend_policy_reference_sats_def sat_add_def share_of_def)
  ultimately show ?thesis
    using window_frees_itself [OF sample_spend_policy_valid, of ?c ?ob sample_prims sample_psbt
        "sample_text BranchExternal" sample_policy 61000 "sa_input_set sample_approval" sample_balance]
    by (simp add: sample_charge passphrase_used_since_install_def sample_spend_policy_def duration_from_secs_def
        window_elapsed_def duration_from_nanos_def core_state_empty_def sample_approval_def)
qed

end
