(* ===== verification/Keystore.thy ===== *)
theory Keystore
  imports Sealed_Blob Trinity_Types Trinity_Errors
begin

text \<open>
  \<open>crates/trinity-keystore/src\<close>: the sealed key blob (\<open>blob.rs\<close>), the per-slot access policy
  (\<open>policy.rs\<close>), the platform callback (\<open>platform.rs\<close>) and its in-repository implementation
  (\<open>fake.rs\<close>). The callback is a trait object with interior state: an implementation is a
  record of state-passing functions. The counters and the injected results of the fake store
  are its state; its locks serialise the calls and are not modelled.

  The lemmas show the blob round trip and that the format is canonical, through the same
  \<open>sealed_format\<close> contract as the counter blob, and what the platform contract
  \<open>key_platform\<close> gives its caller.
\<close>

subsection \<open>The key blob\<close>

definition BLOB_MAGIC :: bytes where "BLOB_MAGIC = as_bytes ''TRIN''"
definition BLOB_VERSION :: u8 where "BLOB_VERSION = 1"
definition BLOB_HEADER_LEN :: nat where "BLOB_HEADER_LEN = 36"
definition BLOB_NONCE_LEN :: nat where "BLOB_NONCE_LEN = 24"
definition BLOB_TAG_LEN :: nat where "BLOB_TAG_LEN = 16"
definition SLOT_OFFSET :: nat where "SLOT_OFFSET = 5"
definition WORD_COUNT_OFFSET :: nat where "WORD_COUNT_OFFSET = 7"
definition BLOB_VERSION_OFFSET :: nat where "BLOB_VERSION_OFFSET = 4"
definition BLOB_RESERVED_OFFSET :: nat where "BLOB_RESERVED_OFFSET = 6"
definition BLOB_NONCE_OFFSET :: nat where "BLOB_NONCE_OFFSET = 8"
definition BIRTHDAY_OFFSET :: nat where "BIRTHDAY_OFFSET = 32"
definition CREATED_AT_LEN :: nat where "CREATED_AT_LEN = 8"

record decoded_blob =
  db_slot :: key_slot
  db_word_count :: word_count
  db_birthday :: u32
  db_entropy :: bytes
  db_created_at :: u64

record parsed_header =
  ph_slot :: key_slot
  ph_word_count :: word_count
  ph_birthday :: u32

definition blob_encode_header :: "key_slot \<Rightarrow> word_count \<Rightarrow> bytes \<Rightarrow> u32 \<Rightarrow> bytes" where
  "blob_encode_header slot wc nonce birthday =
     BLOB_MAGIC @ [BLOB_VERSION, slot_as_u8 slot, 0, wc_words wc] @ nonce @ u32_to_le birthday"

definition blob_parse_header :: "bytes \<Rightarrow> (parsed_header, blob_error) res" where
  "blob_parse_header header =
     (if take 4 header \<noteq> BLOB_MAGIC then Err BE_BadMagic
      else if header ! BLOB_VERSION_OFFSET \<noteq> BLOB_VERSION
      then Err (BE_UnsupportedVersion (header ! BLOB_VERSION_OFFSET))
      else if header ! BLOB_RESERVED_OFFSET \<noteq> 0 then Err BE_UnsupportedReserved
      else
        res_bind (case slot_from_u8 (header ! SLOT_OFFSET) of
            Some s \<Rightarrow> if has_device_blob s then Ok s else Err BE_InvalidSlot
          | None \<Rightarrow> Err BE_InvalidSlot) (\<lambda>slot.
        res_bind (ok_or (wc_from_words (header ! WORD_COUNT_OFFSET))
            (BE_InvalidWordCount (header ! WORD_COUNT_OFFSET))) (\<lambda>wc.
        Ok \<lparr>ph_slot = slot, ph_word_count = wc,
            ph_birthday = u32_from_le (drop BIRTHDAY_OFFSET header)\<rparr>)))"

definition blob_nonce_from_header :: "bytes \<Rightarrow> bytes" where
  "blob_nonce_from_header header = slice header BLOB_NONCE_OFFSET BIRTHDAY_OFFSET"

definition blob_seal :: "aead \<Rightarrow> bytes \<Rightarrow> bytes \<Rightarrow> bytes \<Rightarrow> (bytes, blob_error) res" where
  "blob_seal A kek header plaintext =
     res_bind (expect (aead_encrypt A kek (blob_nonce_from_header header) header plaintext))
       (\<lambda>ciphertext. Ok (header @ ciphertext))"

definition blob_open :: "aead \<Rightarrow> bytes \<Rightarrow> bytes \<Rightarrow> bytes \<Rightarrow> (bytes, blob_error) res" where
  "blob_open A kek header body =
     ok_or (aead_decrypt A kek (blob_nonce_from_header header) header body) BE_Aead"

definition blob_encrypt_at_nonce ::
    "aead \<Rightarrow> bytes \<Rightarrow> key_slot \<Rightarrow> word_count \<Rightarrow> bytes \<Rightarrow> u32 \<Rightarrow> bytes \<Rightarrow> u64 \<Rightarrow> (bytes, blob_error) res" where
  "blob_encrypt_at_nonce A kek slot wc nonce birthday entropy created_at =
     (if \<not> has_device_blob slot then Err BE_InvalidSlot
      else
        let expected = unat (wc_entropy_bytes wc)
        in if length entropy \<noteq> expected then Err (BE_EntropyLength expected (length entropy))
           else blob_seal A kek (blob_encode_header slot wc nonce birthday)
                  (entropy @ u64_to_le created_at))"

definition blob_encrypt ::
    "aead \<Rightarrow> bytes option \<Rightarrow> bytes \<Rightarrow> key_slot \<Rightarrow> word_count \<Rightarrow> u32 \<Rightarrow> bytes \<Rightarrow> u64 \<Rightarrow> (bytes, blob_error) res" where
  "blob_encrypt A draw kek slot wc birthday entropy created_at =
     res_bind (ok_or draw BE_CsRng) (\<lambda>nonce.
       blob_encrypt_at_nonce A kek slot wc nonce birthday entropy created_at)"

definition blob_decrypt :: "aead \<Rightarrow> bytes \<Rightarrow> bytes \<Rightarrow> (decoded_blob, blob_error) res" where
  "blob_decrypt A kek blob =
     (if length blob < BLOB_HEADER_LEN + BLOB_TAG_LEN then Err BE_Truncated
      else
        let header = take BLOB_HEADER_LEN blob
        in res_bind (blob_parse_header header) (\<lambda>parsed.
           res_bind (blob_open A kek header (drop BLOB_HEADER_LEN blob)) (\<lambda>plaintext.
           let expected = unat (wc_entropy_bytes (ph_word_count parsed)) + CREATED_AT_LEN
           in if length plaintext \<noteq> expected then Err BE_PlaintextLength
              else Ok \<lparr>db_slot = ph_slot parsed, db_word_count = ph_word_count parsed,
                       db_birthday = ph_birthday parsed,
                       db_entropy = take (expected - CREATED_AT_LEN) plaintext,
                       db_created_at = u64_from_le (drop (expected - CREATED_AT_LEN) plaintext)\<rparr>)))"

subsection \<open>Access policy\<close>

datatype unlock_factor = Biometry | UserPresence

fun unlock_factor_str :: "unlock_factor \<Rightarrow> string" where
  "unlock_factor_str Biometry = ''biometry''"
| "unlock_factor_str UserPresence = ''user-presence''"

datatype hw_binding = SecureEnclaveEcies | KeystoreAesGcm

fun hw_binding_str :: "hw_binding \<Rightarrow> string" where
  "hw_binding_str SecureEnclaveEcies = ''secure-enclave-ecies''"
| "hw_binding_str KeystoreAesGcm = ''keystore-aes-gcm''"

datatype argon_profile = ArgonHigh | ArgonLow

definition argon_all :: "argon_profile list" where "argon_all = [ArgonHigh, ArgonLow]"

fun memory_kib :: "argon_profile \<Rightarrow> u32" where
  "memory_kib ArgonHigh = 262144"
| "memory_kib ArgonLow = 65536"

fun time_cost :: "argon_profile \<Rightarrow> u32" where
  "time_cost ArgonHigh = 3"
| "time_cost ArgonLow = 6"

definition parallelism :: "argon_profile \<Rightarrow> u32" where "parallelism p = 4"
definition output_len :: "argon_profile \<Rightarrow> u32" where "output_len p = 32"

fun argon_str :: "argon_profile \<Rightarrow> string" where
  "argon_str ArgonHigh = ''HIGH''"
| "argon_str ArgonLow = ''LOW''"

record slot_policy =
  pol_slot :: key_slot
  pol_unlock :: unlock_factor
  pol_hw_binding :: "hw_binding option"
  pol_argon :: "argon_profile option"
  pol_invalidate_on_biometric_change :: bool
  pol_require_device_unlocked :: bool

definition with_hw_binding :: "slot_policy \<Rightarrow> hw_binding \<Rightarrow> slot_policy" where
  "with_hw_binding p b = p\<lparr>pol_hw_binding := Some b\<rparr>"

definition POLICY_A :: slot_policy where
  "POLICY_A = \<lparr>pol_slot = SlotA, pol_unlock = Biometry, pol_hw_binding = None, pol_argon = None,
     pol_invalidate_on_biometric_change = True, pol_require_device_unlocked = True\<rparr>"

definition POLICY_B :: slot_policy where
  "POLICY_B = \<lparr>pol_slot = SlotB, pol_unlock = UserPresence, pol_hw_binding = None, pol_argon = None,
     pol_invalidate_on_biometric_change = False, pol_require_device_unlocked = True\<rparr>"

subsection \<open>The platform callback\<close>

record 'p platform_key_store =
  unwrap_kek :: "'p \<Rightarrow> key_slot \<Rightarrow> bytes \<Rightarrow> (bytes, platform_error) res \<times> 'p"
  wrap_kek :: "'p \<Rightarrow> key_slot \<Rightarrow> bytes \<Rightarrow> (bytes, platform_error) res \<times> 'p"
  provision :: "'p \<Rightarrow> key_slot \<Rightarrow> slot_policy \<Rightarrow> (unit, platform_error) res \<times> 'p"
  destroy :: "'p \<Rightarrow> key_slot \<Rightarrow> (unit, platform_error) res \<times> 'p"

record fake_store =
  fs_unwrap_calls :: nat
  fs_wrap_calls :: nat
  fs_provision_calls :: nat
  fs_destroy_calls :: nat
  fs_unwrap_error :: "platform_error option"
  fs_wrap_error :: "platform_error option"
  fs_provision_error :: "platform_error option"
  fs_destroy_error :: "platform_error option"
  fs_unwrap_plain :: "bytes option"
  fs_wrap_wrapped :: "bytes option"

definition fake_new :: fake_store where
  "fake_new = \<lparr>fs_unwrap_calls = 0, fs_wrap_calls = 0, fs_provision_calls = 0, fs_destroy_calls = 0,
     fs_unwrap_error = None, fs_wrap_error = None, fs_provision_error = None, fs_destroy_error = None,
     fs_unwrap_plain = None, fs_wrap_wrapped = None\<rparr>"

definition fail_unwrap :: "fake_store \<Rightarrow> platform_error \<Rightarrow> fake_store" where
  "fail_unwrap s e = s\<lparr>fs_unwrap_error := Some e\<rparr>"

definition fail_wrap :: "fake_store \<Rightarrow> platform_error \<Rightarrow> fake_store" where
  "fail_wrap s e = s\<lparr>fs_wrap_error := Some e\<rparr>"

definition fail_provision :: "fake_store \<Rightarrow> platform_error \<Rightarrow> fake_store" where
  "fail_provision s e = s\<lparr>fs_provision_error := Some e\<rparr>"

definition fail_destroy :: "fake_store \<Rightarrow> platform_error \<Rightarrow> fake_store" where
  "fail_destroy s e = s\<lparr>fs_destroy_error := Some e\<rparr>"

definition succeed_unwrap_with :: "fake_store \<Rightarrow> bytes \<Rightarrow> fake_store" where
  "succeed_unwrap_with s b = s\<lparr>fs_unwrap_plain := Some b\<rparr>"

definition succeed_wrap_with :: "fake_store \<Rightarrow> bytes \<Rightarrow> fake_store" where
  "succeed_wrap_with s b = s\<lparr>fs_wrap_wrapped := Some b\<rparr>"

definition clear_unwrap :: "fake_store \<Rightarrow> fake_store" where
  "clear_unwrap s = s\<lparr>fs_unwrap_error := None, fs_unwrap_plain := None\<rparr>"

definition clear_wrap :: "fake_store \<Rightarrow> fake_store" where
  "clear_wrap s = s\<lparr>fs_wrap_error := None, fs_wrap_wrapped := None\<rparr>"

definition clear_provision :: "fake_store \<Rightarrow> fake_store" where
  "clear_provision s = s\<lparr>fs_provision_error := None\<rparr>"

definition clear_destroy :: "fake_store \<Rightarrow> fake_store" where
  "clear_destroy s = s\<lparr>fs_destroy_error := None\<rparr>"

definition reset_calls :: "fake_store \<Rightarrow> fake_store" where
  "reset_calls s = s\<lparr>fs_unwrap_calls := 0, fs_wrap_calls := 0, fs_provision_calls := 0, fs_destroy_calls := 0\<rparr>"

definition fake_zeroize :: "fake_store \<Rightarrow> fake_store" where
  "fake_zeroize s = s\<lparr>fs_unwrap_plain := None, fs_wrap_wrapped := None\<rparr>"

definition fake_unwrap_kek :: "fake_store \<Rightarrow> key_slot \<Rightarrow> bytes \<Rightarrow> (bytes, platform_error) res \<times> fake_store" where
  "fake_unwrap_kek s slot wrapped =
     (let s = s\<lparr>fs_unwrap_calls := Suc (fs_unwrap_calls s)\<rparr>
      in (if \<not> has_device_blob slot then Err PF_InvalidSlot
          else case fs_unwrap_error s of
            Some e \<Rightarrow> Err e
          | None \<Rightarrow> (case fs_unwrap_plain s of Some plain \<Rightarrow> Ok plain | None \<Rightarrow> Ok wrapped), s))"

definition fake_wrap_kek :: "fake_store \<Rightarrow> key_slot \<Rightarrow> bytes \<Rightarrow> (bytes, platform_error) res \<times> fake_store" where
  "fake_wrap_kek s slot plain =
     (let s = s\<lparr>fs_wrap_calls := Suc (fs_wrap_calls s)\<rparr>
      in (if \<not> has_device_blob slot then Err PF_InvalidSlot
          else case fs_wrap_error s of
            Some e \<Rightarrow> Err e
          | None \<Rightarrow> (case fs_wrap_wrapped s of Some wrapped \<Rightarrow> Ok wrapped | None \<Rightarrow> Ok plain), s))"

definition fake_provision :: "fake_store \<Rightarrow> key_slot \<Rightarrow> slot_policy \<Rightarrow> (unit, platform_error) res \<times> fake_store" where
  "fake_provision s slot policy =
     (let s = s\<lparr>fs_provision_calls := Suc (fs_provision_calls s)\<rparr>
      in (if \<not> has_device_blob slot \<or> pol_slot policy \<noteq> slot then Err PF_InvalidSlot
          else case fs_provision_error s of Some e \<Rightarrow> Err e | None \<Rightarrow> Ok (), s))"

definition fake_destroy :: "fake_store \<Rightarrow> key_slot \<Rightarrow> (unit, platform_error) res \<times> fake_store" where
  "fake_destroy s slot =
     (let s = s\<lparr>fs_destroy_calls := Suc (fs_destroy_calls s)\<rparr>
      in (if \<not> has_device_blob slot then Err PF_InvalidSlot
          else case fs_destroy_error s of Some e \<Rightarrow> Err e | None \<Rightarrow> Ok (), s))"

definition fake_platform :: "fake_store platform_key_store" where
  "fake_platform = \<lparr>unwrap_kek = fake_unwrap_kek, wrap_kek = fake_wrap_kek,
     provision = fake_provision, destroy = fake_destroy\<rparr>"

text \<open>The calls a client can make on the fake store, and the state after a sequence of them.\<close>

datatype store_call =
    CallUnwrap key_slot bytes | CallWrap key_slot bytes
  | CallProvision key_slot slot_policy | CallDestroy key_slot

fun store_step :: "fake_store \<Rightarrow> store_call \<Rightarrow> fake_store" where
  "store_step s (CallUnwrap slot b) = snd (fake_unwrap_kek s slot b)"
| "store_step s (CallWrap slot b) = snd (fake_wrap_kek s slot b)"
| "store_step s (CallProvision slot p) = snd (fake_provision s slot p)"
| "store_step s (CallDestroy slot) = snd (fake_destroy s slot)"

definition fake_ready :: "fake_store \<Rightarrow> bool" where
  "fake_ready s \<longleftrightarrow> fs_unwrap_error s = None \<and> fs_wrap_error s = None
     \<and> fs_unwrap_plain s = None \<and> fs_wrap_wrapped s = None"

section \<open>Lemmas\<close>

subsection \<open>The sealed blob\<close>

interpretation key_box: sealed_format blob_nonce_from_header blob_seal blob_open BE_Aead
  by unfold_locales (simp_all add: blob_seal_def blob_open_def split: option.splits)

lemma length_BLOB_MAGIC [simp]: "length BLOB_MAGIC = 4"
  by (simp add: BLOB_MAGIC_def as_bytes_def)

lemmas blob_layout = BLOB_HEADER_LEN_def BLOB_NONCE_LEN_def BLOB_TAG_LEN_def SLOT_OFFSET_def
  WORD_COUNT_OFFSET_def BLOB_VERSION_OFFSET_def BLOB_RESERVED_OFFSET_def BLOB_NONCE_OFFSET_def
  BIRTHDAY_OFFSET_def CREATED_AT_LEN_def

lemma blob_header:
  assumes "length nonce = BLOB_NONCE_LEN" and "has_device_blob slot"
  shows "length (blob_encode_header slot wc nonce b) = BLOB_HEADER_LEN"
    and "blob_parse_header (blob_encode_header slot wc nonce b)
      = Ok \<lparr>ph_slot = slot, ph_word_count = wc, ph_birthday = b\<rparr>"
    and "blob_nonce_from_header (blob_encode_header slot wc nonce b) = nonce"
  using assms
  by (simp_all add: blob_encode_header_def blob_parse_header_def blob_nonce_from_header_def blob_layout
      nth_append slice_def)

lemma blob_header_canonical:
  assumes "blob_parse_header header = Ok h" and "length header = BLOB_HEADER_LEN"
  shows "blob_encode_header (ph_slot h) (ph_word_count h) (blob_nonce_from_header header) (ph_birthday h) = header"
    and "has_device_blob (ph_slot h)"
proof -
  have len: "length header = 36" using assms(2) by (simp add: blob_layout)
  have h: "take 4 header = BLOB_MAGIC" "header ! 4 = BLOB_VERSION" "header ! 6 = 0"
      "slot_as_u8 (ph_slot h) = header ! 5" "has_device_blob (ph_slot h)"
      "wc_words (ph_word_count h) = header ! 7" "ph_birthday h = u32_from_le (drop 32 header)"
    using assms(1)
    by (auto simp: blob_parse_header_def blob_layout res_simps slot_from_u8_Some wc_from_words_Some
        split: if_splits option.splits)
  show "has_device_blob (ph_slot h)" by (rule h(5))
  have "header = take 4 header @ header ! 4 # header ! 5 # header ! 6 # header ! 7 # drop 8 header"
    using Cons_nth_drop_Suc [of 4 header] Cons_nth_drop_Suc [of 5 header] Cons_nth_drop_Suc [of 6 header]
      Cons_nth_drop_Suc [of 7 header] len by simp
  moreover have "drop 8 header = take 24 (drop 8 header) @ drop 32 header"
    using append_take_drop_id [of 24 "drop 8 header"] by simp
  moreover have "u32_to_le (u32_from_le (drop 32 header)) = drop 32 header"
    using len by (intro le32.enc_dec) simp
  ultimately show "blob_encode_header (ph_slot h) (ph_word_count h) (blob_nonce_from_header header) (ph_birthday h) = header"
    using h by (simp add: blob_encode_header_def blob_nonce_from_header_def blob_layout slice_def)
qed

lemma unat_wc_entropy_bytes: "unat (wc_entropy_bytes wc) = (case wc of Words12 \<Rightarrow> 16 | Words24 \<Rightarrow> 32)"
  by (cases wc) simp_all

lemma blob_decrypt_sealed:
  assumes "length nonce = BLOB_NONCE_LEN" and "has_device_blob slot"
    and "blob_open A kek (blob_encode_header slot wc nonce b) body = Ok (e @ u64_to_le t)"
    and "length e = unat (wc_entropy_bytes wc)" and "BLOB_TAG_LEN \<le> length body"
  shows "blob_decrypt A kek (blob_encode_header slot wc nonce b @ body) =
    Ok \<lparr>db_slot = slot, db_word_count = wc, db_birthday = b, db_entropy = e, db_created_at = t\<rparr>"
  using assms blob_header [OF assms(1,2)]
  by (simp add: blob_decrypt_def Let_def CREATED_AT_LEN_def)

lemma blob_encrypt_decrypt:
  assumes "aead_correct A" and "has_device_blob slot" and "length e = unat (wc_entropy_bytes wc)"
    and "length nonce = BLOB_NONCE_LEN"
  shows "\<exists>blob. blob_encrypt A (Some nonce) kek slot wc b e t = Ok blob
    \<and> blob_decrypt A kek blob =
        Ok \<lparr>db_slot = slot, db_word_count = wc, db_birthday = b, db_entropy = e, db_created_at = t\<rparr>"
proof -
  let ?h = "blob_encode_header slot wc nonce b"
  have "length (e @ u64_to_le t) < 2 ^ 32"
    using assms(3) by (simp add: unat_wc_entropy_bytes split: word_count.splits)
  then obtain body where body: "blob_seal A kek ?h (e @ u64_to_le t) = Ok (?h @ body)"
      "length body = length (e @ u64_to_le t) + 16" "blob_open A kek ?h body = Ok (e @ u64_to_le t)"
    using key_box.seal_total [OF assms(1)] by blast
  have "blob_encrypt A (Some nonce) kek slot wc b e t = Ok (?h @ body)"
    using assms(2,3) body(1) by (simp add: blob_encrypt_def blob_encrypt_at_nonce_def)
  then show ?thesis
    using blob_decrypt_sealed [OF assms(4,2) body(3) assms(3)] body(2) by (simp add: BLOB_TAG_LEN_def)
qed

lemma blob_decrypt_not_Panic: "blob_decrypt A kek blob \<noteq> Panic"
  by (auto simp: blob_decrypt_def blob_parse_header_def Let_def res_bind_eq_Panic
      key_box.unseal_not_Panic split: option.splits if_splits)

subsection \<open>The platform contract\<close>

text \<open>
  What a client of the platform relies on: an on-device slot wraps and unwraps to the same
  bytes while the platform is ready, the state a call leaves is ready again, and a slot
  without a device blob is always refused.
\<close>

locale key_platform =
  fixes plat :: "'p platform_key_store" and ready :: "'p \<Rightarrow> bool"
  assumes wrap_ready: "ready s \<Longrightarrow> has_device_blob slot \<Longrightarrow>
      \<exists>w s'. wrap_kek plat s slot k = (Ok w, s') \<and> ready s'
        \<and> (\<forall>s2. ready s2 \<longrightarrow> (\<exists>s3. unwrap_kek plat s2 slot w = (Ok k, s3) \<and> ready s3))"
    and refuses: "\<not> has_device_blob slot \<Longrightarrow> fst (unwrap_kek plat s slot w) = Err PF_InvalidSlot"
      "\<not> has_device_blob slot \<Longrightarrow> fst (wrap_kek plat s slot w) = Err PF_InvalidSlot"
begin

text \<open>A sealed key is recovered from its wrapped key-encryption key and its blob.\<close>

lemma stored_key_recovered:
  assumes "aead_correct A" and "ready s" and "has_device_blob slot"
    and "length e = unat (wc_entropy_bytes wc)" and "length nonce = BLOB_NONCE_LEN"
  shows "\<exists>w s' blob. wrap_kek plat s slot k = (Ok w, s') \<and> ready s'
    \<and> blob_encrypt A (Some nonce) k slot wc b e t = Ok blob
    \<and> (\<forall>s2. ready s2 \<longrightarrow> (\<exists>s3. unwrap_kek plat s2 slot w = (Ok k, s3) \<and> ready s3
         \<and> blob_decrypt A k blob =
             Ok \<lparr>db_slot = slot, db_word_count = wc, db_birthday = b, db_entropy = e, db_created_at = t\<rparr>))"
  using wrap_ready [OF assms(2,3), of k] blob_encrypt_decrypt [OF assms(1,3,4,5), of k b t] by blast

end

interpretation fake_kp: key_platform fake_platform fake_ready
  by unfold_locales
    (auto simp: fake_platform_def fake_unwrap_kek_def fake_wrap_kek_def fake_ready_def Let_def)

subsection \<open>The fake store\<close>

lemma store_step_keeps:
  "fs_unwrap_error (store_step s c) = fs_unwrap_error s" "fs_wrap_error (store_step s c) = fs_wrap_error s"
  "fs_provision_error (store_step s c) = fs_provision_error s" "fs_destroy_error (store_step s c) = fs_destroy_error s"
  "fs_unwrap_plain (store_step s c) = fs_unwrap_plain s" "fs_wrap_wrapped (store_step s c) = fs_wrap_wrapped s"
  by (cases c; simp add: fake_unwrap_kek_def fake_wrap_kek_def fake_provision_def fake_destroy_def Let_def)+

lemma store_steps_keep:
  "fs_unwrap_error (foldl store_step s cs) = fs_unwrap_error s"
  by (induction cs arbitrary: s) (simp_all add: store_step_keeps)

lemma store_steps_count:
  "fs_unwrap_calls (foldl store_step s cs) =
     fs_unwrap_calls s + length (filter (\<lambda>c. case c of CallUnwrap _ _ \<Rightarrow> True | _ \<Rightarrow> False) cs)"
proof (induction cs arbitrary: s)
  case (Cons c cs)
  then show ?case
    by (cases c; simp add: fake_unwrap_kek_def fake_wrap_kek_def fake_provision_def fake_destroy_def Let_def)
qed simp

section \<open>Properties\<close>

text \<open>
  C31: a key of either length for slot A or B always seals under a working cipher, and opening
  the blob returns the slot, the word count, the birthday, the entropy and the creation time.
\<close>

theorem key_blob_roundtrip:
  assumes "aead_correct A" and "has_device_blob slot" and "length e = unat (wc_entropy_bytes wc)"
    and "length nonce = BLOB_NONCE_LEN"
  shows "\<exists>blob. blob_encrypt A (Some nonce) kek slot wc b e t = Ok blob
    \<and> blob_decrypt A kek blob =
        Ok \<lparr>db_slot = slot, db_word_count = wc, db_birthday = b, db_entropy = e, db_created_at = t\<rparr>"
  using assms by (rule blob_encrypt_decrypt)

theorem key_blob_roundtrip_witness:
  "\<exists>blob. blob_encrypt plain_aead (Some (replicate 24 5)) (replicate 32 1) SlotB Words12 800000
      (replicate 16 9) 1700000000 = Ok blob
    \<and> blob_decrypt plain_aead (replicate 32 1) blob =
        Ok \<lparr>db_slot = SlotB, db_word_count = Words12, db_birthday = 800000, db_entropy = replicate 16 9,
            db_created_at = 1700000000\<rparr>"
  by (rule key_blob_roundtrip [OF plain_aead_correct])
    (simp_all add: BLOB_NONCE_LEN_def)

text \<open>
  C32: under a cipher with ciphertext integrity, an opened key blob belongs to slot A or B, holds
  exactly as much entropy as its word count says (a blob is never read at the other length),
  and is byte for byte the blob that sealing the returned fields under its own nonce gives.
\<close>

theorem key_blob_canonical:
  assumes "aead_authentic A" and "blob_decrypt A kek blob = Ok d"
  shows "has_device_blob (db_slot d) \<and> length (db_entropy d) = unat (wc_entropy_bytes (db_word_count d))
    \<and> blob_encrypt A (Some (slice blob BLOB_NONCE_OFFSET BIRTHDAY_OFFSET)) kek (db_slot d) (db_word_count d)
        (db_birthday d) (db_entropy d) (db_created_at d) = Ok blob"
proof -
  let ?hdr = "take BLOB_HEADER_LEN blob" and ?body = "drop BLOB_HEADER_LEN blob"
  obtain h pt where r: "BLOB_HEADER_LEN + BLOB_TAG_LEN \<le> length blob" "blob_parse_header ?hdr = Ok h"
      "blob_open A kek ?hdr ?body = Ok pt"
    and len: "length pt = unat (wc_entropy_bytes (ph_word_count h)) + CREATED_AT_LEN"
    and d: "d = \<lparr>db_slot = ph_slot h, db_word_count = ph_word_count h, db_birthday = ph_birthday h,
       db_entropy = take (length pt - CREATED_AT_LEN) pt,
       db_created_at = u64_from_le (drop (length pt - CREATED_AT_LEN) pt)\<rparr>"
    using assms(2) by (auto simp: blob_decrypt_def Let_def res_simps split: if_splits)
  have hdr: "length ?hdr = BLOB_HEADER_LEN" using r(1) by simp
  note can = blob_header_canonical [OF r(2) hdr]
  have nonce: "blob_nonce_from_header ?hdr = slice blob BLOB_NONCE_OFFSET BIRTHDAY_OFFSET"
    by (simp add: blob_nonce_from_header_def slice_def blob_layout drop_take)
  have "u64_to_le (u64_from_le (drop (length pt - CREATED_AT_LEN) pt)) = drop (length pt - CREATED_AT_LEN) pt"
    by (intro le64.enc_dec) (simp add: len CREATED_AT_LEN_def)
  then have pt: "db_entropy d @ u64_to_le (db_created_at d) = pt" by (simp add: d)
  have "blob_seal A kek ?hdr pt = Ok (?hdr @ ?body)"
    using key_box.unseal_authentic [OF assms(1) r(3)] .
  then show ?thesis
    using can nonce pt len by (simp add: blob_encrypt_def blob_encrypt_at_nonce_def d)
qed

theorem key_blob_canonical_witness:
  "blob_encrypt plain_aead (Some (replicate 24 5)) [] SlotA Words12 7 (replicate 16 9) 3
   = Ok (blob_encode_header SlotA Words12 (replicate 24 5) 7 @ replicate 16 9 @ u64_to_le 3 @ replicate 16 0)"
proof -
  let ?h = "blob_encode_header SlotA Words12 (replicate 24 5) 7"
  have "blob_open plain_aead [] ?h (replicate 16 9 @ u64_to_le 3 @ replicate 16 0) = Ok (replicate 16 9 @ u64_to_le 3)"
    by (simp add: blob_open_def plain_aead_def)
  then have dec: "blob_decrypt plain_aead [] (?h @ replicate 16 9 @ u64_to_le 3 @ replicate 16 0) =
      Ok \<lparr>db_slot = SlotA, db_word_count = Words12, db_birthday = 7, db_entropy = replicate 16 9, db_created_at = 3\<rparr>"
    by (intro blob_decrypt_sealed) (simp_all add: blob_layout)
  have "slice (?h @ replicate 16 9 @ u64_to_le 3 @ replicate 16 0) BLOB_NONCE_OFFSET BIRTHDAY_OFFSET = replicate 24 5"
    by (simp add: slice_def blob_encode_header_def blob_layout)
  then show ?thesis using key_blob_canonical [OF plain_aead_authentic dec] by simp
qed

text \<open>
  a failure injected into the platform stand-in is not spent by the next call: whatever
  calls follow, every unwrap of an on-device slot keeps returning the injected error, even if a
  payload is configured too, until it is cleared; and every unwrap is counted.
\<close>

theorem fail_unwrap_persists:
  assumes "has_device_blob slot"
  shows "fst (fake_unwrap_kek (foldl store_step (fail_unwrap s e) calls) slot w) = Err e
    \<and> fst (fake_unwrap_kek (clear_unwrap (foldl store_step (fail_unwrap s e) calls)) slot w) = Ok w
    \<and> fs_unwrap_calls (foldl store_step (fail_unwrap s e) calls) = fs_unwrap_calls s
        + length (filter (\<lambda>c. case c of CallUnwrap _ _ \<Rightarrow> True | _ \<Rightarrow> False) calls)"
proof -
  have "fs_unwrap_error (foldl store_step (fail_unwrap s e) calls) = Some e"
    by (simp add: store_steps_keep fail_unwrap_def)
  then show ?thesis
    using assms store_steps_count [of "fail_unwrap s e" calls]
    by (simp add: fake_unwrap_kek_def Let_def clear_unwrap_def fail_unwrap_def)
qed

theorem fail_unwrap_persists_witness:
  "fst (fake_unwrap_kek (foldl store_step (fail_unwrap fake_new PF_UnwrapRejected) [CallUnwrap SlotA [1]]) SlotA [1])
   = Err PF_UnwrapRejected"
  using fail_unwrap_persists [of SlotA fake_new PF_UnwrapRejected "[CallUnwrap SlotA [1]]" "[1]"] by simp

end
