(* ===== verification/Entropy.thy ===== *)
theory Entropy
  imports Bitcoin_Data Trinity_Errors
begin

text \<open>
  \<open>crates/trinity-entropy/src\<close>: the additional entropy sources and their canonical encoding
  (\<open>sources.rs\<close>), the generation pipeline (\<open>entropy.rs\<close>), lower-case hex (\<open>hex.rs\<close>) and the
  fields of the verification sheet (\<open>evidence.rs\<close>). A \<open>str\<close> is the list of its bytes as
  characters. BIP-39 and BIP-32 master derivation are third-party code and are the parameter
  record \<open>key_prims\<close>; the operating system's random bytes are an argument that is \<open>None\<close> when
  the draw fails.

  The lemmas show that the card parser accepts exactly the encodings of non-empty hands without
  a repeated card, that the canonical encoding of the sources is injective, and what a generated
  key holds.
\<close>

subsection \<open>Primitives\<close>

record xpriv =
  xp_private_key :: bytes
  xp_chain_code :: bytes

record key_prims =
  mnemonic_of_entropy :: "bytes \<Rightarrow> string option"
  mnemonic_to_seed :: "string \<Rightarrow> bytes"
  xpriv_new_master :: "bytes \<Rightarrow> xpriv option"
  xpriv_fingerprint :: "xpriv \<Rightarrow> fingerprint"
  xpriv_to_string :: "xpriv \<Rightarrow> string"
  xpriv_derive_priv :: "xpriv \<Rightarrow> derivation_path \<Rightarrow> xpriv option"
  public_key_of_secret :: "bytes \<Rightarrow> secp_key"

subsection \<open>Cards\<close>

definition SLOT_SEPARATOR :: u8 where "SLOT_SEPARATOR = 0x1e"

datatype rank = Ace | Two | Three | Four | Five | Six | Seven | Eight | Nine | Ten | Jack | Queen | King

fun rank_str :: "rank \<Rightarrow> string" where
  "rank_str Ace = ''A''" | "rank_str Two = ''2''" | "rank_str Three = ''3''" | "rank_str Four = ''4''"
| "rank_str Five = ''5''" | "rank_str Six = ''6''" | "rank_str Seven = ''7''" | "rank_str Eight = ''8''"
| "rank_str Nine = ''9''" | "rank_str Ten = ''10''" | "rank_str Jack = ''J''" | "rank_str Queen = ''Q''"
| "rank_str King = ''K''"

fun rank_index :: "rank \<Rightarrow> u8" where
  "rank_index Ace = 0" | "rank_index Two = 1" | "rank_index Three = 2" | "rank_index Four = 3"
| "rank_index Five = 4" | "rank_index Six = 5" | "rank_index Seven = 6" | "rank_index Eight = 7"
| "rank_index Nine = 8" | "rank_index Ten = 9" | "rank_index Jack = 10" | "rank_index Queen = 11"
| "rank_index King = 12"

definition rank_from_start :: "string \<Rightarrow> (rank \<times> nat) option" where
  "rank_from_start s =
     (case s of
        [] \<Rightarrow> None
      | c # cs \<Rightarrow>
          if c = CHR ''1'' then (case cs of d # _ \<Rightarrow> if d = CHR ''0'' then Some (Ten, 2) else None | [] \<Rightarrow> None)
          else if c = CHR ''A'' then Some (Ace, 1)
          else if c = CHR ''2'' then Some (Two, 1)
          else if c = CHR ''3'' then Some (Three, 1)
          else if c = CHR ''4'' then Some (Four, 1)
          else if c = CHR ''5'' then Some (Five, 1)
          else if c = CHR ''6'' then Some (Six, 1)
          else if c = CHR ''7'' then Some (Seven, 1)
          else if c = CHR ''8'' then Some (Eight, 1)
          else if c = CHR ''9'' then Some (Nine, 1)
          else if c = CHR ''J'' then Some (Jack, 1)
          else if c = CHR ''Q'' then Some (Queen, 1)
          else if c = CHR ''K'' then Some (King, 1)
          else None)"

datatype suit = Spades | Hearts | Diamonds | Clubs

definition suit_from_byte :: "char \<Rightarrow> suit option" where
  "suit_from_byte c =
     (if c = CHR ''S'' then Some Spades
      else if c = CHR ''H'' then Some Hearts
      else if c = CHR ''D'' then Some Diamonds
      else if c = CHR ''C'' then Some Clubs
      else None)"

fun suit_char :: "suit \<Rightarrow> char" where
  "suit_char Spades = CHR ''S''" | "suit_char Hearts = CHR ''H''"
| "suit_char Diamonds = CHR ''D''" | "suit_char Clubs = CHR ''C''"

fun suit_index :: "suit \<Rightarrow> u8" where
  "suit_index Spades = 0" | "suit_index Hearts = 1" | "suit_index Diamonds = 2" | "suit_index Clubs = 3"

datatype card = Card (card_rank: rank) (card_suit: suit)

definition card_encode :: "card \<Rightarrow> string" where
  "card_encode c = rank_str (card_rank c) @ [suit_char (card_suit c)]"

definition deck_index :: "card \<Rightarrow> u8" where
  "deck_index c = rank_index (card_rank c) * 4 + suit_index (card_suit c)"

definition encode_cards :: "card list \<Rightarrow> string" where
  "encode_cards cards = foldl (\<lambda>s c. s @ rank_str (card_rank c) @ [suit_char (card_suit c)]) [] cards"

text \<open>The loop of \<open>parse_cards\<close> at byte \<open>i\<close>, on the remaining bytes.\<close>

function parse_cards_loop ::
    "string \<Rightarrow> nat \<Rightarrow> u64 \<Rightarrow> card list \<Rightarrow> (card list, entropy_error) res" where
  "parse_cards_loop bs i seen cards =
     (if bs = [] then Ok cards
      else case rank_from_start bs of
        None \<Rightarrow> Err (EE_InvalidCard (CardUnexpectedByte i (of_char (hd bs))))
      | Some (rank, n) \<Rightarrow>
          let rest = drop n bs; i = i + n
          in if rest = [] then Err (EE_InvalidCard CardIncomplete)
             else case suit_from_byte (hd rest) of
               None \<Rightarrow> Err (EE_InvalidCard (CardUnexpectedByte i (of_char (hd rest))))
             | Some suit \<Rightarrow>
                 let card = Card rank suit; b = push_bit (unat (deck_index card)) 1
                 in if seen AND b \<noteq> 0 then Err (EE_InvalidCard (CardDuplicate (card_encode card)))
                    else parse_cards_loop (tl rest) (i + 1) (seen OR b) (cards @ [card]))"
  by pat_completeness auto

termination
  by (relation "measure (\<lambda>(bs, _, _, _). length bs)") auto

declare parse_cards_loop.simps [simp del]

definition parse_cards :: "string \<Rightarrow> (card list, entropy_error) res" where
  "parse_cards ascii = (if ascii = [] then Err EE_EmptyCards else parse_cards_loop ascii 0 0 [])"

definition parse_dice :: "string \<Rightarrow> (string, entropy_error) res" where
  "parse_dice ascii =
     (if ascii = [] then Err EE_EmptyDice
      else res_bind (for_check (\<lambda>index c.
          ensure (0x31 \<le> (of_char c :: u8) \<and> of_char c \<le> (0x36 :: u8)) (EE_InvalidDice index (of_char c))) 0 ascii) (\<lambda>_.
        Ok ascii))"

definition parse_coins :: "string \<Rightarrow> (string, entropy_error) res" where
  "parse_coins ascii =
     (if ascii = [] then Err EE_EmptyCoins
      else res_bind (for_check (\<lambda>index c.
          ensure (c = CHR ''0'' \<or> c = CHR ''1'') (EE_InvalidCoin index (of_char c))) 0 ascii) (\<lambda>_.
        Ok ascii))"

subsection \<open>Additional entropy\<close>

record countable_entropy =
  ce_dice_rolls :: nat
  ce_coin_flips :: nat
  ce_cards :: nat

definition class_b_credited_bits :: "countable_entropy \<Rightarrow> u64" where
  "class_b_credited_bits c = 0"

record additional_entropy =
  ae_dice :: "string option"
  ae_coins :: "string option"
  ae_cards :: "card list option"
  ae_sensor :: "bytes option"

definition additional_new :: additional_entropy where
  "additional_new = \<lparr>ae_dice = None, ae_coins = None, ae_cards = None, ae_sensor = None\<rparr>"

definition with_dice :: "additional_entropy \<Rightarrow> string \<Rightarrow> (additional_entropy, entropy_error) res" where
  "with_dice a ascii = res_bind (parse_dice ascii) (\<lambda>d. Ok (a\<lparr>ae_dice := Some d\<rparr>))"

definition with_coins :: "additional_entropy \<Rightarrow> string \<Rightarrow> (additional_entropy, entropy_error) res" where
  "with_coins a ascii = res_bind (parse_coins ascii) (\<lambda>d. Ok (a\<lparr>ae_coins := Some d\<rparr>))"

definition with_cards :: "additional_entropy \<Rightarrow> string \<Rightarrow> (additional_entropy, entropy_error) res" where
  "with_cards a ascii = res_bind (parse_cards ascii) (\<lambda>d. Ok (a\<lparr>ae_cards := Some d\<rparr>))"

definition with_sensor :: "additional_entropy \<Rightarrow> bytes \<Rightarrow> additional_entropy" where
  "with_sensor a blob = (if blob = [] then a\<lparr>ae_sensor := None\<rparr> else a\<lparr>ae_sensor := Some blob\<rparr>)"

definition cards_ascii :: "additional_entropy \<Rightarrow> string option" where
  "cards_ascii a = map_option encode_cards (ae_cards a)"

fun join_space :: "string list \<Rightarrow> string" where
  "join_space [] = []"
| "join_space [s] = s"
| "join_space (s # ss) = s @ '' '' @ join_space ss"

definition cards_display :: "additional_entropy \<Rightarrow> string option" where
  "cards_display a = map_option (\<lambda>cards. join_space (map card_encode cards)) (ae_cards a)"

definition countable_units :: "additional_entropy \<Rightarrow> countable_entropy" where
  "countable_units a = \<lparr>
     ce_dice_rolls = (case ae_dice a of Some d \<Rightarrow> length d | None \<Rightarrow> 0),
     ce_coin_flips = (case ae_coins a of Some d \<Rightarrow> length d | None \<Rightarrow> 0),
     ce_cards = (case ae_cards a of Some d \<Rightarrow> length d | None \<Rightarrow> 0)\<rparr>"

text \<open>\<open>slots.iter().rposition(|s| !s.is_empty())\<close> and the loop over the first \<open>last + 1\<close> slots.\<close>

primrec rposition :: "('a \<Rightarrow> bool) \<Rightarrow> 'a list \<Rightarrow> nat option" where
  "rposition P [] = None"
| "rposition P (x # xs) = (case rposition P xs of Some i \<Rightarrow> Some (Suc i) | None \<Rightarrow> if P x then Some 0 else None)"

definition encode_slots :: "bytes list \<Rightarrow> bytes" where
  "encode_slots slots =
     (case rposition (\<lambda>s. s \<noteq> []) slots of
        None \<Rightarrow> []
      | Some last_i \<Rightarrow>
          foldl (\<lambda>out (i, slot). (if 0 < i then out @ [SLOT_SEPARATOR] else out) @ slot) []
            (take (last_i + 1) (enumerate 0 slots)))"

definition canonical_bytes :: "additional_entropy \<Rightarrow> bytes" where
  "canonical_bytes a =
     (let cards = (case cards_ascii a of Some s \<Rightarrow> s | None \<Rightarrow> [])
      in encode_slots [
           as_bytes (case ae_dice a of Some s \<Rightarrow> s | None \<Rightarrow> []),
           as_bytes (case ae_coins a of Some s \<Rightarrow> s | None \<Rightarrow> []),
           as_bytes cards,
           (case ae_sensor a of Some b \<Rightarrow> b | None \<Rightarrow> [])])"

subsection \<open>Generation\<close>

record bip39_material =
  bm_mnemonic :: bytes
  bm_seed :: bytes

record generated_key =
  gk_word_count :: word_count
  gk_raw_csprng :: bytes
  gk_extra_bytes :: bytes
  gk_entropy :: bytes
  gk_mnemonic :: bytes
  gk_seed :: bytes
  gk_xprv :: bytes
  gk_fingerprint :: fingerprint
  gk_sources :: additional_entropy

definition extract_entropy :: "prims \<Rightarrow> bytes \<Rightarrow> bytes \<Rightarrow> word_count \<Rightarrow> bytes" where
  "extract_entropy pr raw_csprng extra_bytes wc =
     take (unat (wc_entropy_bytes wc)) (hmac_sha512 pr raw_csprng extra_bytes)"

definition bip39_from_entropy :: "key_prims \<Rightarrow> bytes \<Rightarrow> (bip39_material, entropy_error) res" where
  "bip39_from_entropy kp entropy =
     (if length entropy \<noteq> 16 \<and> length entropy \<noteq> 32 then Err (EE_BadEntropyLength (length entropy))
      else res_bind (ok_or (mnemonic_of_entropy kp entropy) EE_Bip39) (\<lambda>phrase.
        Ok \<lparr>bm_mnemonic = as_bytes phrase, bm_seed = mnemonic_to_seed kp phrase\<rparr>))"

definition finish ::
    "prims \<Rightarrow> key_prims \<Rightarrow> word_count \<Rightarrow> bytes \<Rightarrow> additional_entropy \<Rightarrow> (generated_key, entropy_error) res" where
  "finish pr kp wc raw_csprng extra =
     (let extra_bytes = canonical_bytes extra;
          entropy = extract_entropy pr raw_csprng extra_bytes wc
      in res_bind (bip39_from_entropy kp entropy) (\<lambda>bip39.
         res_bind (ok_or (xpriv_new_master kp (bm_seed bip39)) EE_MasterKey) (\<lambda>xpriv.
         Ok \<lparr>gk_word_count = wc, gk_raw_csprng = raw_csprng, gk_extra_bytes = extra_bytes,
             gk_entropy = entropy, gk_mnemonic = bm_mnemonic bip39, gk_seed = bm_seed bip39,
             gk_xprv = as_bytes (xpriv_to_string kp xpriv), gk_fingerprint = xpriv_fingerprint kp xpriv,
             gk_sources = extra\<rparr>)))"

definition generate_from_raw ::
    "prims \<Rightarrow> key_prims \<Rightarrow> word_count \<Rightarrow> bytes \<Rightarrow> additional_entropy \<Rightarrow> (generated_key, entropy_error) res" where
  "generate_from_raw pr kp wc raw extra = finish pr kp wc raw extra"

definition generate_c_from_raw ::
    "prims \<Rightarrow> key_prims \<Rightarrow> bytes \<Rightarrow> additional_entropy \<Rightarrow> (generated_key, entropy_error) res" where
  "generate_c_from_raw pr kp raw extra = finish pr kp Words24 raw extra"

definition read_raw_csprng :: "bytes option \<Rightarrow> (bytes, entropy_error) res" where
  "read_raw_csprng draw = ok_or draw EE_CsRng"

definition generate_key ::
    "prims \<Rightarrow> key_prims \<Rightarrow> bytes option \<Rightarrow> word_count \<Rightarrow> additional_entropy \<Rightarrow> (generated_key, entropy_error) res" where
  "generate_key pr kp draw wc extra =
     res_bind (read_raw_csprng draw) (\<lambda>raw. generate_from_raw pr kp wc raw extra)"

definition generate_c ::
    "prims \<Rightarrow> key_prims \<Rightarrow> bytes option \<Rightarrow> additional_entropy \<Rightarrow> (generated_key, entropy_error) res" where
  "generate_c pr kp draw extra =
     res_bind (read_raw_csprng draw) (\<lambda>raw. generate_c_from_raw pr kp raw extra)"

subsection \<open>The verification sheet\<close>

definition hex_encode :: "bytes \<Rightarrow> string" where
  "hex_encode bs = foldl (\<lambda>s b. s @ [hex_digit (drop_bit 4 b), hex_digit (b AND 0xf)]) [] bs"

record verification_sheet =
  vs_l :: u8
  vs_word_count :: word_count
  vs_raw_csprng_hex :: string
  vs_extra_bytes_hex :: string
  vs_entropy_hex :: string
  vs_mnemonic :: string
  vs_dice :: "string option"
  vs_coins :: "string option"
  vs_cards :: "string option"
  vs_sensor_len :: "nat option"

definition sheet_from_parts ::
    "word_count \<Rightarrow> string \<Rightarrow> string \<Rightarrow> string \<Rightarrow> string \<Rightarrow> additional_entropy \<Rightarrow> verification_sheet" where
  "sheet_from_parts wc raw_hex extra_hex entropy_hex mnemonic sources = \<lparr>
     vs_l = wc_entropy_bytes wc, vs_word_count = wc, vs_raw_csprng_hex = raw_hex,
     vs_extra_bytes_hex = extra_hex, vs_entropy_hex = entropy_hex, vs_mnemonic = mnemonic,
     vs_dice = ae_dice sources, vs_coins = ae_coins sources, vs_cards = cards_display sources,
     vs_sensor_len = map_option length (ae_sensor sources)\<rparr>"

definition sheet_from_key :: "generated_key \<Rightarrow> verification_sheet" where
  "sheet_from_key k = sheet_from_parts (gk_word_count k) (hex_encode (gk_raw_csprng k))
     (hex_encode (gk_extra_bytes k)) (hex_encode (gk_entropy k))
     (map (\<lambda>b. char_of (unat b)) (gk_mnemonic k)) (gk_sources k)"

subsection \<open>Sources as the builder makes them\<close>

inductive built :: "additional_entropy \<Rightarrow> bool" where
  built_new: "built additional_new"
| built_dice: "built a \<Longrightarrow> with_dice a s = Ok a' \<Longrightarrow> built a'"
| built_coins: "built a \<Longrightarrow> with_coins a s = Ok a' \<Longrightarrow> built a'"
| built_cards: "built a \<Longrightarrow> with_cards a s = Ok a' \<Longrightarrow> built a'"
| built_sensor: "built a \<Longrightarrow> built (with_sensor a blob)"

text \<open>The canonical encoding by recursion over the slots.\<close>

primrec slots_rec :: "bytes list \<Rightarrow> bytes" where
  "slots_rec [] = []"
| "slots_rec (w # ws) = w @ (if list_all (\<lambda>x. x = []) ws then [] else SLOT_SEPARATOR # slots_rec ws)"

definition sources_ok :: "additional_entropy \<Rightarrow> bool" where
  "sources_ok a \<longleftrightarrow>
     (\<forall>d. ae_dice a = Some d \<longrightarrow> d \<noteq> [] \<and> SLOT_SEPARATOR \<notin> set (as_bytes d))
     \<and> (\<forall>d. ae_coins a = Some d \<longrightarrow> d \<noteq> [] \<and> SLOT_SEPARATOR \<notin> set (as_bytes d))
     \<and> (\<forall>h. ae_cards a = Some h \<longrightarrow> h \<noteq> [] \<and> distinct h)
     \<and> ae_sensor a \<noteq> Some []"

text \<open>A concrete stand-in for the key primitives, used only to evaluate the model.\<close>

definition sample_key_prims :: key_prims where
  "sample_key_prims = \<lparr>
     mnemonic_of_entropy = (\<lambda>e. Some (map (\<lambda>b. char_of (unat b)) e)),
     mnemonic_to_seed = (\<lambda>s. as_bytes s @ as_bytes s),
     xpriv_new_master = (\<lambda>s. Some \<lparr>xp_private_key = take 32 s, xp_chain_code = replicate 32 0\<rparr>),
     xpriv_fingerprint = (\<lambda>x. Fingerprint (byte_sum (xp_private_key x)) 0 0 0),
     xpriv_to_string = (\<lambda>x. map (\<lambda>b. char_of (unat b)) (xp_private_key x)),
     xpriv_derive_priv = (\<lambda>x p. Some x),
     public_key_of_secret = (\<lambda>sk. 2 # sk)\<rparr>"

section \<open>Lemmas\<close>

subsection \<open>Cards\<close>

lemma rank_from_start_append: "rank_from_start (rank_str r @ rest) = Some (r, length (rank_str r))"
  by (cases r) (simp_all add: rank_from_start_def)

lemma rank_from_start_Some:
  "rank_from_start s = Some (r, n) \<Longrightarrow> n = length (rank_str r) \<and> (\<exists>rest. s = rank_str r @ rest)"
  by (cases s) (auto simp: rank_from_start_def split: if_splits list.splits)

lemma suit_from_byte_Some: "suit_from_byte c = Some s \<longleftrightarrow> c = suit_char s"
  by (cases s) (auto simp: suit_from_byte_def)

lemma rank_index_inject: "rank_index r = rank_index r' \<longleftrightarrow> r = r'"
  by (cases r; cases r') simp_all

lemma suit_index_inject: "suit_index s = suit_index s' \<longleftrightarrow> s = s'"
  by (cases s; cases s') simp_all

lemma unat_deck_index: "unat (deck_index c) = unat (rank_index (card_rank c)) * 4 + unat (suit_index (card_suit c))"
  by (cases "card_rank c"; cases "card_suit c"; simp add: deck_index_def)

lemma unat_suit_index: "unat (suit_index s) < 4"
  by (cases s) simp_all

lemma deck_index_inject: "unat (deck_index c) = unat (deck_index d) \<longleftrightarrow> c = d"
proof
  assume "unat (deck_index c) = unat (deck_index d)"
  then have eq: "unat (rank_index (card_rank c)) * 4 + unat (suit_index (card_suit c))
      = unat (rank_index (card_rank d)) * 4 + unat (suit_index (card_suit d))"
    by (simp add: unat_deck_index)
  have lt: "unat (suit_index (card_suit c)) < 4" "unat (suit_index (card_suit d)) < 4"
    by (rule unat_suit_index)+
  have r: "unat (rank_index (card_rank c)) = unat (rank_index (card_rank d))" using eq lt by linarith
  moreover have "unat (suit_index (card_suit c)) = unat (suit_index (card_suit d))" using eq unfolding r by simp
  ultimately show "c = d"
    by (simp add: word_unat_eq_iff [symmetric] rank_index_inject suit_index_inject card.expand)
qed simp

lemma deck_index_lt: "unat (deck_index c) < 64"
  using unat_suit_index [of "card_suit c"] by (cases "card_rank c") (simp_all add: unat_deck_index)

lemma seen_bit: "(seen :: u64) AND 2 ^ n = 0 \<longleftrightarrow> \<not> bit seen n"
  by (rule and_exp_eq_0_iff_not_bit)

lemma seen_update:
  "bit ((seen :: u64) OR 2 ^ unat (deck_index c)) m \<longleftrightarrow> bit seen m \<or> m = unat (deck_index c)"
  using deck_index_lt [of c] by (auto simp: bit_simps)

lemma parse_cards_loop_card:
  "parse_cards_loop (card_encode c @ rest) i seen cards =
     (if bit seen (unat (deck_index c)) then Err (EE_InvalidCard (CardDuplicate (card_encode c)))
      else parse_cards_loop rest (i + length (card_encode c)) (seen OR 2 ^ unat (deck_index c)) (cards @ [c]))"
  by (subst parse_cards_loop.simps)
    (simp add: card_encode_def rank_from_start_append suit_from_byte_Some [THEN iffD2] Let_def seen_bit add.assoc)

lemma parse_cards_loop_Ok_cases:
  assumes "parse_cards_loop bs i seen cards = Ok out" and "bs \<noteq> []"
  obtains c rest where "bs = card_encode c @ rest"
proof -
  from assms obtain r n where r: "rank_from_start bs = Some (r, n)"
    by (subst (asm) parse_cards_loop.simps) (auto split: option.splits)
  then obtain rest where bs: "bs = rank_str r @ rest" and n: "n = length (rank_str r)"
    using rank_from_start_Some by blast
  with assms r obtain s where "rest \<noteq> []" "suit_from_byte (hd rest) = Some s"
    by (subst (asm) parse_cards_loop.simps) (auto simp: Let_def split: option.splits if_splits)
  then have "bs = card_encode (Card r s) @ tl rest"
    using bs by (cases rest) (simp_all add: card_encode_def suit_from_byte_Some)
  then show thesis by (rule that)
qed

lemma card_encode_nonempty [simp]: "card_encode c \<noteq> []"
  by (simp add: card_encode_def)

lemma parse_cards_loop_complete:
  "distinct hand \<Longrightarrow> \<forall>c\<in>set hand. \<not> bit seen (unat (deck_index c)) \<Longrightarrow>
     parse_cards_loop (concat (map card_encode hand)) i seen cards = Ok (cards @ hand)"
proof (induction hand arbitrary: i seen cards)
  case Nil
  show ?case by (simp add: parse_cards_loop.simps)
next
  case (Cons c hand)
  have "\<forall>d\<in>set hand. \<not> bit (seen OR 2 ^ unat (deck_index c)) (unat (deck_index d))"
    using Cons.prems by (auto simp: seen_update deck_index_inject)
  then show ?case using Cons by (simp add: parse_cards_loop_card)
qed

lemma parse_cards_loop_sound:
  "parse_cards_loop bs i seen cards = Ok out \<Longrightarrow>
     \<exists>hand. out = cards @ hand \<and> bs = concat (map card_encode hand) \<and> distinct hand
       \<and> (\<forall>c\<in>set hand. \<not> bit seen (unat (deck_index c)))"
proof (induction "length bs" arbitrary: bs i seen cards rule: less_induct)
  case less
  show ?case
  proof (cases "bs = []")
    case True
    then show ?thesis using less.prems by (simp add: parse_cards_loop.simps)
  next
    case False
    obtain c rest where bs: "bs = card_encode c @ rest"
      using parse_cards_loop_Ok_cases [OF less.prems False] by blast
    with less.prems have new: "\<not> bit seen (unat (deck_index c))"
      and rec: "parse_cards_loop rest (i + length (card_encode c)) (seen OR 2 ^ unat (deck_index c))
        (cards @ [c]) = Ok out"
      by (auto simp: parse_cards_loop_card split: if_splits)
    have "length rest < length bs" by (simp add: bs)
    from less.hyps [OF this rec] obtain hand where "out = (cards @ [c]) @ hand" "rest = concat (map card_encode hand)"
        "distinct hand" "\<forall>d\<in>set hand. \<not> bit (seen OR 2 ^ unat (deck_index c)) (unat (deck_index d))"
      by blast
    then show ?thesis
      using new bs by (intro exI [of _ "c # hand"]) (auto simp: seen_update deck_index_inject)
  qed
qed

lemma encode_cards_concat: "encode_cards cards = concat (map card_encode cards)"
proof -
  have "foldl (\<lambda>s c. s @ rank_str (card_rank c) @ [suit_char (card_suit c)]) z cards
      = z @ concat (map card_encode cards)" for z
    by (induction cards arbitrary: z) (simp_all add: card_encode_def)
  then show ?thesis by (simp add: encode_cards_def)
qed

lemma parse_cards_Ok:
  "parse_cards s = Ok hand \<longleftrightarrow> hand \<noteq> [] \<and> distinct hand \<and> s = encode_cards hand"
proof
  assume "parse_cards s = Ok hand"
  then show "hand \<noteq> [] \<and> distinct hand \<and> s = encode_cards hand"
    using parse_cards_loop_sound [of s 0 0 "[]" hand]
    by (auto simp: parse_cards_def encode_cards_concat split: if_splits)
next
  assume r: "hand \<noteq> [] \<and> distinct hand \<and> s = encode_cards hand"
  then have "encode_cards hand \<noteq> []" by (cases hand) (simp_all add: encode_cards_concat)
  then show "parse_cards s = Ok hand"
    using r parse_cards_loop_complete [of hand 0 0 "[]"] by (simp add: parse_cards_def encode_cards_concat)
qed

lemma parse_cards_loop_not_Panic: "parse_cards_loop bs i seen cards \<noteq> Panic"
proof (induction bs i seen cards rule: parse_cards_loop.induct)
  case (1 bs i seen cards)
  show ?case
    using 1 by (subst parse_cards_loop.simps) (auto simp: Let_def split: option.splits)
qed

subsection \<open>The canonical encoding\<close>

lemma encode_slots_rec: "encode_slots [w, x, y, z] = slots_rec [w, x, y, z]"
  by (simp add: encode_slots_def)

lemma sep_split:
  "s \<notin> set w \<Longrightarrow> s \<notin> set w' \<Longrightarrow> w @ s # r = w' @ s # r' \<longleftrightarrow> w = w' \<and> r = r'"
proof (induction w arbitrary: w')
  case Nil
  then show ?case by (cases w') auto
next
  case (Cons c w)
  then show ?case by (cases w') auto
qed

lemma all_empty_unique:
  "length ws = length ws' \<Longrightarrow> list_all (\<lambda>x. x = []) ws \<Longrightarrow> list_all (\<lambda>x. x = []) ws' \<Longrightarrow> ws = ws'"
  by (induction ws ws' rule: list_induct2) auto

lemma slots_rec_inject:
  "length ws = length ws' \<Longrightarrow> \<forall>w\<in>set (butlast ws) \<union> set (butlast ws'). SLOT_SEPARATOR \<notin> set w \<Longrightarrow>
     slots_rec ws = slots_rec ws' \<Longrightarrow> ws = ws'"
proof (induction ws ws' rule: list_induct2)
  case (Cons w ws w' ws')
  show ?case
  proof (cases "ws = []")
    case True
    then show ?thesis using Cons by simp
  next
    case False
    then have "ws' \<noteq> []" using Cons.hyps by auto
    then have sep: "SLOT_SEPARATOR \<notin> set w" "SLOT_SEPARATOR \<notin> set w'"
        "\<forall>w\<in>set (butlast ws) \<union> set (butlast ws'). SLOT_SEPARATOR \<notin> set w"
      using Cons.prems(1) False by auto
    show ?thesis
    proof (cases "list_all (\<lambda>x. x = []) ws \<longleftrightarrow> list_all (\<lambda>x. x = []) ws'")
      case True
      then show ?thesis
        using Cons.prems(2) Cons.IH [OF sep(3)] sep all_empty_unique [OF Cons.hyps]
        by (auto simp: sep_split split: if_splits)
    next
      case False
      then show ?thesis using Cons.prems(2) sep(1,2) by (auto split: if_splits)
    qed
  qed
qed simp

lemma unat_of_char: "unat (of_char c :: u8) = of_char c"
proof -
  have "unat (of_nat (of_char c) :: u8) = of_char c"
    using nat_of_char_less_256 [of c]
    by (simp add: unsigned_of_nat take_bit_nat_eq_self_iff del: of_nat_of_char)
  then show ?thesis by (simp only: of_nat_of_char)
qed

lemma as_bytes_inject: "as_bytes s = as_bytes t \<longleftrightarrow> s = t"
proof -
  have "c = d" if "(of_char c :: u8) = of_char d" for c d
    using arg_cong [OF that, of unat] by (simp add: unat_of_char)
  then have "inj (of_char :: char \<Rightarrow> u8)" by (rule injI)
  then show ?thesis by (simp add: as_bytes_def inj_map_eq_map)
qed

lemma as_bytes_append [simp]: "as_bytes [] = []" "as_bytes (s @ t) = as_bytes s @ as_bytes t"
  by (simp_all add: as_bytes_def)

lemma parse_dice_Ok:
  "parse_dice s = Ok d \<longleftrightarrow> d = s \<and> s \<noteq> []
     \<and> list_all (\<lambda>c. 0x31 \<le> (of_char c :: u8) \<and> of_char c \<le> (0x36 :: u8)) s"
  unfolding parse_dice_def
  by (auto simp: res_simps for_check_iff [where P = "\<lambda>c. 0x31 \<le> (of_char c :: u8) \<and> of_char c \<le> (0x36 :: u8)"]
      ensure_def)

lemma parse_coins_Ok:
  "parse_coins s = Ok d \<longleftrightarrow> d = s \<and> s \<noteq> [] \<and> list_all (\<lambda>c. c = CHR ''0'' \<or> c = CHR ''1'') s"
  unfolding parse_coins_def
  by (auto simp: res_simps for_check_iff [where P = "\<lambda>c. c = CHR ''0'' \<or> c = CHR ''1''"] ensure_def)

lemma dice_no_separator:
  "list_all (\<lambda>c. 0x31 \<le> (of_char c :: u8) \<and> of_char c \<le> (0x36 :: u8)) s \<Longrightarrow> SLOT_SEPARATOR \<notin> set (as_bytes s)"
  by (auto simp: as_bytes_def list_all_iff SLOT_SEPARATOR_def)

lemma coins_no_separator:
  assumes "list_all (\<lambda>c. c = CHR ''0'' \<or> c = CHR ''1'') s"
  shows "SLOT_SEPARATOR \<notin> set (as_bytes s)"
proof
  assume "SLOT_SEPARATOR \<in> set (as_bytes s)"
  then obtain c where c: "c \<in> set s" "SLOT_SEPARATOR = of_char c" by (auto simp only: as_bytes_def set_map)
  have "c = CHR ''0'' \<or> c = CHR ''1''" using assms c(1) by (simp add: list_all_iff)
  then show False
  proof
    assume "c = CHR ''0''"
    with c(2) have "SLOT_SEPARATOR = of_char (CHR ''0'')" by (simp only:)
    then show False by (simp add: SLOT_SEPARATOR_def)
  next
    assume "c = CHR ''1''"
    with c(2) have "SLOT_SEPARATOR = of_char (CHR ''1'')" by (simp only:)
    then show False by (simp add: SLOT_SEPARATOR_def)
  qed
qed

lemma card_no_separator: "SLOT_SEPARATOR \<notin> set (as_bytes (card_encode c))"
  by (cases "card_rank c"; cases "card_suit c"; simp add: card_encode_def as_bytes_def SLOT_SEPARATOR_def)

lemma cards_no_separator: "SLOT_SEPARATOR \<notin> set (as_bytes (encode_cards cs))"
  using card_no_separator by (induction cs) (auto simp: encode_cards_concat)

lemma built_sources_ok: "built a \<Longrightarrow> sources_ok a"
proof (induction rule: built.induct)
  case built_new
  then show ?case by (simp add: sources_ok_def additional_new_def)
next
  case (built_dice a s a')
  then show ?case by (auto simp: sources_ok_def with_dice_def res_simps parse_dice_Ok dice_no_separator)
next
  case (built_coins a s a')
  then show ?case by (auto simp: sources_ok_def with_coins_def res_simps parse_coins_Ok coins_no_separator)
next
  case (built_cards a s a')
  then show ?case by (auto simp: sources_ok_def with_cards_def res_simps parse_cards_Ok)
next
  case (built_sensor a blob)
  then show ?case by (auto simp: sources_ok_def with_sensor_def)
qed

lemma encode_cards_inject:
  assumes "h \<noteq> []" "distinct h" "h' \<noteq> []" "distinct h'" "encode_cards h = encode_cards h'"
  shows "h = h'"
  using assms parse_cards_Ok [of "encode_cards h" h] parse_cards_Ok [of "encode_cards h'" h'] by simp

lemma encode_cards_empty: "encode_cards h = [] \<longleftrightarrow> h = []"
  by (cases h) (simp_all add: encode_cards_concat)

lemma option_field_inject:
  assumes "x \<noteq> Some []" "y \<noteq> Some []"
    and "(case x of Some s \<Rightarrow> s | None \<Rightarrow> []) = (case y of Some s \<Rightarrow> s | None \<Rightarrow> [])"
  shows "x = y"
  using assms by (auto split: option.splits)

lemma canonical_bytes_inject:
  assumes "sources_ok a" and "sources_ok b" and "canonical_bytes a = canonical_bytes b"
  shows "a = b"
proof -
  let ?f = "\<lambda>x. case x of Some s \<Rightarrow> s | None \<Rightarrow> []"
  let ?ws = "\<lambda>a. [as_bytes (?f (ae_dice a)), as_bytes (?f (ae_coins a)), as_bytes (?f (cards_ascii a)), ?f (ae_sensor a)]"
  have sep: "\<forall>w\<in>set (butlast (?ws a)). SLOT_SEPARATOR \<notin> set w" if "sources_ok a" for a
    using that cards_no_separator
    by (auto simp: sources_ok_def cards_ascii_def split: option.splits)
  have "slots_rec (?ws a) = slots_rec (?ws b)"
    using assms(3) by (simp only: canonical_bytes_def Let_def encode_slots_rec)
  then have "?ws a = ?ws b"
    using sep [OF assms(1)] sep [OF assms(2)] by (intro slots_rec_inject) auto
  then have eq: "?f (ae_dice a) = ?f (ae_dice b)" "?f (ae_coins a) = ?f (ae_coins b)"
      "?f (cards_ascii a) = ?f (cards_ascii b)" "?f (ae_sensor a) = ?f (ae_sensor b)"
    by (simp_all add: as_bytes_inject)
  have ok: "ae_dice a \<noteq> Some []" "ae_coins a \<noteq> Some []" "cards_ascii a \<noteq> Some []" "ae_sensor a \<noteq> Some []"
    if "sources_ok a" for a
    using that by (auto simp: sources_ok_def cards_ascii_def encode_cards_empty)
  have f: "ae_dice a = ae_dice b" "ae_coins a = ae_coins b" "cards_ascii a = cards_ascii b" "ae_sensor a = ae_sensor b"
    using ok [OF assms(1)] ok [OF assms(2)] eq by (blast intro: option_field_inject)+
  have "ae_cards a = ae_cards b"
    using f(3) assms(1,2) encode_cards_inject
    by (cases "ae_cards a"; cases "ae_cards b") (auto simp: cards_ascii_def sources_ok_def)
  then show "a = b" using f by simp
qed

subsection \<open>Generation\<close>

lemma hex_encode_concat: "hex_encode bs = concat (map hex_of_byte bs)"
proof -
  have "foldl (\<lambda>s b. s @ [hex_digit (drop_bit 4 b), hex_digit (b AND 0xf)]) z bs = z @ concat (map hex_of_byte bs)" for z
    by (induction bs arbitrary: z) (simp_all add: hex_of_byte_def)
  then show ?thesis by (simp add: hex_encode_def)
qed

lemma hex_encode_decodes: "hex_chunks (as_bytes (hex_encode bs)) = Ok bs"
  by (simp add: hex_encode_concat hex_chunks_to_hex)

lemma finish_Ok:
  assumes "finish pr kp wc raw extra = Ok k"
  shows "gk_word_count k = wc" "gk_raw_csprng k = raw" "gk_extra_bytes k = canonical_bytes extra"
    "gk_entropy k = extract_entropy pr raw (canonical_bytes extra) wc" "gk_sources k = extra"
  using assms by (auto simp: finish_def Let_def res_simps)

section \<open>Properties\<close>

text \<open>
  C30: the card parser never panics and accepts exactly the encodings of non-empty hands in
  which no card repeats, and returns that hand: a hand that is accepted is written back to the
  same text, and every hand a deck allows can be entered.
\<close>

theorem parse_cards_accepts_hands:
  "parse_cards s \<noteq> Panic
   \<and> (parse_cards s = Ok hand \<longleftrightarrow> hand \<noteq> [] \<and> distinct hand \<and> s = encode_cards hand)"
  using parse_cards_Ok parse_cards_loop_not_Panic by (simp add: parse_cards_def)

text \<open>
  C29: the canonical encoding never collides: two source combinations made by the builder give
  the same extra bytes only if they are the same combination, also when the sensor blob contains
  the separator byte.
\<close>

theorem canonical_bytes_injective:
  assumes "built a" and "built b"
  shows "canonical_bytes a = canonical_bytes b \<longleftrightarrow> a = b"
  using canonical_bytes_inject [OF built_sources_ok [OF assms(1)] built_sources_ok [OF assms(2)]] by blast

theorem canonical_bytes_injective_witness:
  "canonical_bytes (with_sensor additional_new [0x1e, 1]) \<noteq> canonical_bytes (with_sensor additional_new [1])"
proof -
  have "built (with_sensor additional_new b)" for b by (intro built_sensor built_new)
  then have "canonical_bytes (with_sensor additional_new [0x1e, 1]) = canonical_bytes (with_sensor additional_new [1])
      \<longleftrightarrow> with_sensor additional_new [0x1e, 1] = with_sensor additional_new [1]"
    using canonical_bytes_injective by blast
  then show ?thesis by (simp add: with_sensor_def additional_new_def)
qed

text \<open>
  a generated key C has 24 words and 32 bytes of entropy whatever the sources, a key A or B
  has the length that was asked for, and without random bytes from the operating system nothing
  is generated.
\<close>

theorem generated_key_length:
  assumes "\<forall>k d. length (hmac_sha512 pr k d) = 64"
  shows "(generate_c pr kp draw extra = Ok k \<longrightarrow> gk_word_count k = Words24 \<and> length (gk_entropy k) = 32)
    \<and> (generate_key pr kp draw wc extra = Ok k \<longrightarrow>
         gk_word_count k = wc \<and> length (gk_entropy k) = unat (wc_entropy_bytes wc))
    \<and> generate_c pr kp None extra = Err EE_CsRng \<and> generate_key pr kp None wc extra = Err EE_CsRng"
proof -
  have len: "length (extract_entropy pr raw x w) = unat (wc_entropy_bytes w)" for raw x w
    using assms by (cases w) (simp_all add: extract_entropy_def)
  have f: "length (gk_entropy k) = unat (wc_entropy_bytes w) \<and> gk_word_count k = w"
    if "finish pr kp w raw extra = Ok k" for w raw
    using finish_Ok [OF that] len by simp
  show ?thesis
    by (auto simp: generate_c_def generate_key_def read_raw_csprng_def generate_from_raw_def
        generate_c_from_raw_def res_simps dest!: f)
qed

theorem generated_key_length_witness:
  "\<exists>k. generate_c sample_prims sample_key_prims (Some (replicate 32 4)) additional_new = Ok k
     \<and> gk_word_count k = Words24 \<and> length (gk_entropy k) = 32"
proof -
  have h: "\<forall>k d. length (hmac_sha512 sample_prims k d) = 64" by (simp add: sample_prims_def)
  then have "\<exists>k. generate_c sample_prims sample_key_prims (Some (replicate 32 4)) additional_new = Ok k"
    by (simp add: generate_c_def read_raw_csprng_def generate_c_from_raw_def finish_def Let_def
        bip39_from_entropy_def extract_entropy_def sample_key_prims_def)
  then show ?thesis using generated_key_length [OF h] by blast
qed

text \<open>
  the verification sheet of a generated key lets a third party recompute it: its hex fields
  decode to the random bytes, the canonical bytes of the stated sources and the entropy, and the
  entropy is the first L bytes of the HMAC of the first two.
\<close>

theorem sheet_recomputes_key:
  assumes "generate_from_raw pr kp wc raw extra = Ok k"
  shows "hex_chunks (as_bytes (vs_raw_csprng_hex (sheet_from_key k))) = Ok raw
    \<and> hex_chunks (as_bytes (vs_extra_bytes_hex (sheet_from_key k))) = Ok (canonical_bytes extra)
    \<and> hex_chunks (as_bytes (vs_entropy_hex (sheet_from_key k)))
      = Ok (take (unat (vs_l (sheet_from_key k))) (hmac_sha512 pr raw (canonical_bytes extra)))"
  using finish_Ok [OF assms [unfolded generate_from_raw_def]]
  by (simp add: sheet_from_key_def sheet_from_parts_def hex_encode_decodes extract_entropy_def)

theorem sheet_recomputes_key_witness:
  "\<exists>k. generate_from_raw sample_prims sample_key_prims Words12 (replicate 32 4) additional_new = Ok k
     \<and> hex_chunks (as_bytes (vs_raw_csprng_hex (sheet_from_key k))) = Ok (replicate 32 4)"
proof -
  have "\<exists>k. generate_from_raw sample_prims sample_key_prims Words12 (replicate 32 4) additional_new = Ok k"
    by (simp add: generate_from_raw_def finish_def Let_def bip39_from_entropy_def extract_entropy_def
        sample_key_prims_def sample_prims_def)
  then show ?thesis using sheet_recomputes_key by blast
qed

end
