(* ===== verification/Signer.thy ===== *)
theory Signer
  imports Spend_Window Keystore Entropy
begin

text \<open>
  \<open>crates/trinity-signer/src/sign.rs\<close>, \<open>local.rs\<close>, \<open>kind.rs\<close> and the \<open>Signer\<close> trait of
  \<open>lib.rs\<close>: the signing primitive, the on-device signer and the A-then-B composition with the
  spend window. A signer is a record of the trait's functions; \<open>sign\<close> passes on the state of the
  outside world (the platform key store), so that the model shows which calls reach it. A
  secret that the code overwrites in place is returned overwritten.

  The lemmas give what a successful run of each function has established. The locale
  \<open>careful_signer\<close> is what the composition may rely on in a signer; it is interpreted for the
  on-device signer.
\<close>

subsection \<open>Kinds and signers\<close>

datatype signer_kind = KindLocal | KindExternalNfc | KindExternalQr | KindExternalUsb

fun kind_str :: "signer_kind \<Rightarrow> string" where
  "kind_str KindLocal = ''local''"
| "kind_str KindExternalNfc = ''external-nfc''"
| "kind_str KindExternalQr = ''external-qr''"
| "kind_str KindExternalUsb = ''external-usb''"

record 'w signer =
  sg_fingerprint :: fingerprint
  sg_sign :: "'w \<Rightarrow> psbt \<Rightarrow> (psbt, sign_error) res \<times> 'w"
  sg_kind :: signer_kind

subsection \<open>Messages and signatures\<close>

definition sighash_is_all :: "u32 \<Rightarrow> bool" where
  "sighash_is_all sht =
     (case sighash_from_standard sht of Some SighashAll \<Rightarrow> True | Some _ \<Rightarrow> False | None \<Rightarrow> False)"

definition p2wsh_sighash :: "prims \<Rightarrow> transaction \<Rightarrow> nat \<Rightarrow> bytes \<Rightarrow> u64 \<Rightarrow> (bytes, sign_error) res" where
  "p2wsh_sighash pr tx input_index witness_script value =
     ok_or (p2wsh_signature_hash pr tx input_index witness_script value SighashAll) (SE_Sighash input_index)"

definition sighash_message :: "prims \<Rightarrow> transaction \<Rightarrow> nat \<Rightarrow> psbt_input \<Rightarrow> (bytes, sign_error) res" where
  "sighash_message pr tx input_index inp =
     res_bind (ok_or (in_witness_utxo inp) (SE_MissingWitnessUtxo input_index)) (\<lambda>utxo.
     res_bind (ok_or (in_witness_script inp) (SE_MissingWitnessScript input_index)) (\<lambda>script.
     p2wsh_sighash pr tx input_index script (to_value utxo)))"

definition reject_high_s :: "prims \<Rightarrow> bytes \<Rightarrow> (unit, sign_error) res" where
  "reject_high_s pr sg = (if normalize_s pr sg \<noteq> sg then Err SE_SelfVerificationFailed else Ok ())"

definition verify_own_signature :: "prims \<Rightarrow> bytes \<Rightarrow> bytes \<Rightarrow> secp_key \<Rightarrow> (unit, sign_error) res" where
  "verify_own_signature pr msg sg pk =
     (if verify_ecdsa pr msg sg pk then Ok () else Err SE_SelfVerificationFailed)"

definition map_bip32 :: "'a option \<Rightarrow> ('a, sign_error) res" where
  "map_bip32 r = ok_or r SE_Bip32"

definition seed_from_entropy :: "key_prims \<Rightarrow> bytes \<Rightarrow> (bytes, sign_error) res" where
  "seed_from_entropy kp entropy =
     res_bind (res_map_err (\<lambda>_. SE_Entropy) (bip39_from_entropy kp entropy)) (\<lambda>material. Ok (bm_seed material))"

text \<open>\<open>non_secure_erase\<close> fills the 32 bytes with 1.\<close>

definition erase_secret_key :: "bytes \<Rightarrow> bytes" where
  "erase_secret_key sk = replicate 32 1"

definition erase_xpriv :: "xpriv \<Rightarrow> xpriv" where
  "erase_xpriv x = x\<lparr>xp_private_key := erase_secret_key (xp_private_key x), xp_chain_code := replicate 32 1\<rparr>"

definition pubkey_for_fingerprint :: "psbt_input \<Rightarrow> fingerprint \<Rightarrow> secp_key option" where
  "pubkey_for_fingerprint inp fp =
     map_option fst (List.find (\<lambda>(_, (f, _)). f = fp) (in_bip32_derivation inp))"

definition check_key_a_signatures :: "prims \<Rightarrow> psbt \<Rightarrow> string \<Rightarrow> (unit, sign_error) res" where
  "check_key_a_signatures pr p descriptor =
     res_bind (res_map_err (\<lambda>e. SE_Verify (VE_Descriptor e)) (parse pr descriptor)) (\<lambda>parsed.
     res_bind (index_res (pd_keys parsed) 0) (\<lambda>key_a.
     for_check (\<lambda>i inp.
       res_bind (ok_or (pubkey_for_fingerprint inp (ke_fingerprint key_a)) SE_UnexpectedKeyASignature) (\<lambda>pk.
       res_bind (ok_or (btree_get (in_partial_sigs inp) (public_key_new pk)) SE_UnexpectedKeyASignature) (\<lambda>sg.
       if sig_sighash_type sg \<noteq> SighashAll then Err (SE_NonSighashAll i)
       else res_bind (sighash_message pr (ps_unsigned_tx p) i inp) (\<lambda>msg.
         verify_own_signature pr msg (sig_signature sg) pk)))) 0 (ps_inputs p)))"

definition preflight_inputs :: "psbt \<Rightarrow> fingerprint \<Rightarrow> (unit, sign_error) res" where
  "preflight_inputs p fp =
     (if ps_inputs p = [] then Err SE_EmptyPsbt
      else for_check (\<lambda>i inp.
        res_bind (case in_sighash_type inp of
            Some sht \<Rightarrow> if \<not> sighash_is_all sht then Err (SE_NonSighashAll i) else Ok ()
          | None \<Rightarrow> Ok ()) (\<lambda>_.
        res_bind (for_check (\<lambda>_ (_, sg).
            if sig_sighash_type sg \<noteq> SighashAll then Err (SE_NonSighashAll i) else Ok ()) 0 (in_partial_sigs inp)) (\<lambda>_.
        if in_witness_utxo inp = None then Err (SE_MissingWitnessUtxo i)
        else if in_witness_script inp = None then Err (SE_MissingWitnessScript i)
        else if \<not> list_ex (\<lambda>(_, (f, _)). f = fp) (in_bip32_derivation inp) then Err (SE_MissingDerivation i)
        else Ok ()))) 0 (ps_inputs p))"

subsection \<open>Signing the inputs\<close>

type_synonym derived_secret = "nat \<times> secp_key \<times> bytes"

definition erase_derived :: "derived_secret list \<Rightarrow> derived_secret list" where
  "erase_derived ds = map (\<lambda>(i, pk, sk). (i, pk, erase_secret_key sk)) ds"

definition insert_signature :: "psbt \<Rightarrow> nat \<times> public_key \<times> signature \<Rightarrow> (psbt, sign_error) res" where
  "insert_signature p e =
     (case e of (i, pk, sg) \<Rightarrow>
        res_bind (index_res (ps_inputs p) i) (\<lambda>inp.
        Ok (p\<lparr>ps_inputs := (ps_inputs p)[i := inp\<lparr>in_partial_sigs := btree_insert pk sg (in_partial_sigs inp),
                in_sighash_type := Some 1\<rparr>]\<rparr>)))"

definition sign_one :: "prims \<Rightarrow> psbt \<Rightarrow> derived_secret \<Rightarrow> (nat \<times> public_key \<times> signature, sign_error) res" where
  "sign_one pr p d = (case d of (i, expected_pk, sk) \<Rightarrow>
     res_bind (index_res (ps_inputs p) i) (\<lambda>inp.
     res_bind (sighash_message pr (ps_unsigned_tx p) i inp) (\<lambda>msg.
     let sg = sign_ecdsa_low_r pr msg sk
     in res_bind (reject_high_s pr sg) (\<lambda>_.
        res_bind (verify_own_signature pr msg sg expected_pk) (\<lambda>_.
        Ok (i, public_key_new expected_pk, \<lparr>sig_signature = sg, sig_sighash_type = SighashAll\<rparr>))))))"

definition sign_inputs_inner :: "prims \<Rightarrow> psbt \<Rightarrow> derived_secret list \<Rightarrow> (psbt, sign_error) res" where
  "sign_inputs_inner pr p derived =
     res_bind (for_in (\<lambda>_ d produced. res_bind (sign_one pr p d) (\<lambda>e. Ok (produced @ [e]))) 0 derived [])
       (\<lambda>produced. for_in (\<lambda>_ e p. insert_signature p e) 0 produced p)"

definition sign_inputs ::
    "prims \<Rightarrow> psbt \<Rightarrow> derived_secret list \<Rightarrow> (psbt, sign_error) res \<times> derived_secret list" where
  "sign_inputs pr p derived = (sign_inputs_inner pr p derived, erase_derived derived)"

subsection \<open>The on-device signer\<close>

record local_signer =
  ls_slot :: key_slot
  ls_fingerprint :: fingerprint
  ls_wrapped_kek :: bytes
  ls_blob :: bytes

definition local_signer_new ::
    "key_slot \<Rightarrow> fingerprint \<Rightarrow> bytes \<Rightarrow> bytes \<Rightarrow> (local_signer, sign_error) res" where
  "local_signer_new slot fp wrapped_kek blob =
     (if \<not> has_device_blob slot then Err SE_InvalidSlot
      else Ok \<lparr>ls_slot = slot, ls_fingerprint = fp, ls_wrapped_kek = wrapped_kek, ls_blob = blob\<rparr>)"

definition unlock_master ::
    "aead \<Rightarrow> key_prims \<Rightarrow> 'p platform_key_store \<Rightarrow> local_signer \<Rightarrow> 'p \<Rightarrow> (xpriv, sign_error) res \<times> 'p" where
  "unlock_master A kp plat ls st =
     (let (r, st) = unwrap_kek plat st (ls_slot ls) (ls_wrapped_kek ls)
      in (res_bind (res_map_err SE_Platform r) (\<lambda>kek.
          if length kek \<noteq> 32 then Err SE_InvalidKekLength
          else res_bind (res_map_err SE_Blob (blob_decrypt A kek (ls_blob ls))) (\<lambda>decoded.
            if db_slot decoded \<noteq> ls_slot ls then Err SE_InvalidSlot
            else res_bind (seed_from_entropy kp (db_entropy decoded)) (\<lambda>seed.
              res_bind (map_bip32 (xpriv_new_master kp seed)) (\<lambda>master.
              if xpriv_fingerprint kp master \<noteq> ls_fingerprint ls then Err SE_FingerprintMismatch
              else Ok master)))), st))"

definition derive_child_secret :: "key_prims \<Rightarrow> xpriv \<Rightarrow> derivation_path \<Rightarrow> (secp_key \<times> bytes, sign_error) res" where
  "derive_child_secret kp master path =
     res_bind (map_bip32 (xpriv_derive_priv kp master path)) (\<lambda>child.
     let sk = xp_private_key child
     in Ok (public_key_of_secret kp sk, sk))"

text \<open>
  The loop of \<open>sign_with_master\<close>. It returns the secrets collected so far also when it stops
  early, because the code erases them on that path too.
\<close>

primrec derive_secrets ::
    "key_prims \<Rightarrow> xpriv \<Rightarrow> fingerprint \<Rightarrow> nat \<Rightarrow> psbt_input list \<Rightarrow> derived_secret list
     \<Rightarrow> (unit, sign_error) res \<times> derived_secret list" where
  "derive_secrets kp master fp i [] derived = (Ok (), derived)"
| "derive_secrets kp master fp i (inp # inps) derived =
     (case List.find (\<lambda>(_, (f, _)). f = fp) (in_bip32_derivation inp) of
        None \<Rightarrow> (Panic, derived)
      | Some (pk, (_, path)) \<Rightarrow>
          (case derive_child_secret kp master path of
             Err e \<Rightarrow> (Err e, derived)
           | Panic \<Rightarrow> (Panic, derived)
           | Ok (child_pk, sk) \<Rightarrow>
               if child_pk \<noteq> pk then (Err (SE_PubkeyMismatch i), derived)
               else derive_secrets kp master fp (Suc i) inps (derived @ [(i, child_pk, sk)])))"

definition sign_with_master ::
    "prims \<Rightarrow> key_prims \<Rightarrow> psbt \<Rightarrow> xpriv \<Rightarrow> fingerprint \<Rightarrow> (psbt, sign_error) res \<times> derived_secret list" where
  "sign_with_master pr kp p master fp =
     (let (r, derived) = derive_secrets kp master fp 0 (ps_inputs p) [];
          (result, derived) = (case r of
              Ok _ \<Rightarrow> sign_inputs pr p derived
            | Err e \<Rightarrow> (Err e, derived)
            | Panic \<Rightarrow> (Panic, derived))
      in (result, erase_derived derived))"

text \<open>What the frame of \<open>LocalSigner::sign\<close> holds once the master key is there: the result, the
  master key and the derived secrets, both overwritten.\<close>

definition sign_and_wipe ::
    "prims \<Rightarrow> key_prims \<Rightarrow> psbt \<Rightarrow> xpriv \<Rightarrow> fingerprint
     \<Rightarrow> (psbt, sign_error) res \<times> xpriv \<times> derived_secret list" where
  "sign_and_wipe pr kp p master fp =
     (let (result, derived) = sign_with_master pr kp p master fp;
          master = erase_xpriv master
      in (result, master, derived))"

definition local_sign ::
    "aead \<Rightarrow> prims \<Rightarrow> key_prims \<Rightarrow> 'p platform_key_store \<Rightarrow> local_signer \<Rightarrow> 'p \<Rightarrow> psbt
     \<Rightarrow> (psbt, sign_error) res \<times> 'p" where
  "local_sign A pr kp plat ls st p =
     (case preflight_inputs p (ls_fingerprint ls) of
        Err e \<Rightarrow> (Err e, st)
      | Panic \<Rightarrow> (Panic, st)
      | Ok _ \<Rightarrow>
          let (r, st) = unlock_master A kp plat ls st
          in (res_bind r (\<lambda>master. fst (sign_and_wipe pr kp p master (ls_fingerprint ls))), st))"

definition local_as_signer ::
    "aead \<Rightarrow> prims \<Rightarrow> key_prims \<Rightarrow> 'p platform_key_store \<Rightarrow> local_signer \<Rightarrow> 'p signer" where
  "local_as_signer A pr kp plat ls =
     \<lparr>sg_fingerprint = ls_fingerprint ls, sg_sign = local_sign A pr kp plat ls, sg_kind = KindLocal\<rparr>"

subsection \<open>A, then B\<close>

definition sign_a ::
    "prims \<Rightarrow> 'w signer \<Rightarrow> 'w \<Rightarrow> psbt \<Rightarrow> string \<Rightarrow> verify_policy \<Rightarrow> (psbt, sign_error) res \<times> 'w" where
  "sign_a pr sg w p descriptor policy =
     (case verify pr p descriptor policy of
        Err e \<Rightarrow> (Err (SE_Verify e), w)
      | Panic \<Rightarrow> (Panic, w)
      | Ok _ \<Rightarrow> sg_sign sg w p)"

definition sign_b ::
    "prims \<Rightarrow> 'w signer \<Rightarrow> 'w \<Rightarrow> psbt \<Rightarrow> bytes \<Rightarrow> string \<Rightarrow> verify_policy \<Rightarrow> (psbt, sign_error) res \<times> 'w" where
  "sign_b pr sg w p unsigned_txid_at_a descriptor policy =
     (case verify pr p descriptor policy of
        Err e \<Rightarrow> (Err (SE_Verify e), w)
      | Panic \<Rightarrow> (Panic, w)
      | Ok _ \<Rightarrow>
          if compute_txid pr (ps_unsigned_tx p) \<noteq> unsigned_txid_at_a then (Err SE_UnsignedTxChanged, w)
          else (case check_key_a_signatures pr p descriptor of
              Err e \<Rightarrow> (Err e, w)
            | Panic \<Rightarrow> (Panic, w)
            | Ok _ \<Rightarrow> sg_sign sg w p))"

record spend_session =
  ss_counter :: window_counter
  ss_policy :: spend_policy
  ss_balance :: balance
  ss_observation :: observation

definition session_authorize ::
    "prims \<Rightarrow> spend_session \<Rightarrow> psbt \<Rightarrow> string \<Rightarrow> verify_policy \<Rightarrow> (spend_approval, sign_error) res \<times> spend_session" where
  "session_authorize pr ss p descriptor policy =
     (let (r, c) = authorize pr (ss_counter ss) (ss_policy ss) p descriptor policy (ss_balance ss) (ss_observation ss)
      in (r, ss\<lparr>ss_counter := c\<rparr>))"

definition session_commit :: "spend_session \<Rightarrow> spend_approval \<Rightarrow> spend_session" where
  "session_commit ss ap = ss\<lparr>ss_counter := commit (ss_counter ss) ap\<rparr>"

definition sign_ab ::
    "prims \<Rightarrow> 'w signer \<Rightarrow> 'w signer \<Rightarrow> 'w \<Rightarrow> psbt \<Rightarrow> string \<Rightarrow> verify_policy \<Rightarrow> spend_session
     \<Rightarrow> (psbt, sign_error) res \<times> 'w \<times> spend_session" where
  "sign_ab pr signer_a signer_b w p descriptor policy spend =
     (case session_authorize pr spend p descriptor policy of
        (Err e, spend) \<Rightarrow> (Err e, w, spend)
      | (Panic, spend) \<Rightarrow> (Panic, w, spend)
      | (Ok approval, spend) \<Rightarrow>
          let unsigned_txid = compute_txid pr (ps_unsigned_tx p)
          in (case sign_a pr signer_a w p descriptor policy of
                (Err e, w) \<Rightarrow> (Err e, w, spend)
              | (Panic, w) \<Rightarrow> (Panic, w, spend)
              | (Ok after_a, w) \<Rightarrow>
                  (case sign_b pr signer_b w after_a unsigned_txid descriptor policy of
                     (Err e, w) \<Rightarrow> (Err e, w, spend)
                   | (Panic, w) \<Rightarrow> (Panic, w, spend)
                   | (Ok signed_p, w) \<Rightarrow> (Ok signed_p, w, session_commit spend approval))))"

subsection \<open>What signing establishes\<close>

text \<open>The maps of a PSBT are \<open>BTreeMap\<close>s.\<close>

definition psbt_maps_wf :: "psbt \<Rightarrow> bool" where
  "psbt_maps_wf p \<longleftrightarrow> list_all (\<lambda>inp. btree_wf (in_partial_sigs inp)) (ps_inputs p)"

definition add_signature :: "psbt_input \<Rightarrow> public_key \<times> signature \<Rightarrow> psbt_input" where
  "add_signature inp e = inp\<lparr>in_partial_sigs := btree_insert (fst e) (snd e) (in_partial_sigs inp),
     in_sighash_type := Some 1\<rparr>"

definition same_skeleton :: "psbt \<Rightarrow> psbt \<Rightarrow> bool" where
  "same_skeleton p q \<longleftrightarrow> length (ps_inputs q) = length (ps_inputs p)
     \<and> q = p\<lparr>ps_inputs := ps_inputs q\<rparr>
     \<and> (\<forall>i < length (ps_inputs p). \<exists>sigs sht.
          ps_inputs q ! i = (ps_inputs p ! i)\<lparr>in_partial_sigs := sigs, in_sighash_type := sht\<rparr>)"

definition input_signed_by :: "prims \<Rightarrow> transaction \<Rightarrow> fingerprint \<Rightarrow> nat \<Rightarrow> psbt_input \<Rightarrow> bool" where
  "input_signed_by pr tx fp i inp \<longleftrightarrow> (\<exists>pk sg msg. pubkey_for_fingerprint inp fp = Some pk
     \<and> btree_get (in_partial_sigs inp) (public_key_new pk) = Some sg \<and> sig_sighash_type sg = SighashAll
     \<and> sighash_message pr tx i inp = Ok msg \<and> verify_ecdsa pr msg (sig_signature sg) pk)"

definition signed_by :: "prims \<Rightarrow> fingerprint \<Rightarrow> psbt \<Rightarrow> bool" where
  "signed_by pr fp p \<longleftrightarrow>
     (\<forall>i < length (ps_inputs p). input_signed_by pr (ps_unsigned_tx p) fp i (ps_inputs p ! i))"

text \<open>The part of a PSBT that signing leaves alone.\<close>

definition unsigned_view :: "psbt \<Rightarrow> psbt" where
  "unsigned_view p = p\<lparr>ps_inputs :=
     map (\<lambda>inp. inp\<lparr>in_partial_sigs := [], in_sighash_type := None\<rparr>) (ps_inputs p)\<rparr>"

text \<open>
  Two device signers for the sample payment, sealed under the plain cipher. The stand-in for key
  derivation gives each master key the public key that the sample payment lists for it.
\<close>

definition sample_signing_prims :: key_prims where
  "sample_signing_prims = sample_key_prims
     \<lparr>xpriv_fingerprint := (\<lambda>x. let b = hd (xp_private_key x) in Fingerprint b b b b),
      xpriv_derive_priv := (\<lambda>x path. let b = hd (xp_private_key x)
        in map_option (\<lambda>pk. x\<lparr>xp_private_key := tl pk\<rparr>)
             (pubkey_for_fingerprint (hd (ps_inputs sample_psbt)) (Fingerprint b b b b)))\<rparr>"

definition sample_signer :: "key_slot \<Rightarrow> u8 \<Rightarrow> local_signer" where
  "sample_signer slot b = \<lparr>ls_slot = slot, ls_fingerprint = Fingerprint b b b b, ls_wrapped_kek = replicate 32 0,
     ls_blob = (case blob_encrypt plain_aead (Some (replicate 24 0)) (replicate 32 0) slot Words12 0
        (replicate 16 b) 0 of Ok blob \<Rightarrow> blob | _ \<Rightarrow> [])\<rparr>"

abbreviation sample_device :: "key_slot \<Rightarrow> u8 \<Rightarrow> fake_store signer" where
  "sample_device slot b \<equiv>
     local_as_signer plain_aead sample_prims sample_signing_prims fake_platform (sample_signer slot b)"

definition sample_session :: spend_session where
  "sample_session = \<lparr>ss_counter = sample_counter, ss_policy = sample_spend_policy, ss_balance = sample_balance,
     ss_observation = sample_observation\<rparr>"

section \<open>Lemmas\<close>

subsection \<open>Signing the inputs\<close>

lemma insert_signature_Ok:
  "insert_signature p (i, e) = Ok q \<longleftrightarrow>
     i < length (ps_inputs p) \<and> q = p\<lparr>ps_inputs := (ps_inputs p)[i := add_signature (ps_inputs p ! i) e]\<rparr>"
  by (auto simp: insert_signature_def index_res_def add_signature_def res_simps split: prod.splits)

lemma insert_loop:
  assumes "for_in (\<lambda>_ e p. insert_signature p e) n es p = Ok q"
    and "map fst es = [k..<k + length es]"
  shows "q = p\<lparr>ps_inputs := ps_inputs q\<rparr> \<and> length (ps_inputs q) = length (ps_inputs p)
    \<and> (\<forall>j < length (ps_inputs p). ps_inputs q ! j =
         (if k \<le> j \<and> j < k + length es then add_signature (ps_inputs p ! j) (snd (es ! (j - k)))
          else ps_inputs p ! j))"
  using assms
proof (induction es arbitrary: n p k)
  case (Cons e es)
  have "[k..<k + length (e # es)] = k # [Suc k..<Suc k + length es]"
    by (subst upt_conv_Cons) simp_all
  with Cons.prems(2) have e: "fst e = k" and idx: "map fst es = [Suc k..<Suc k + length es]" by simp_all
  obtain x where e: "e = (k, x)" using e by (cases e) simp
  let ?p = "p\<lparr>ps_inputs := (ps_inputs p)[k := add_signature (ps_inputs p ! k) x]\<rparr>"
  have k: "k < length (ps_inputs p)" and rest: "for_in (\<lambda>_ e p. insert_signature p e) (Suc n) es ?p = Ok q"
    using Cons.prems(1) unfolding e by (auto simp: res_simps insert_signature_Ok)
  note IH = Cons.IH [OF rest idx]
  show ?case
  proof (intro conjI allI impI)
    show "q = p\<lparr>ps_inputs := ps_inputs q\<rparr>" using IH by (metis psbt.update_convs(2) psbt.surjective psbt.select_convs)
  qed (use IH k e in \<open>auto simp: nth_list_update nth_Cons' Suc_diff_le not_less\<close>)
qed auto

lemma sign_one_Ok:
  "sign_one pr p (i, pk, sk) = Ok e \<longleftrightarrow>
     i < length (ps_inputs p) \<and> (\<exists>msg. sighash_message pr (ps_unsigned_tx p) i (ps_inputs p ! i) = Ok msg
       \<and> normalize_s pr (sign_ecdsa_low_r pr msg sk) = sign_ecdsa_low_r pr msg sk
       \<and> verify_ecdsa pr msg (sign_ecdsa_low_r pr msg sk) pk
       \<and> e = (i, public_key_new pk, \<lparr>sig_signature = sign_ecdsa_low_r pr msg sk, sig_sighash_type = SighashAll\<rparr>))"
  by (auto simp: sign_one_def index_res_def res_simps Let_def reject_high_s_def verify_own_signature_def
      split: if_splits)

lemma derive_secrets_Ok:
  "derive_secrets kp m fp k inps acc = (Ok (), ds) \<Longrightarrow>
     \<exists>new. ds = acc @ new \<and> length new = length inps
       \<and> (\<forall>j < length inps. \<exists>pk sk. new ! j = (k + j, pk, sk) \<and> pubkey_for_fingerprint (inps ! j) fp = Some pk)"
proof (induction inps arbitrary: k acc)
  case (Cons inp inps)
  from Cons.prems obtain pk f path sk where
    find: "List.find (\<lambda>(_, (f, _)). f = fp) (in_bip32_derivation inp) = Some (pk, f, path)"
    and rest: "derive_secrets kp m fp (Suc k) inps (acc @ [(k, pk, sk)]) = (Ok (), ds)"
    by (auto split: option.splits prod.splits res.splits if_splits)
  from Cons.IH [OF rest] obtain new where new: "ds = (acc @ [(k, pk, sk)]) @ new" "length new = length inps"
    and nth: "\<forall>j < length inps. \<exists>pk sk. new ! j = (Suc k + j, pk, sk) \<and> pubkey_for_fingerprint (inps ! j) fp = Some pk"
    by blast
  have "\<exists>pk' sk'. ((k, pk, sk) # new) ! j = (k + j, pk', sk')
      \<and> pubkey_for_fingerprint ((inp # inps) ! j) fp = Some pk'" if "j < length (inp # inps)" for j
  proof (cases j)
    case 0
    then show ?thesis using find by (simp add: pubkey_for_fingerprint_def)
  next
    case (Suc j')
    then show ?thesis using nth that by fastforce
  qed
  then show ?case using new by (intro exI [of _ "(k, pk, sk) # new"]) simp
qed simp

lemma sign_with_master_Ok:
  assumes "fst (sign_with_master pr kp p master fp) = Ok q"
  shows "length (ps_inputs q) = length (ps_inputs p) \<and> q = p\<lparr>ps_inputs := ps_inputs q\<rparr>
    \<and> (\<forall>j < length (ps_inputs p). \<exists>pk sg msg. pubkey_for_fingerprint (ps_inputs p ! j) fp = Some pk
         \<and> sighash_message pr (ps_unsigned_tx p) j (ps_inputs p ! j) = Ok msg
         \<and> verify_ecdsa pr msg sg pk \<and> normalize_s pr sg = sg
         \<and> ps_inputs q ! j = add_signature (ps_inputs p ! j)
              (public_key_new pk, \<lparr>sig_signature = sg, sig_sighash_type = SighashAll\<rparr>))"
proof -
  obtain ds where ds: "derive_secrets kp master fp 0 (ps_inputs p) [] = (Ok (), ds)"
    and signed: "sign_inputs_inner pr p ds = Ok q"
    using assms by (auto simp: sign_with_master_def Let_def sign_inputs_def split: prod.splits res.splits)
  from derive_secrets_Ok [OF ds] have len: "length ds = length (ps_inputs p)"
    and nth: "\<forall>j < length (ps_inputs p). \<exists>pk sk. ds ! j = (j, pk, sk) \<and> pubkey_for_fingerprint (ps_inputs p ! j) fp = Some pk"
    by auto
  obtain es where loop: "for_in (\<lambda>_ e p. insert_signature p e) 0 es p = Ok q" and es: "length es = length ds"
      "\<forall>j < length ds. sign_one pr p (ds ! j) = Ok (es ! j)"
    using signed by (auto simp: sign_inputs_inner_def res_simps for_in_collect)
  have one: "\<exists>pk sg msg. pubkey_for_fingerprint (ps_inputs p ! j) fp = Some pk
      \<and> sighash_message pr (ps_unsigned_tx p) j (ps_inputs p ! j) = Ok msg \<and> verify_ecdsa pr msg sg pk
      \<and> normalize_s pr sg = sg
      \<and> es ! j = (j, public_key_new pk, \<lparr>sig_signature = sg, sig_sighash_type = SighashAll\<rparr>)"
    if "j < length (ps_inputs p)" for j
    using nth es(2) that len by (fastforce simp: sign_one_Ok)
  have "map fst es = [0..<0 + length es]"
    using one es(1) len by (intro nth_equalityI) fastforce+
  note ins = insert_loop [OF loop this]
  show ?thesis
  proof (intro conjI allI impI)
    fix j assume j: "j < length (ps_inputs p)"
    then have "ps_inputs q ! j = add_signature (ps_inputs p ! j) (snd (es ! j))"
      using ins es(1) len by simp
    then show "\<exists>pk sg msg. pubkey_for_fingerprint (ps_inputs p ! j) fp = Some pk
         \<and> sighash_message pr (ps_unsigned_tx p) j (ps_inputs p ! j) = Ok msg
         \<and> verify_ecdsa pr msg sg pk \<and> normalize_s pr sg = sg
         \<and> ps_inputs q ! j = add_signature (ps_inputs p ! j)
              (public_key_new pk, \<lparr>sig_signature = sg, sig_sighash_type = SighashAll\<rparr>)"
      using one [OF j] by fastforce
  qed (use ins in auto)
qed

lemma fst_sign_and_wipe: "fst (sign_and_wipe pr kp p master fp) = fst (sign_with_master pr kp p master fp)"
  by (simp add: sign_and_wipe_def split: prod.splits)

lemma local_sign_Ok:
  assumes "local_sign A pr kp plat ls st p = (Ok q, st')"
  shows "\<exists>master. unlock_master A kp plat ls st = (Ok master, st')
    \<and> fst (sign_with_master pr kp p master (ls_fingerprint ls)) = Ok q
    \<and> preflight_inputs p (ls_fingerprint ls) = Ok ()"
  using assms by (auto simp: local_sign_def fst_sign_and_wipe res_simps split: res.splits prod.splits)

subsection \<open>Signatures in a PSBT\<close>

lemma add_signature_keeps [simp]:
  "in_witness_utxo (add_signature inp e) = in_witness_utxo inp"
  "in_witness_script (add_signature inp e) = in_witness_script inp"
  "in_bip32_derivation (add_signature inp e) = in_bip32_derivation inp"
  "pubkey_for_fingerprint (add_signature inp e) fp = pubkey_for_fingerprint inp fp"
  "sighash_message pr tx i (add_signature inp e) = sighash_message pr tx i inp"
  by (simp_all add: add_signature_def pubkey_for_fingerprint_def sighash_message_def)

lemma add_signature_sigs: "in_partial_sigs (add_signature inp e) = btree_insert (fst e) (snd e) (in_partial_sigs inp)"
  by (simp add: add_signature_def)

lemma input_signed_by_add:
  assumes wf: "btree_wf (in_partial_sigs inp)" and old: "input_signed_by pr tx fp i inp"
    and new: "sig_sighash_type sg = SighashAll" "sighash_message pr tx i inp = Ok msg"
      "verify_ecdsa pr msg (sig_signature sg) pk"
  shows "input_signed_by pr tx fp i (add_signature inp (public_key_new pk, sg))"
proof -
  obtain pk' sg' where o': "pubkey_for_fingerprint inp fp = Some pk'"
      "btree_get (in_partial_sigs inp) (public_key_new pk') = Some sg'" "sig_sighash_type sg' = SighashAll"
      "verify_ecdsa pr msg (sig_signature sg') pk'"
    using old new(2) by (auto simp: input_signed_by_def)
  show ?thesis
  proof (cases "pk' = pk")
    case True
    then show ?thesis
      using o' new by (simp add: input_signed_by_def add_signature_sigs bt.get_insert_same [OF wf])
  next
    case False
    then have "public_key_new pk' \<noteq> public_key_new pk" by (simp add: public_key_new_def)
    then show ?thesis
      using o' new by (auto simp: input_signed_by_def add_signature_sigs bt.get_insert_other [OF wf])
  qed
qed

lemma local_sign_effect:
  assumes "local_sign A pr kp plat ls st p = (Ok q, st')" and "psbt_maps_wf p"
  shows "psbt_maps_wf q \<and> same_skeleton p q \<and> signed_by pr (ls_fingerprint ls) q
    \<and> (\<forall>fp. signed_by pr fp p \<longrightarrow> signed_by pr fp q)"
proof -
  obtain master where "fst (sign_with_master pr kp p master (ls_fingerprint ls)) = Ok q"
    using local_sign_Ok [OF assms(1)] by blast
  note s = sign_with_master_Ok [OF this]
  then have len: "length (ps_inputs q) = length (ps_inputs p)" and q: "q = p\<lparr>ps_inputs := ps_inputs q\<rparr>" by blast+
  have tx: "ps_unsigned_tx q = ps_unsigned_tx p" by (subst q) simp
  have wf: "btree_wf (in_partial_sigs (ps_inputs p ! j))" if "j < length (ps_inputs p)" for j
    using assms(2) that by (simp add: psbt_maps_wf_def list_all_length)
  have wfq: "psbt_maps_wf q"
    unfolding psbt_maps_wf_def list_all_length
    using s wf len by (metis add_signature_sigs bt.wf_insert)
  have ours: "signed_by pr (ls_fingerprint ls) q"
    unfolding signed_by_def
  proof (intro allI impI)
    fix j assume "j < length (ps_inputs q)"
    then have j: "j < length (ps_inputs p)" by (simp add: len)
    from s j obtain pk sg msg where r: "pubkey_for_fingerprint (ps_inputs p ! j) (ls_fingerprint ls) = Some pk"
        "sighash_message pr (ps_unsigned_tx p) j (ps_inputs p ! j) = Ok msg" "verify_ecdsa pr msg sg pk"
        "ps_inputs q ! j = add_signature (ps_inputs p ! j)
          (public_key_new pk, \<lparr>sig_signature = sg, sig_sighash_type = SighashAll\<rparr>)"
      by blast
    then show "input_signed_by pr (ps_unsigned_tx q) (ls_fingerprint ls) j (ps_inputs q ! j)"
      using bt.get_insert_same [OF wf [OF j]] by (simp add: input_signed_by_def tx add_signature_sigs)
  qed
  have others: "signed_by pr fp q" if "signed_by pr fp p" for fp
    unfolding signed_by_def
  proof (intro allI impI)
    fix j assume "j < length (ps_inputs q)"
    then have j: "j < length (ps_inputs p)" by (simp add: len)
    from s j obtain pk sg msg where r:
        "sighash_message pr (ps_unsigned_tx p) j (ps_inputs p ! j) = Ok msg" "verify_ecdsa pr msg sg pk"
        "ps_inputs q ! j = add_signature (ps_inputs p ! j)
          (public_key_new pk, \<lparr>sig_signature = sg, sig_sighash_type = SighashAll\<rparr>)"
      by blast
    have "input_signed_by pr (ps_unsigned_tx p) fp j (ps_inputs p ! j)" using that j by (simp add: signed_by_def)
    from input_signed_by_add [OF wf [OF j] this _ r(1)] r(2,3)
    show "input_signed_by pr (ps_unsigned_tx q) fp j (ps_inputs q ! j)" by (simp add: tx)
  qed
  have "same_skeleton p q"
    unfolding same_skeleton_def using len q s by (metis add_signature_def)
  then show ?thesis using wfq ours others by blast
qed

lemma same_skeleton_tx: "same_skeleton p q \<Longrightarrow> ps_unsigned_tx q = ps_unsigned_tx p"
  unfolding same_skeleton_def by (metis psbt.ext_inject psbt.surjective psbt.update_convs(2))

lemma same_skeleton_trans: "same_skeleton p q \<Longrightarrow> same_skeleton q r \<Longrightarrow> same_skeleton p r"
proof -
  assume a: "same_skeleton p q" and b: "same_skeleton q r"
  have "r = p\<lparr>ps_inputs := ps_inputs r\<rparr>"
    using a b unfolding same_skeleton_def by (metis psbt.surjective psbt.update_convs(2))
  moreover have "\<exists>sigs sht. ps_inputs r ! i = (ps_inputs p ! i)\<lparr>in_partial_sigs := sigs, in_sighash_type := sht\<rparr>"
    if i: "i < length (ps_inputs p)" for i
  proof -
    obtain s1 t1 where 1: "ps_inputs q ! i = (ps_inputs p ! i)\<lparr>in_partial_sigs := s1, in_sighash_type := t1\<rparr>"
      using a i unfolding same_skeleton_def by blast
    obtain s2 t2 where 2: "ps_inputs r ! i = (ps_inputs q ! i)\<lparr>in_partial_sigs := s2, in_sighash_type := t2\<rparr>"
      using a b i unfolding same_skeleton_def by metis
    show ?thesis unfolding 2 1 by (intro exI [of _ s2] exI [of _ t2]) simp
  qed
  ultimately show ?thesis using a b by (simp add: same_skeleton_def)
qed

lemma check_key_a_Ok:
  assumes "check_key_a_signatures pr p d = Ok u"
  shows "\<exists>parsed. parse pr d = Ok parsed \<and> pd_keys parsed \<noteq> []
    \<and> signed_by pr (ke_fingerprint (pd_keys parsed ! 0)) p"
proof -
  obtain parsed where parsed: "parse pr d = Ok parsed" "pd_keys parsed \<noteq> []"
    and loop: "\<forall>j < length (ps_inputs p). \<exists>pk.
      pubkey_for_fingerprint (ps_inputs p ! j) (ke_fingerprint (pd_keys parsed ! 0)) = Some pk
      \<and> (\<exists>sg. sig_sighash_type sg = SighashAll
           \<and> btree_get (in_partial_sigs (ps_inputs p ! j)) (public_key_new pk) = Some sg
           \<and> (\<exists>msg. sighash_message pr (ps_unsigned_tx p) j (ps_inputs p ! j) = Ok msg
                \<and> verify_own_signature pr msg (sig_signature sg) pk = Ok ()))"
    using assms by (auto simp: check_key_a_signatures_def res_simps index_res_def for_check_Ok split: if_splits)
  have "verify_own_signature pr msg sg pk = Ok () \<longleftrightarrow> verify_ecdsa pr msg sg pk" for msg sg pk
    by (simp add: verify_own_signature_def)
  then have "signed_by pr (ke_fingerprint (pd_keys parsed ! 0)) p"
    using loop unfolding signed_by_def input_signed_by_def by metis
  then show ?thesis using parsed by blast
qed

subsection \<open>The signer contract\<close>

locale careful_signer =
  fixes pr :: prims and sg :: "'w signer"
  assumes sign_adds: "sg_sign sg w p = (Ok q, w') \<Longrightarrow> psbt_maps_wf p \<Longrightarrow>
      psbt_maps_wf q \<and> same_skeleton p q \<and> signed_by pr (sg_fingerprint sg) q
      \<and> (\<forall>fp. signed_by pr fp p \<longrightarrow> signed_by pr fp q)"
begin

lemma sign_a_adds:
  assumes "sign_a pr sg w p d vp = (Ok q, w')" and "psbt_maps_wf p"
  shows "psbt_maps_wf q \<and> same_skeleton p q \<and> signed_by pr (sg_fingerprint sg) q"
  using assms sign_adds by (auto simp: sign_a_def split: res.splits)

lemma sign_b_adds:
  assumes "sign_b pr sg w p txid d vp = (Ok q, w')" and "psbt_maps_wf p"
  shows "same_skeleton p q \<and> signed_by pr (sg_fingerprint sg) q
    \<and> (\<exists>parsed. parse pr d = Ok parsed \<and> pd_keys parsed \<noteq> [] \<and> signed_by pr (ke_fingerprint (pd_keys parsed ! 0)) q)"
proof -
  have c: "check_key_a_signatures pr p d = Ok ()" and s: "sg_sign sg w p = (Ok q, w')"
    using assms(1) by (auto simp: sign_b_def split: res.splits if_splits)
  show ?thesis using sign_adds [OF s assms(2)] check_key_a_Ok [OF c] by blast
qed

end

interpretation local_cs: careful_signer pr "local_as_signer A pr kp plat ls" for A pr kp plat ls
  by unfold_locales (simp add: local_as_signer_def local_sign_effect)

subsection \<open>A, then B\<close>

lemma sign_ab_Ok:
  assumes "sign_ab pr sa sb w p d vp ss = (Ok q, w', ss')"
  obtains ap c after_a w1 v v' where
    "authorize pr (ss_counter ss) (ss_policy ss) p d vp (ss_balance ss) (ss_observation ss) = (Ok ap, c)"
    and "verify pr p d vp = Ok v" and "sg_sign sa w p = (Ok after_a, w1)"
    and "sign_a pr sa w p d vp = (Ok after_a, w1)"
    and "sign_b pr sb w1 after_a (compute_txid pr (ps_unsigned_tx p)) d vp = (Ok q, w')"
    and "verify pr after_a d vp = Ok v'"
    and "compute_txid pr (ps_unsigned_tx after_a) = compute_txid pr (ps_unsigned_tx p)"
    and "check_key_a_signatures pr after_a d = Ok ()"
    and "sg_sign sb w1 after_a = (Ok q, w')" and "ss' = ss\<lparr>ss_counter := commit c ap\<rparr>"
proof -
  from assms obtain ap c after_a w1 where
    auth: "authorize pr (ss_counter ss) (ss_policy ss) p d vp (ss_balance ss) (ss_observation ss) = (Ok ap, c)"
    and a: "sign_a pr sa w p d vp = (Ok after_a, w1)"
    and b: "sign_b pr sb w1 after_a (compute_txid pr (ps_unsigned_tx p)) d vp = (Ok q, w')"
    and ss': "ss' = ss\<lparr>ss_counter := commit c ap\<rparr>"
    by (auto simp: sign_ab_def session_authorize_def session_commit_def Let_def split: prod.splits res.splits)
  obtain v where "verify pr p d vp = Ok v" "sg_sign sa w p = (Ok after_a, w1)"
    using a by (auto simp: sign_a_def split: res.splits)
  moreover obtain v' where "verify pr after_a d vp = Ok v'"
      "compute_txid pr (ps_unsigned_tx after_a) = compute_txid pr (ps_unsigned_tx p)"
      "check_key_a_signatures pr after_a d = Ok ()" "sg_sign sb w1 after_a = (Ok q, w')"
    using b by (auto simp: sign_b_def split: res.splits if_splits)
  ultimately show thesis using that auth a b ss' by blast
qed

lemma sign_ab_not_committed:
  assumes "sign_ab pr sa sb w p d vp ss = (r, w', ss')" and "\<not> (\<exists>q. r = Ok q)"
  shows "\<exists>r'. authorize pr (ss_counter ss) (ss_policy ss) p d vp (ss_balance ss) (ss_observation ss) = (r', ss_counter ss')
    \<and> ss' = ss\<lparr>ss_counter := ss_counter ss'\<rparr>"
  using assms
  by (auto simp: sign_ab_def session_authorize_def Let_def split: prod.splits res.splits)

lemma matches_descriptor_not_Panic:
  assumes "length (pd_keys d) = 3"
  shows "matches_descriptor pr spk d gap \<noteq> Panic"
proof -
  have "matches_descriptor_from pr spk d is \<noteq> Panic" for "is"
    by (induction "is") (auto simp: res_bind_eq_Panic res_map_err_eq_Panic derive_at_not_Panic [OF assms])
  then show ?thesis by (simp add: matches_descriptor_def)
qed

lemma charge_outputs_not_Panic:
  assumes "length (pd_keys r) = 3" and "\<forall>c. chg = Some c \<longrightarrow> length (pd_keys c) = 3"
  shows "for_in (\<lambda>_ txout (sum_out, foreign). let v = to_value txout
       in res_bind (ok_or (checked_add sum_out v) SE_UnbalancedPsbt) (\<lambda>sum_out.
          res_bind (belongs_to_wallet pr (to_script_pubkey txout) r chg gap) (\<lambda>own.
          Ok (sum_out, if \<not> own then sat_add foreign v else foreign)))) k xs z \<noteq> Panic"
proof -
  have "belongs_to_wallet pr spk r chg gap \<noteq> Panic" for spk
    using assms matches_descriptor_not_Panic
    by (auto simp: belongs_to_wallet_def res_bind_eq_Panic split: option.splits)
  then show ?thesis by (intro for_in_not_Panic) (auto simp: res_bind_eq_Panic Let_def)
qed

lemma charge_inputs_not_Panic:
  "for_in (\<lambda>i inp sum_in. res_bind (ok_or (in_witness_utxo inp) (SE_MissingWitnessUtxo i)) (\<lambda>utxo.
       ok_or (checked_add sum_in (to_value utxo)) SE_UnbalancedPsbt)) k xs z \<noteq> Panic"
  by (rule for_in_not_Panic) (auto simp: res_bind_eq_Panic)

lemma spend_charge_not_Panic: "spend_charge pr p d vp \<noteq> Panic"
proof
  assume panic: "spend_charge pr p d vp = Panic"
  let ?chg = "case vp_change_descriptor vp of
      Some s \<Rightarrow> res_bind (res_map_err (\<lambda>e. SE_Verify (VE_Descriptor e)) (parse pr s)) (\<lambda>d. Ok (Some d))
    | None \<Rightarrow> Ok None"
  have "?chg \<noteq> Panic" by (simp add: res_bind_eq_Panic res_map_err_eq_Panic parse_not_Panic split: option.splits)
  then obtain r chg where r: "parse pr d = Ok r" and chg: "?chg = Ok chg"
    using panic
    by (cases "parse pr d"; cases ?chg) (auto simp: spend_charge_def parse_not_Panic)
  have len: "length (pd_keys r) = 3" "\<forall>c. chg = Some c \<longrightarrow> length (pd_keys c) = 3"
    using r chg by (auto simp: parse_length res_simps split: option.splits)
  show False
    using panic r chg
    by (simp add: spend_charge_def res_bind_eq_Panic charge_inputs_not_Panic charge_outputs_not_Panic [OF len]
        del: for_in.simps)
qed

lemma authorize_not_Panic: "fst (authorize pr c policy p d vp bal ob) \<noteq> Panic"
proof -
  have "policy_validate policy \<noteq> Panic" by (auto simp: policy_validate_def Let_def split: option.splits)
  then show ?thesis
    by (auto simp: authorize_def authorize_state_def Let_def res_bind_eq_Panic spend_charge_not_Panic
        input_set_def split: prod.splits res.splits)
qed

subsection \<open>Verification and signatures\<close>

lemma unsigned_view_fields:
  "ps_unsigned_tx (unsigned_view p) = ps_unsigned_tx p" "ps_outputs (unsigned_view p) = ps_outputs p"
  "ps_proprietary (unsigned_view p) = ps_proprietary p"
  "ps_inputs (unsigned_view p) =
     map (\<lambda>inp. inp\<lparr>in_partial_sigs := [], in_sighash_type := None\<rparr>) (ps_inputs p)"
  by (simp_all add: unsigned_view_def)

lemma unsigned_view_same: "same_skeleton p q \<Longrightarrow> unsigned_view q = unsigned_view p"
proof -
  assume s: "same_skeleton p q"
  then have "q = p\<lparr>ps_inputs := ps_inputs q\<rparr>" by (simp add: same_skeleton_def)
  then obtain ins where q: "q = p\<lparr>ps_inputs := ins\<rparr>" by blast
  have "map (\<lambda>inp. inp\<lparr>in_partial_sigs := [], in_sighash_type := None\<rparr>) (ps_inputs q)
      = map (\<lambda>inp. inp\<lparr>in_partial_sigs := [], in_sighash_type := None\<rparr>) (ps_inputs p)"
    using s by (intro nth_equalityI) (auto simp: same_skeleton_def)
  then show ?thesis by (simp add: unsigned_view_def q)
qed

lemma checks_unsigned:
  "check_v8 (unsigned_view p) = check_v8 p" "check_v9 (unsigned_view p) = check_v9 p"
  "check_v7 (unsigned_view p) vp = check_v7 p vp"
  "check_v2 pr (unsigned_view p) r c vp = check_v2 pr p r c vp"
  "classify_outputs pr (unsigned_view p) c vp = classify_outputs pr p c vp"
  "check_v5 pr (unsigned_view p) vp = check_v5 pr p vp"
  by (simp_all add: check_v8_def check_v9_def check_v7_def check_v2_def classify_outputs_def classify_output_def
      check_v5_def unsigned_view_fields for_in_map zip_map2 case_prod_unfold Let_def
      cong: if_cong option.case_cong)

lemma verify_unsigned:
  assumes "unsigned_view q = unsigned_view p" and "check_v10 pr q = check_v10 pr p"
  shows "verify pr q d vp = verify pr p d vp"
  unfolding verify_def
  using checks_unsigned [where p = p] checks_unsigned [where p = q] assms by simp

lemma local_sign_low_s:
  assumes "local_sign A pr kp plat ls st p = (Ok q, st')" and "check_v10 pr p = Ok ()"
  shows "check_v10 pr q = Ok ()"
proof -
  obtain master where "fst (sign_with_master pr kp p master (ls_fingerprint ls)) = Ok q"
    using local_sign_Ok [OF assms(1)] by blast
  note s = sign_with_master_Ok [OF this]
  let ?ok = "\<lambda>(k :: public_key, sg). sig_sighash_type sg = SighashAll
      \<and> normalize_s pr (sig_signature sg) = sig_signature sg"
  have "(in_sighash_type (ps_inputs q ! j) = None \<or> in_sighash_type (ps_inputs q ! j) = Some 1)
      \<and> list_all ?ok (in_partial_sigs (ps_inputs q ! j))" if j: "j < length (ps_inputs q)" for j
  proof -
    from s j obtain pk sg where sg: "normalize_s pr sg = sg" "ps_inputs q ! j = add_signature (ps_inputs p ! j)
        (public_key_new pk, \<lparr>sig_signature = sg, sig_sighash_type = SighashAll\<rparr>)"
      by metis
    have old: "list_all ?ok (in_partial_sigs (ps_inputs p ! j))"
      using assms(2) j s by (auto simp: check_v10_Ok list_all_length)
    have "in_sighash_type (ps_inputs q ! j) = Some 1" by (simp add: sg(2) add_signature_def)
    then show ?thesis
      using old sg(1) entries_btree_insert [of "public_key_new pk" "\<lparr>sig_signature = sg, sig_sighash_type = SighashAll\<rparr>"
          "in_partial_sigs (ps_inputs p ! j)"]
      unfolding sg(2) add_signature_sigs list_all_iff by fastforce
  qed
  then show ?thesis by (simp add: check_v10_Ok list_all_length)
qed

lemma verify_Ok_v10: "verify pr p d vp = Ok v \<Longrightarrow> check_v10 pr p = Ok ()"
  by (auto simp: verify_def res_simps)

lemma verify_after_local_sign:
  assumes "local_sign A pr kp plat ls st p = (Ok q, st')" and "psbt_maps_wf p" and "verify pr p d vp = Ok v"
  shows "verify pr q d vp = Ok v"
proof -
  have "same_skeleton p q" using local_sign_effect [OF assms(1,2)] by blast
  moreover have "check_v10 pr q = check_v10 pr p"
    using local_sign_low_s [OF assms(1)] verify_Ok_v10 [OF assms(3)] by simp
  ultimately show ?thesis using verify_unsigned [OF unsigned_view_same] assms(3) by metis
qed

lemma check_key_a_complete:
  assumes "parse pr d = Ok parsed" and "signed_by pr (ke_fingerprint (pd_keys parsed ! 0)) p"
  shows "check_key_a_signatures pr p d = Ok ()"
proof -
  have "pd_keys parsed \<noteq> []" using parse_length [OF assms(1)] by auto
  then show ?thesis
    using assms
    by (auto simp: check_key_a_signatures_def index_res_def for_check_Ok signed_by_def input_signed_by_def
        verify_own_signature_def)
qed


lemma sign_ab_local_completes:
  assumes auth: "authorize pr (ss_counter ss) (ss_policy ss) p d vp (ss_balance ss) (ss_observation ss) = (Ok ap, c)"
    and v: "verify pr p d vp = Ok v" and wf: "psbt_maps_wf p"
    and a: "local_sign A pr kp plat la st p = (Ok pa, st1)" and b: "local_sign A pr kp plat lb st1 pa = (Ok q, st2)"
    and key: "parse pr d = Ok parsed" "ls_fingerprint la = ke_fingerprint (pd_keys parsed ! 0)"
  shows "sign_ab pr (local_as_signer A pr kp plat la) (local_as_signer A pr kp plat lb) st p d vp ss
    = (Ok q, st2, ss\<lparr>ss_counter := commit c ap\<rparr>)"
proof -
  note eff = local_sign_effect [OF a wf]
  have "verify pr pa d vp = Ok v" by (rule verify_after_local_sign [OF a wf v])
  moreover have "check_key_a_signatures pr pa d = Ok ()"
    using eff key by (intro check_key_a_complete [OF key(1)]) simp
  moreover have "ps_unsigned_tx pa = ps_unsigned_tx p" using eff same_skeleton_tx by blast
  ultimately show ?thesis
    using auth v a b
    by (simp add: sign_ab_def session_authorize_def session_commit_def sign_a_def sign_b_def local_as_signer_def)
qed

text \<open>What two device signers return together.\<close>

lemma sign_ab_local_Ok:
  assumes "sign_ab pr (local_as_signer A pr kp plat la) (local_as_signer A pr kp plat lb) w p d vp ss = (Ok q, w', ss')"
    and "psbt_maps_wf p"
  shows "same_skeleton p q \<and> signed_by pr (ls_fingerprint la) q \<and> signed_by pr (ls_fingerprint lb) q
    \<and> (\<exists>v. verify pr q d vp = Ok v)"
proof -
  obtain pa w1 v where a: "local_sign A pr kp plat la w p = (Ok pa, w1)" and b: "local_sign A pr kp plat lb w1 pa = (Ok q, w')"
    and v: "verify pr pa d vp = Ok v"
    using assms(1) by (rule sign_ab_Ok) (simp add: local_as_signer_def)
  note ea = local_sign_effect [OF a assms(2)]
  then have wf: "psbt_maps_wf pa" by blast
  note eb = local_sign_effect [OF b wf]
  show ?thesis using ea eb same_skeleton_trans verify_after_local_sign [OF b wf v] by blast
qed

subsection \<open>Two device signers on the sample payment\<close>

lemma sample_unlock:
  assumes "has_device_blob slot" and "fake_ready s"
  shows "\<exists>s'. unlock_master plain_aead sample_signing_prims fake_platform (sample_signer slot b) s
      = (Ok \<lparr>xp_private_key = replicate 32 b, xp_chain_code = replicate 32 0\<rparr>, s') \<and> fake_ready s'"
proof -
  have "length (replicate 16 b) = unat (wc_entropy_bytes Words12)" "length (replicate 24 (0 :: u8)) = BLOB_NONCE_LEN"
    by (simp_all add: BLOB_NONCE_LEN_def)
  from blob_encrypt_decrypt [OF plain_aead_correct assms(1) this, of "replicate 32 0" 0 0]
  have dec: "blob_decrypt plain_aead (replicate 32 0) (ls_blob (sample_signer slot b)) =
      Ok \<lparr>db_slot = slot, db_word_count = Words12, db_birthday = 0, db_entropy = replicate 16 b, db_created_at = 0\<rparr>"
    by (auto simp: sample_signer_def)
  have "of_char (char_of (unat x)) = x" for x :: u8
    using unat_lt2p [of x] by (simp add: word_unat_eq_iff unat_of_char)
  then have bytes: "as_bytes (map (\<lambda>b. char_of (unat b)) bs) = bs" for bs :: bytes
    by (simp add: as_bytes_def o_def)
  have seed: "seed_from_entropy sample_signing_prims (replicate 16 b) = Ok (replicate 32 b)"
    by (simp add: seed_from_entropy_def bip39_from_entropy_def sample_signing_prims_def sample_key_prims_def bytes
        replicate_add [symmetric] del: map_replicate)
  have "xpriv_new_master sample_signing_prims (replicate 32 b)
      = Some \<lparr>xp_private_key = replicate 32 b, xp_chain_code = replicate 32 0\<rparr>"
    by (simp add: sample_signing_prims_def sample_key_prims_def)
  moreover have "xpriv_fingerprint sample_signing_prims \<lparr>xp_private_key = replicate 32 b, xp_chain_code = replicate 32 0\<rparr>
      = Fingerprint b b b b"
    by (simp add: sample_signing_prims_def Let_def)
  ultimately show ?thesis
    using assms dec seed
    by (simp add: unlock_master_def sample_signer_def fake_platform_def fake_unwrap_kek_def fake_ready_def Let_def
        map_bip32_def)
qed


lemma sample_key_prefix: "derive_child sample_prims k i = Ok c \<Longrightarrow> \<exists>sk. dc_public_key c = 2 # sk"
  by (auto simp: derive_child_def ckd_pub_def tweak_add_parent_def sample_prims_def res_simps Let_def split: if_splits)

lemma sample_map_keys:
  obtains s0 s1 s2 path where "sample_map BranchExternal 5 =
    [(2 # s0, Fingerprint 3 3 3 3, path), (2 # s1, Fingerprint 1 1 1 1, path), (2 # s2, Fingerprint 2 2 2 2, path)]"
proof -
  from sample_children [OF small_index(1), of BranchExternal] obtain k0 k1 k2 path where
    m: "sample_map BranchExternal 5 =
      [(k0, Fingerprint 3 3 3 3, path), (k1, Fingerprint 1 1 1 1, path), (k2, Fingerprint 2 2 2 2, path)]"
    and ks: "map dc_public_key (do_children (sample_out BranchExternal 5)) = [k0, k1, k2]"
    by auto
  have keys: "pd_keys (sample_descriptor BranchExternal) = [sample_key (CHR ''C'') 3 BranchExternal,
      sample_key (CHR ''A'') 1 BranchExternal, sample_key (CHR ''B'') 2 BranchExternal]"
    by (simp add: sample_descriptor_def)
  have "\<forall>k\<in>set (map dc_public_key (do_children (sample_out BranchExternal 5))). \<exists>sk. k = 2 # sk"
    using sample_out [OF small_index(1), of BranchExternal] unfolding derive_at_Ok [OF keys]
    by (auto simp: Let_def dest: sample_key_prefix)
  then obtain s0 s1 s2 where "k0 = 2 # s0" "k1 = 2 # s1" "k2 = 2 # s2" unfolding ks by auto
  with m that show thesis by blast
qed

lemma sample_local_sign:
  assumes slot: "has_device_blob slot" and ready: "fake_ready s" and b: "b \<in> {1, 2, 3}"
    and p: "ps_inputs p = [inp]" "in_bip32_derivation inp = sample_map BranchExternal 5"
      "in_witness_utxo inp = Some u" "in_witness_script inp = Some ws"
    and low: "check_v10 sample_prims p = Ok ()"
  shows "\<exists>q s'. local_sign plain_aead sample_prims sample_signing_prims fake_platform (sample_signer slot b) s p
      = (Ok q, s') \<and> fake_ready s'"
proof -
  obtain s0 s1 s2 path where m: "sample_map BranchExternal 5 =
      [(2 # s0, Fingerprint 3 3 3 3, path), (2 # s1, Fingerprint 1 1 1 1, path), (2 # s2, Fingerprint 2 2 2 2, path)]"
    by (rule sample_map_keys)
  have fp: "ls_fingerprint (sample_signer slot b) = Fingerprint b b b b" by (simp add: sample_signer_def)
  obtain sk where find: "List.find (\<lambda>(_, (f, _)). f = Fingerprint b b b b) (sample_map BranchExternal 5)
      = Some (2 # sk, Fingerprint b b b b, path)"
    using b by (auto simp: m)
  then have mem: "list_ex (\<lambda>(_, (f, _)). f = Fingerprint b b b b) (sample_map BranchExternal 5)"
    using b by (auto simp: m)
  have old: "in_sighash_type inp = None \<or> in_sighash_type inp = Some 1"
      "\<forall>e\<in>set (in_partial_sigs inp). sig_sighash_type (snd e) = SighashAll"
    using low p by (auto simp: check_v10_Ok list_all_iff)
  have "for_check (\<lambda>_ (_ :: public_key, sg). if sig_sighash_type sg \<noteq> SighashAll then Err (SE_NonSighashAll i) else Ok ())
      0 (in_partial_sigs inp) = Ok ()" for i
    unfolding for_check_Ok using old(2) nth_mem by (fastforce simp: case_prod_unfold)
  then have "preflight_inputs p (Fingerprint b b b b) = Ok ()"
    using old(1) p mem by (auto simp: preflight_inputs_def sighash_is_all_def sighash_from_standard_def)
  moreover obtain s' where "unlock_master plain_aead sample_signing_prims fake_platform (sample_signer slot b) s
      = (Ok \<lparr>xp_private_key = replicate 32 b, xp_chain_code = replicate 32 0\<rparr>, s')" "fake_ready s'"
    using sample_unlock [OF slot ready] by blast
  moreover have "derive_child_secret sample_signing_prims
        \<lparr>xp_private_key = replicate 32 b, xp_chain_code = replicate 32 0\<rparr> path = Ok (2 # sk, sk)"
    using find by (simp add: derive_child_secret_def map_bip32_def sample_signing_prims_def sample_key_prims_def
        pubkey_for_fingerprint_def sample_psbt_def Let_def)
  moreover have "\<exists>q. sign_inputs_inner sample_prims p [(0, 2 # sk, sk)] = Ok q"
    using p by (simp add: sign_inputs_inner_def sign_one_def sighash_message_def p2wsh_sighash_def index_res_def
        reject_high_s_def verify_own_signature_def insert_signature_def Let_def sample_prims_def)
  ultimately show ?thesis
    using p find
    by (auto simp: local_sign_def fst_sign_and_wipe fp sign_with_master_def sign_inputs_def)
qed


lemma sample_two_signatures:
  obtains pa q s1 s2 where
    "local_sign plain_aead sample_prims sample_signing_prims fake_platform (sample_signer SlotA 3) fake_new sample_psbt = (Ok pa, s1)"
    and "local_sign plain_aead sample_prims sample_signing_prims fake_platform (sample_signer SlotB 1) s1 pa = (Ok q, s2)"
    and "psbt_maps_wf sample_psbt"
proof -
  let ?sign = "\<lambda>slot b. local_sign plain_aead sample_prims sample_signing_prims fake_platform (sample_signer slot b)"
  let ?inp = "ps_inputs sample_psbt ! 0"
  have one: "ps_inputs sample_psbt = [?inp]" "in_bip32_derivation ?inp = sample_map BranchExternal 5"
      "in_witness_utxo ?inp = Some sample_utxo"
      "in_witness_script ?inp = Some (do_witness_script (sample_out BranchExternal 5))"
    by (simp_all add: sample_psbt_def)
  have wf: "psbt_maps_wf sample_psbt" by (simp add: psbt_maps_wf_def sample_psbt_def btree_wf_def)
  have low: "check_v10 sample_prims sample_psbt = Ok ()" by (rule verify_Ok_v10 [OF sample_verifies])
  have ready: "fake_ready fake_new" by (simp add: fake_ready_def fake_new_def)
  obtain pa s1 where a: "?sign SlotA 3 fake_new sample_psbt = (Ok pa, s1)" "fake_ready s1"
    using sample_local_sign [OF _ ready _ one low, of SlotA 3] by auto
  have len: "length (ps_inputs sample_psbt) = 1" by (simp add: sample_psbt_def)
  have "same_skeleton sample_psbt pa" using local_sign_effect [OF a(1) wf] by blast
  then obtain sigs sht where "length (ps_inputs pa) = 1"
      "ps_inputs pa ! 0 = ?inp\<lparr>in_partial_sigs := sigs, in_sighash_type := sht\<rparr>"
    unfolding same_skeleton_def len by blast
  then have "ps_inputs pa = [?inp\<lparr>in_partial_sigs := sigs, in_sighash_type := sht\<rparr>]"
    by (cases "ps_inputs pa") simp_all
  with one a(2) low local_sign_low_s [OF a(1) low] obtain q s2 where b: "?sign SlotB 1 s1 pa = (Ok q, s2)"
    using sample_local_sign [of SlotB s1 1 pa "?inp\<lparr>in_partial_sigs := sigs, in_sighash_type := sht\<rparr>"
        sample_utxo "do_witness_script (sample_out BranchExternal 5)"] by auto
  show thesis by (rule that [OF a(1) b wf])
qed


lemma sample_sign_ab:
  obtains q st ss' where "sign_ab sample_prims
      (sample_device SlotA 3) (sample_device SlotB 1)
      fake_new sample_psbt (sample_text BranchExternal) sample_policy sample_session = (Ok q, st, ss')"
    and "psbt_maps_wf sample_psbt"
proof -
  obtain pa q s1 s2 where s:
    "local_sign plain_aead sample_prims sample_signing_prims fake_platform (sample_signer SlotA 3) fake_new sample_psbt = (Ok pa, s1)"
    "local_sign plain_aead sample_prims sample_signing_prims fake_platform (sample_signer SlotB 1) s1 pa = (Ok q, s2)"
    and wf: "psbt_maps_wf sample_psbt"
    by (rule sample_two_signatures)
  have "authorize sample_prims (ss_counter sample_session) (ss_policy sample_session) sample_psbt
      (sample_text BranchExternal) sample_policy (ss_balance sample_session) (ss_observation sample_session)
    = (Ok sample_approval, sample_counter\<lparr>wc_state := prune (advance (wc_state sample_counter) sample_observation)
        (sp_window sample_spend_policy)\<rparr>)"
    using sample_authorize by (simp add: sample_session_def)
  from sign_ab_local_completes [OF this sample_verifies wf s sample_parse]
  have "\<exists>q st ss'. sign_ab sample_prims
      (sample_device SlotA 3) (sample_device SlotB 1)
      fake_new sample_psbt (sample_text BranchExternal) sample_policy sample_session = (Ok q, st, ss')"
    by (simp add: sample_signer_def sample_descriptor_def sample_key_def)
  then show thesis using that wf by blast
qed


section \<open>Properties\<close>

text \<open>
  C3: when the A-then-B composition returns a signed payment, the spend window had approved it,
  the verifier accepted it before key A was used and accepted A's result before key B was used,
  A's result has the same transaction id and carries a valid SIGHASH_ALL signature by the first
  key of the descriptor on every input, B signed exactly A's result, and the window has booked
  the approval.
\<close>

theorem sign_ab_guards:
  assumes "sign_ab pr sa sb w p d vp ss = (Ok q, w', ss')"
  shows "\<exists>ap c after_a w1 v v' parsed.
      authorize pr (ss_counter ss) (ss_policy ss) p d vp (ss_balance ss) (ss_observation ss) = (Ok ap, c)
      \<and> verify pr p d vp = Ok v \<and> sg_sign sa w p = (Ok after_a, w1)
      \<and> verify pr after_a d vp = Ok v'
      \<and> compute_txid pr (ps_unsigned_tx after_a) = compute_txid pr (ps_unsigned_tx p)
      \<and> parse pr d = Ok parsed \<and> signed_by pr (ke_fingerprint (pd_keys parsed ! 0)) after_a
      \<and> sg_sign sb w1 after_a = (Ok q, w') \<and> ss' = ss\<lparr>ss_counter := commit c ap\<rparr>"
  using assms by (rule sign_ab_Ok) (use check_key_a_Ok in blast)

theorem sign_ab_guards_witness:
  "\<exists>after_a w1 parsed q st ss'.
     sign_ab sample_prims (sample_device SlotA 3) (sample_device SlotB 1) fake_new sample_psbt
       (sample_text BranchExternal) sample_policy sample_session = (Ok q, st, ss')
     \<and> parse sample_prims (sample_text BranchExternal) = Ok parsed
     \<and> signed_by sample_prims (ke_fingerprint (pd_keys parsed ! 0)) after_a
     \<and> sg_sign (sample_device SlotB 1) w1 after_a = (Ok q, st)"
proof (rule sample_sign_ab)
  fix q st ss'
  assume s: "sign_ab sample_prims (sample_device SlotA 3) (sample_device SlotB 1) fake_new sample_psbt
      (sample_text BranchExternal) sample_policy sample_session = (Ok q, st, ss')"
  from sign_ab_guards [OF s] s show ?thesis by metis
qed

text \<open>
  C6: the composition refines the spend window. On a counter with any history, a run that
  returns a signed payment extends the history by exactly one spend, the charge and the inputs
  of that payment at the window time of the counter; every other run, whatever failed and
  wherever, leaves the history as it is.
\<close>

theorem sign_ab_refines_window:
  assumes "window_run pr A (ss_policy ss) log (ss_counter ss)" and "txids_ok p"
    and "sign_ab pr sa sb w p d vp ss = (r, w', ss')"
  shows "ss_policy ss' = ss_policy ss
    \<and> (case r of
         Ok q \<Rightarrow> \<exists>ch inps. spend_charge pr p d vp = Ok ch \<and> input_set p = Ok inps
           \<and> window_run pr A (ss_policy ss)
               ((window_elapsed (ss_counter ss'), inps, unat ch) # log) (ss_counter ss')
       | _ \<Rightarrow> window_run pr A (ss_policy ss) log (ss_counter ss'))"
proof (cases "\<exists>q. r = Ok q")
  case True
  then obtain q where r: "r = Ok q" by blast
  obtain ap c where auth: "authorize pr (ss_counter ss) (ss_policy ss) p d vp (ss_balance ss) (ss_observation ss) = (Ok ap, c)"
    and ss': "ss' = ss\<lparr>ss_counter := commit c ap\<rparr>"
    using assms(3) unfolding r by (rule sign_ab_Ok)
  have "window_elapsed (commit c ap) = window_elapsed c" by (simp add: window_elapsed_def commit_def)
  moreover have "spend_charge pr p d vp = Ok (sa_charge_sat ap)" "input_set p = Ok (sa_input_set ap)"
    using auth authorize_state_Ok(4,5) by (auto simp: authorize_eq)
  ultimately show ?thesis using spent [OF assms(1,2) auth] by (simp add: r ss' log_entry_def)
next
  case False
  obtain r' where auth: "authorize pr (ss_counter ss) (ss_policy ss) p d vp (ss_balance ss) (ss_observation ss)
      = (r', ss_counter ss')" and ss': "ss' = ss\<lparr>ss_counter := ss_counter ss'\<rparr>"
    using sign_ab_not_committed [OF assms(3) False] by blast
  have "window_run pr A (ss_policy ss) log (ss_counter ss')"
    using auth authorize_not_Panic [of pr "ss_counter ss" "ss_policy ss" p d vp "ss_balance ss" "ss_observation ss"]
      refused [OF assms(1,2)] unsigned [OF assms(1,2)] by (cases r') auto
  moreover have "ss_policy ss' = ss_policy ss" by (subst ss') simp
  ultimately show ?thesis using False by (cases r) auto
qed

theorem sign_ab_refines_window_witness:
  "\<exists>log c. window_run sample_prims plain_aead sample_spend_policy log c \<and> length log = 1"
proof (rule sample_sign_ab)
  fix q st ss'
  assume s: "sign_ab sample_prims
      (sample_device SlotA 3) (sample_device SlotB 1)
      fake_new sample_psbt (sample_text BranchExternal) sample_policy sample_session = (Ok q, st, ss')"
  have "txids_ok sample_psbt" by (simp add: txids_ok_def sample_psbt_def sample_tx_def out_point_wf_def)
  moreover have "window_run sample_prims plain_aead (ss_policy sample_session) [] (ss_counter sample_session)"
    using sample_run_start by (simp add: sample_session_def)
  ultimately show ?thesis
    using sign_ab_refines_window [OF _ _ s, of plain_aead "[]"] by (fastforce simp: sample_session_def)
qed

text \<open>
  C12: a payment that the spend window refuses or the verifier rejects reaches neither key: the
  composition returns no payment, the outside world of the signers (the platform key store) is
  exactly as before, and the counter holds no booking it did not hold before.
\<close>

theorem sign_ab_refused_touches_no_key:
  assumes "(\<forall>ap. fst (authorize pr (ss_counter ss) (ss_policy ss) p d vp (ss_balance ss) (ss_observation ss)) \<noteq> Ok ap)
    \<or> (\<forall>v. verify pr p d vp \<noteq> Ok v)"
  shows "\<exists>r c. sign_ab pr sa sb w p d vp ss = (r, w, ss\<lparr>ss_counter := c\<rparr>) \<and> (\<forall>q. r \<noteq> Ok q)
    \<and> set (cs_bookings (wc_state c)) \<subseteq> set (cs_bookings (wc_state (ss_counter ss)))"
proof -
  obtain r c where auth: "authorize pr (ss_counter ss) (ss_policy ss) p d vp (ss_balance ss) (ss_observation ss) = (r, c)"
    by fastforce
  have keep: "set (cs_bookings (wc_state c)) \<subseteq> set (cs_bookings (wc_state (ss_counter ss)))"
    using auth authorize_state_snd by (fastforce simp: authorize_eq prune_def Let_def split: if_splits)
  have "\<exists>r'. sign_ab pr sa sb w p d vp ss = (r', w, ss\<lparr>ss_counter := c\<rparr>) \<and> (\<forall>q. r' \<noteq> Ok q)"
    using assms auth
    by (cases r; cases "verify pr p d vp") (auto simp: sign_ab_def session_authorize_def sign_a_def)
  then show ?thesis using keep by blast
qed

theorem sign_ab_refused_touches_no_key_witness:
  "\<exists>r c. sign_ab sample_prims
      (sample_device SlotA 3) (sample_device SlotB 1)
      fake_new sample_psbt [] sample_policy sample_session = (r, fake_new, sample_session\<lparr>ss_counter := c\<rparr>)
    \<and> (\<forall>q. r \<noteq> Ok q)"
proof -
  have "parse sample_prims [] \<noteq> Ok d" for d by (auto elim!: parse_keys simp: parse_def verify_checksum_def)
  then have "\<forall>v. verify sample_prims sample_psbt [] sample_policy \<noteq> Ok v"
    by (auto simp: verify_def res_simps)
  then show ?thesis
    using sign_ab_refused_touches_no_key [of sample_prims sample_session sample_psbt "[]" sample_policy
        "sample_device SlotA 3" "sample_device SlotB 1" fake_new] by blast
qed


text \<open>
  C9: with two device signers, a payment that the composition returns differs from the request
  only in signatures, and every input carries a valid SIGHASH_ALL signature of each of the two
  keys over the request's own transaction.
\<close>

theorem sign_ab_two_keys:
  assumes "sign_ab pr (local_as_signer A pr kp plat la) (local_as_signer A pr kp plat lb) w p d vp ss = (Ok q, w', ss')"
    and "psbt_maps_wf p"
  shows "same_skeleton p q \<and> ps_unsigned_tx q = ps_unsigned_tx p
    \<and> signed_by pr (ls_fingerprint la) q \<and> signed_by pr (ls_fingerprint lb) q"
  using sign_ab_local_Ok [OF assms] same_skeleton_tx by blast

theorem sign_ab_two_keys_witness:
  "\<exists>q. same_skeleton sample_psbt q \<and> ps_inputs q \<noteq> []
     \<and> signed_by sample_prims (Fingerprint 3 3 3 3) q \<and> signed_by sample_prims (Fingerprint 1 1 1 1) q"
proof (rule sample_sign_ab)
  fix q st ss'
  assume s: "sign_ab sample_prims (sample_device SlotA 3) (sample_device SlotB 1) fake_new sample_psbt
      (sample_text BranchExternal) sample_policy sample_session = (Ok q, st, ss')" and wf: "psbt_maps_wf sample_psbt"
  note r = sign_ab_two_keys [OF s wf]
  have "length (ps_inputs q) = length (ps_inputs sample_psbt)" using r unfolding same_skeleton_def by blast
  then have "ps_inputs q \<noteq> []" by (auto simp: sample_psbt_def)
  with r show ?thesis by (auto simp: sample_signer_def)
qed

text \<open>
  C14: the guards between the two keys do not block an honest run. If the window approves a
  payment, the verifier accepts it and the two device signers can sign it one after the other,
  the first of them with the descriptor's first key, then the composition returns the signed
  payment and books the approval: A's signatures change nothing the verifier rejects.
\<close>

theorem sign_ab_completes:
  assumes "authorize pr (ss_counter ss) (ss_policy ss) p d vp (ss_balance ss) (ss_observation ss) = (Ok ap, c)"
    and "verify pr p d vp = Ok v" and "psbt_maps_wf p"
    and "local_sign A pr kp plat la st p = (Ok pa, st1)" and "local_sign A pr kp plat lb st1 pa = (Ok q, st2)"
    and "parse pr d = Ok parsed" and "ls_fingerprint la = ke_fingerprint (pd_keys parsed ! 0)"
  shows "sign_ab pr (local_as_signer A pr kp plat la) (local_as_signer A pr kp plat lb) st p d vp ss
    = (Ok q, st2, ss\<lparr>ss_counter := commit c ap\<rparr>)"
  using assms by (rule sign_ab_local_completes)

theorem sign_ab_completes_witness:
  "\<exists>q st ss'. sign_ab sample_prims (sample_device SlotA 3) (sample_device SlotB 1) fake_new sample_psbt
      (sample_text BranchExternal) sample_policy sample_session = (Ok q, st, ss')"
proof -
  obtain pa q s1 s2 where s:
    "local_sign plain_aead sample_prims sample_signing_prims fake_platform (sample_signer SlotA 3) fake_new sample_psbt = (Ok pa, s1)"
    "local_sign plain_aead sample_prims sample_signing_prims fake_platform (sample_signer SlotB 1) s1 pa = (Ok q, s2)"
    and wf: "psbt_maps_wf sample_psbt"
    by (rule sample_two_signatures)
  have auth: "\<exists>c. authorize sample_prims (ss_counter sample_session) (ss_policy sample_session) sample_psbt
      (sample_text BranchExternal) sample_policy (ss_balance sample_session) (ss_observation sample_session)
    = (Ok sample_approval, c)"
    using sample_authorize by (simp add: sample_session_def)
  have "ls_fingerprint (sample_signer SlotA 3) = ke_fingerprint (pd_keys (sample_descriptor BranchExternal) ! 0)"
    by (simp add: sample_signer_def sample_descriptor_def sample_key_def)
  with auth sign_ab_completes [OF _ sample_verifies wf s sample_parse] show ?thesis by blast
qed



end
