(* ===== verification/Finalize.thy ===== *)
theory Finalize
  imports Signer
begin

text \<open>
  \<open>crates/trinity-signer/src/finalize.rs\<close>: the finished transaction of a twice-signed PSBT.
  \<open>Psbt::fee\<close>, the extraction of the transaction and the loop of \<open>Transaction::verify\<close> are
  the vendored ones; the script interpreter is a parameter.

  The lemmas give what a finished transaction is: the request with a witness of two
  signatures in key order on every input, over distinct known outputs, with the script
  interpreter's consent and a fee within the policy.
\<close>

subsection \<open>Fee and consensus check of the vendored crate\<close>

datatype psbt_error = PE_PsbtUtxoOutOfbounds | PE_MissingUtxo | PE_FeeOverflow | PE_NegativeFee

definition funding_utxo :: "tx_in \<Rightarrow> psbt_input \<Rightarrow> (tx_out, psbt_error) res" where
  "funding_utxo txin inp =
     (case (in_witness_utxo inp, in_non_witness_utxo inp) of
        (Some utxo, _) \<Rightarrow> Ok utxo
      | (None, Some tx) \<Rightarrow>
          let vout = unat (op_vout (ti_previous_output txin))
          in if vout < length (tx_output tx) then Ok (tx_output tx ! vout) else Err PE_PsbtUtxoOutOfbounds
      | (None, None) \<Rightarrow> Err PE_MissingUtxo)"

definition psbt_fee :: "psbt \<Rightarrow> (u64, psbt_error) res" where
  "psbt_fee p =
     (if length (ps_inputs p) \<noteq> length (tx_input (ps_unsigned_tx p)) then Panic
      else
        res_bind (for_in (\<lambda>_ (txin, inp) inputs.
            res_bind (funding_utxo txin inp) (\<lambda>utxo. ok_or (checked_add inputs (to_value utxo)) PE_FeeOverflow))
          0 (zip (tx_input (ps_unsigned_tx p)) (ps_inputs p)) 0) (\<lambda>inputs.
        res_bind (for_in (\<lambda>_ out outputs. ok_or (checked_add outputs (to_value out)) PE_FeeOverflow)
          0 (tx_output (ps_unsigned_tx p)) 0) (\<lambda>outputs.
        ok_or (checked_sub inputs outputs) PE_NegativeFee)))"

definition btree_remove :: "'k \<Rightarrow> ('k \<times> 'v) list \<Rightarrow> ('k \<times> 'v) list" where
  "btree_remove k m = filter (\<lambda>(k', _). k' \<noteq> k) m"

text \<open>\<open>spent.remove\<close> hands each output out once.\<close>

primrec verify_inputs ::
    "prims \<Rightarrow> transaction \<Rightarrow> nat \<Rightarrow> tx_in list \<Rightarrow> (out_point \<times> tx_out) list \<Rightarrow> bool" where
  "verify_inputs pr tx i [] spent = True"
| "verify_inputs pr tx i (txin # txins) spent =
     (case btree_get spent (ti_previous_output txin) of
        None \<Rightarrow> False
      | Some out \<Rightarrow>
          verify_script pr (to_script_pubkey out) i (to_value out) tx
          \<and> verify_inputs pr tx (Suc i) txins (btree_remove (ti_previous_output txin) spent))"

definition verify_transaction :: "prims \<Rightarrow> transaction \<Rightarrow> (out_point \<times> tx_out) list \<Rightarrow> bool" where
  "verify_transaction pr tx spent = verify_inputs pr tx 0 (tx_input tx) spent"

subsection \<open>The witness of an input\<close>

definition branch_and_index :: "psbt_input \<Rightarrow> nat \<Rightarrow> (u32 \<times> u32, sign_error) res" where
  "branch_and_index inp i =
     (case in_bip32_derivation inp of
        [] \<Rightarrow> Err (SE_MissingDerivation i)
      | (_, (_, path)) # _ \<Rightarrow>
          let n = length path
          in if n < 2 then Err (SE_InvalidDerivationPath i)
             else
               res_bind (case path ! (n - 2) of Normal index \<Rightarrow> Ok index | Hardened _ \<Rightarrow> Err (SE_InvalidDerivationPath i)) (\<lambda>branch.
               res_bind (case path ! (n - 1) of Normal index \<Rightarrow> Ok index | Hardened _ \<Rightarrow> Err (SE_InvalidDerivationPath i)) (\<lambda>addr.
               if 1 < branch then Err (SE_InvalidDerivationPath i) else Ok (branch, addr))))"

definition derived_for_input ::
    "prims \<Rightarrow> psbt_input \<Rightarrow> nat \<Rightarrow> parsed_descriptor \<Rightarrow> parsed_descriptor option \<Rightarrow> (derived_output, sign_error) res" where
  "derived_for_input pr inp i receive change =
     res_bind (branch_and_index inp i) (\<lambda>(branch, index).
     res_bind (if branch = 0 then Ok receive else ok_or change (SE_InvalidDerivationPath i)) (\<lambda>descriptor.
     expect (res_ok (derive_at pr descriptor index))))"

fun collect_sigs ::
    "(public_key \<times> signature) list \<Rightarrow> nat \<Rightarrow> bytes list \<Rightarrow> signature list \<Rightarrow> (signature list, sign_error) res" where
  "collect_sigs partial i [] sigs = Ok sigs"
| "collect_sigs partial i (pk_bytes # pks) sigs =
     (case List.find (\<lambda>(pk, _). snd pk = pk_bytes) partial of
        None \<Rightarrow> collect_sigs partial i pks sigs
      | Some (_, sg) \<Rightarrow>
          if sig_sighash_type sg \<noteq> SighashAll then Err (SE_NonSighashAll i)
          else if length (sigs @ [sg]) = 2 then Ok (sigs @ [sg])
          else collect_sigs partial i pks (sigs @ [sg]))"

definition serialize_signature :: "prims \<Rightarrow> signature \<Rightarrow> bytes" where
  "serialize_signature pr sg = serialize_der pr (sig_signature sg) @ [sighash_to_u8 (sig_sighash_type sg)]"

definition witness_for_sorted ::
    "prims \<Rightarrow> psbt_input \<Rightarrow> nat \<Rightarrow> bytes list \<Rightarrow> bytes \<Rightarrow> (bytes list, sign_error) res" where
  "witness_for_sorted pr inp i sorted_pks script =
     res_bind (collect_sigs (in_partial_sigs inp) i sorted_pks []) (\<lambda>sigs.
     if length sigs < 2 then Err (SE_IncompleteWitness i)
     else Ok [[], serialize_signature pr (sigs ! 0), serialize_signature pr (sigs ! 1), script])"

definition input_witness ::
    "prims \<Rightarrow> psbt \<Rightarrow> parsed_descriptor \<Rightarrow> parsed_descriptor option \<Rightarrow> verify_policy \<Rightarrow> nat \<Rightarrow> psbt_input
     \<Rightarrow> ((out_point \<times> tx_out) \<times> bytes list, sign_error) res" where
  "input_witness pr p receive change policy i inp =
     res_bind (ok_or (in_witness_utxo inp) (SE_MissingWitnessUtxo i)) (\<lambda>utxo.
     res_bind (index_res (tx_input (ps_unsigned_tx p)) i) (\<lambda>txin.
     let prevout = ti_previous_output txin
     in res_bind (ok_or (btree_get (vp_known_utxos policy) prevout) (SE_Verify (VE_UnknownInput i))) (\<lambda>known.
        if to_value utxo \<noteq> to_value known \<or> to_script_pubkey utxo \<noteq> to_script_pubkey known
        then Err (SE_Verify (VE_MismatchedUtxo i))
        else
          res_bind (derived_for_input pr inp i receive change) (\<lambda>derived.
          if to_script_pubkey utxo \<noteq> do_script_pubkey derived then Err (SE_WitnessScriptMismatch i)
          else
            let sorted_pks = do_sorted_pubkeys derived;
                script = (case witness_script_2of3 sorted_pks of Ok s \<Rightarrow> s | _ \<Rightarrow> do_witness_script derived)
            in res_bind (case in_witness_script inp of
                   Some ws \<Rightarrow> if ws = script then Ok () else Err (SE_WitnessScriptMismatch i)
                 | None \<Rightarrow> Err (SE_MissingWitnessScript i)) (\<lambda>_.
               res_bind (witness_for_sorted pr inp i sorted_pks script) (\<lambda>w.
               Ok ((prevout, known), w)))))))"

definition set_final_witness :: "nat \<Rightarrow> bytes list \<Rightarrow> psbt \<Rightarrow> psbt" where
  "set_final_witness i w p =
     p\<lparr>ps_inputs := (ps_inputs p)[i := (ps_inputs p ! i)\<lparr>in_final_script_witness := Some w\<rparr>]\<rparr>"

definition finalize :: "prims \<Rightarrow> psbt \<Rightarrow> string \<Rightarrow> verify_policy \<Rightarrow> (transaction, sign_error) res" where
  "finalize pr p descriptor policy =
     (if ps_inputs p = [] then Err SE_EmptyPsbt
      else if length (ps_inputs p) \<noteq> length (tx_input (ps_unsigned_tx p))
      then Err (SE_Verify (VE_InconsistentPsbt InputCount))
      else
        res_bind (res_map_err (\<lambda>e. SE_Verify (VE_Descriptor e)) (parse pr descriptor)) (\<lambda>receive.
        res_bind (case vp_change_descriptor policy of
            Some s \<Rightarrow> res_bind (res_map_err (\<lambda>e. SE_Verify (VE_Descriptor e)) (parse pr s)) (\<lambda>d. Ok (Some d))
          | None \<Rightarrow> Ok None) (\<lambda>change.
        res_bind (for_in (\<lambda>i inp (spent, finished).
            res_bind (input_witness pr p receive change policy i inp) (\<lambda>((prevout, known), w).
            Ok (btree_insert prevout known spent, set_final_witness i w finished)))
          0 (ps_inputs p) ([], p)) (\<lambda>(spent, finished).
        res_bind (res_map_err (\<lambda>_. SE_UnbalancedPsbt) (psbt_fee p)) (\<lambda>fee_sats.
        if fee_sats = 0 then Err SE_UnbalancedPsbt
        else
          let tx = extract_tx finished
          in if \<not> verify_transaction pr tx spent then Err SE_ConsensusRejected
             else
               let vsize = tx_vsize pr tx
               in res_bind (expect (div_ceil fee_sats vsize)) (\<lambda>feerate_sat_vb.
                  if vp_max_feerate policy < feerate_sat_vb
                  then Err (SE_FinalFeerateTooHigh feerate_sat_vb (vp_max_feerate policy))
                  else Ok tx))))))"


subsection \<open>Reference definitions\<close>

text \<open>The signature that a PSBT input holds for a key, and those of a list of keys in its order.\<close>

definition sig_of :: "(public_key \<times> signature) list \<Rightarrow> bytes \<Rightarrow> signature option" where
  "sig_of partial pk = map_option snd (List.find (\<lambda>(pk', _). snd pk' = pk) partial)"

definition sigs_in_order :: "(public_key \<times> signature) list \<Rightarrow> bytes list \<Rightarrow> signature list" where
  "sigs_in_order partial pks = List.map_filter (sig_of partial) pks"

text \<open>
  An input whose derivation data name the wallet's own output and two of its keys: what the
  wallet itself writes into its PSBTs.
\<close>

definition input_matches ::
    "prims \<Rightarrow> parsed_descriptor \<Rightarrow> parsed_descriptor option \<Rightarrow> fingerprint \<Rightarrow> fingerprint \<Rightarrow> nat \<Rightarrow> psbt_input \<Rightarrow> bool" where
  "input_matches pr receive change fpa fpb i inp \<longleftrightarrow>
     (\<exists>out u ka kb. derived_for_input pr inp i receive change = Ok out
        \<and> in_witness_utxo inp = Some u \<and> to_script_pubkey u = do_script_pubkey out
        \<and> in_witness_script inp = Some (do_witness_script out)
        \<and> pubkey_for_fingerprint inp fpa = Some ka \<and> pubkey_for_fingerprint inp fpb = Some kb \<and> ka \<noteq> kb
        \<and> ka \<in> set (do_sorted_pubkeys out) \<and> kb \<in> set (do_sorted_pubkeys out))"

definition parsed_change :: "prims \<Rightarrow> verify_policy \<Rightarrow> (parsed_descriptor option, verify_error) res" where
  "parsed_change pr vp =
     (case vp_change_descriptor vp of
        Some s \<Rightarrow> res_bind (res_map_err VE_Descriptor (parse pr s)) (\<lambda>d. Ok (Some d))
      | None \<Rightarrow> Ok None)"

section \<open>Lemmas\<close>

subsection \<open>The witness\<close>

lemma sigs_in_order_simps [simp]:
  "sigs_in_order partial [] = []"
  "sigs_in_order partial (pk # pks) =
     (case sig_of partial pk of None \<Rightarrow> sigs_in_order partial pks | Some sg \<Rightarrow> sg # sigs_in_order partial pks)"
  by (simp_all add: sigs_in_order_def List.map_filter_simps split: option.splits)

lemma collect_sigs_Ok:
  assumes "length sigs < 2"
  shows "collect_sigs partial i pks sigs = Ok r \<longleftrightarrow> r = take 2 (sigs @ sigs_in_order partial pks)
    \<and> list_all (\<lambda>sg. sig_sighash_type sg = SighashAll) (take (2 - length sigs) (sigs_in_order partial pks))"
  using assms
proof (induction partial i pks sigs rule: collect_sigs.induct)
  case (2 partial i pk pks sigs)
  show ?case
  proof (cases "List.find (\<lambda>(pk', _). snd pk' = pk) partial")
    case None
    then show ?thesis using 2 by (simp add: sig_of_def)
  next
    case (Some e)
    obtain k sg where e: "e = (k, sg)" by (cases e)
    have of: "sig_of partial pk = Some sg" using Some e by (simp add: sig_of_def)
    show ?thesis
    proof (cases "length sigs")
      case 0
      then show ?thesis using 2(2) [OF Some e [symmetric]] Some e of by (auto simp: numeral_2_eq_2)
    next
      case (Suc n)
      then have "length sigs = 1" using 2(3) by simp
      then show ?thesis using Some e of by auto
    qed
  qed
qed auto


lemma witness_for_sorted_Ok:
  "witness_for_sorted pr inp i pks script = Ok w \<longleftrightarrow>
     (\<exists>s0 s1 rest. sigs_in_order (in_partial_sigs inp) pks = s0 # s1 # rest
       \<and> sig_sighash_type s0 = SighashAll \<and> sig_sighash_type s1 = SighashAll
       \<and> w = [[], serialize_signature pr s0, serialize_signature pr s1, script])"
proof -
  have two: "\<not> length (take 2 xs) < 2 \<longleftrightarrow> (\<exists>a b rest. xs = a # b # rest)" for xs :: "signature list"
    by (cases xs; cases "tl xs") auto
  show ?thesis
    unfolding witness_for_sorted_def res_bind_eq_Ok
    using two [of "sigs_in_order (in_partial_sigs inp) pks"]
    by (auto simp: collect_sigs_Ok numeral_2_eq_2 split: if_splits)
qed

text \<open>The first two signatures belong to two keys at increasing positions.\<close>

lemma sigs_in_order_positions:
  assumes "sigs_in_order partial pks = s0 # s1 # rest"
  shows "\<exists>a b. a < b \<and> b < length pks \<and> sig_of partial (pks ! a) = Some s0 \<and> sig_of partial (pks ! b) = Some s1"
proof -
  have first: "\<exists>a < length qs. sig_of partial (qs ! a) = Some s \<and> sigs_in_order partial (drop (Suc a) qs) = tl'"
    if "sigs_in_order partial qs = s # tl'" for qs s tl'
    using that
  proof (induction qs)
    case (Cons q qs)
    then show ?case
    proof (cases "sig_of partial q")
      case None
      then obtain a where "a < length qs" "sig_of partial (qs ! a) = Some s"
          "sigs_in_order partial (drop (Suc a) qs) = tl'"
        using Cons by auto
      then show ?thesis by (intro exI [of _ "Suc a"]) simp
    qed (auto intro!: exI [of _ 0])
  qed simp
  obtain a where a: "a < length pks" "sig_of partial (pks ! a) = Some s0"
      "sigs_in_order partial (drop (Suc a) pks) = s1 # rest"
    using first [OF assms] by blast
  obtain b where b: "b < length (drop (Suc a) pks)" "sig_of partial (drop (Suc a) pks ! b) = Some s1"
    using first [OF a(3)] by blast
  show ?thesis
    using a b by (intro exI [of _ a] exI [of _ "Suc a + b"]) auto
qed

text \<open>Two keys with a signature make the witness complete.\<close>

lemma sigs_in_order_two:
  assumes "x \<in> set pks" and "y \<in> set pks" and "x \<noteq> y"
    and "sig_of partial x \<noteq> None" and "sig_of partial y \<noteq> None"
  shows "\<exists>s0 s1 rest. sigs_in_order partial pks = s0 # s1 # rest"
proof -
  have "card {x, y} \<le> card {k \<in> set pks. sig_of partial k \<noteq> None}"
    using assms by (intro card_mono) auto
  also have "\<dots> \<le> length (filter (\<lambda>k. sig_of partial k \<noteq> None) pks)"
    using card_length [of "filter (\<lambda>k. sig_of partial k \<noteq> None) pks"] by simp
  also have "\<dots> = length (sigs_in_order partial pks)"
    by (induction pks) (auto split: option.splits)
  finally have "2 \<le> length (sigs_in_order partial pks)" using assms(3) by simp
  then show ?thesis by (cases "sigs_in_order partial pks"; cases "tl (sigs_in_order partial pks)") auto
qed


subsection \<open>One input\<close>

lemma derived_for_input_Ok:
  assumes "derived_for_input pr inp i receive change = Ok out"
  shows "\<exists>d index. (d = receive \<or> change = Some d) \<and> derive_at pr d index = Ok out"
  using assms
  by (auto simp: derived_for_input_def res_simps split: if_splits prod.splits)

lemma derive_at_scripts:
  assumes "length (pd_keys d) = 3" and "derive_at pr d i = Ok out"
  shows "witness_script_2of3 (do_sorted_pubkeys out) = Ok (do_witness_script out)"
    and "length (do_sorted_pubkeys out) = 3"
proof -
  obtain k0 k1 k2 where k: "pd_keys d = [k0, k1, k2]"
    using assms(1) by (auto simp: numeral_eq_Suc length_Suc_conv)
  show "length (do_sorted_pubkeys out) = 3"
    using assms(2) unfolding derive_at_Ok [OF k] by (auto simp: Let_def)
  then show "witness_script_2of3 (do_sorted_pubkeys out) = Ok (do_witness_script out)"
    using assms(2) unfolding derive_at_Ok [OF k] by (auto simp: Let_def witness_script_2of3_Ok list_all_iff)
qed

lemma input_witness_Ok:
  assumes "input_witness pr p receive change policy i inp = Ok ((prevout, known), w)"
    and "length (pd_keys receive) = 3" and "\<forall>c. change = Some c \<longrightarrow> length (pd_keys c) = 3"
  shows "\<exists>utxo d index out s0 s1 rest. i < length (tx_input (ps_unsigned_tx p))
    \<and> prevout = ti_previous_output (tx_input (ps_unsigned_tx p) ! i)
    \<and> in_witness_utxo inp = Some utxo \<and> btree_get (vp_known_utxos policy) prevout = Some known
    \<and> to_value utxo = to_value known \<and> to_script_pubkey utxo = to_script_pubkey known
    \<and> (d = receive \<or> change = Some d) \<and> derive_at pr d index = Ok out
    \<and> to_script_pubkey known = do_script_pubkey out \<and> in_witness_script inp = Some (do_witness_script out)
    \<and> sigs_in_order (in_partial_sigs inp) (do_sorted_pubkeys out) = s0 # s1 # rest
    \<and> sig_sighash_type s0 = SighashAll \<and> sig_sighash_type s1 = SighashAll
    \<and> w = [[], serialize_signature pr s0, serialize_signature pr s1, do_witness_script out]"
proof -
  from assms(1) obtain utxo out where u: "in_witness_utxo inp = Some utxo" "i < length (tx_input (ps_unsigned_tx p))"
      "prevout = ti_previous_output (tx_input (ps_unsigned_tx p) ! i)"
      "btree_get (vp_known_utxos policy) prevout = Some known"
      "to_value utxo = to_value known" "to_script_pubkey utxo = to_script_pubkey known"
      "derived_for_input pr inp i receive change = Ok out" "to_script_pubkey utxo = do_script_pubkey out"
      "let script = (case witness_script_2of3 (do_sorted_pubkeys out) of Ok s \<Rightarrow> s | _ \<Rightarrow> do_witness_script out)
       in in_witness_script inp = Some script
        \<and> witness_for_sorted pr inp i (do_sorted_pubkeys out) script = Ok w"
    by (auto simp: input_witness_def res_simps index_res_def Let_def split: if_splits option.splits)
  obtain d index where d: "d = receive \<or> change = Some d" "derive_at pr d index = Ok out"
    using derived_for_input_Ok [OF u(7)] by blast
  then have "length (pd_keys d) = 3" using assms(2,3) by blast
  then have "in_witness_script inp = Some (do_witness_script out)"
      "witness_for_sorted pr inp i (do_sorted_pubkeys out) (do_witness_script out) = Ok w"
    using u(9) derive_at_scripts [OF _ d(2)] by (simp_all add: Let_def)
  then show ?thesis using u d unfolding witness_for_sorted_Ok by metis
qed

subsection \<open>All inputs\<close>

lemma finalize_loop:
  assumes "for_in (\<lambda>i inp (spent, finished).
      res_bind (input_witness pr p receive change policy i inp) (\<lambda>((prevout, known), w).
      Ok (btree_insert prevout known spent, set_final_witness i w finished))) 0 (ps_inputs p) ([], p) = Ok (spent, finished)"
  shows "\<forall>op out. btree_get spent op = Some out \<longrightarrow> btree_get (vp_known_utxos policy) op = Some out"
    and "finished = p\<lparr>ps_inputs := ps_inputs finished\<rparr>" and "length (ps_inputs finished) = length (ps_inputs p)"
    and "\<forall>j < length (ps_inputs p). \<exists>e w. input_witness pr p receive change policy j (ps_inputs p ! j) = Ok (e, w)
      \<and> ps_inputs finished ! j = (ps_inputs p ! j)\<lparr>in_final_script_witness := Some w\<rparr>"
proof -
  define Q where "Q n st \<longleftrightarrow> btree_wf (fst st)
      \<and> (\<forall>op out. btree_get (fst st) op = Some out \<longrightarrow> btree_get (vp_known_utxos policy) op = Some out)
      \<and> snd st = p\<lparr>ps_inputs := ps_inputs (snd st)\<rparr> \<and> length (ps_inputs (snd st)) = length (ps_inputs p)
      \<and> (\<forall>j < n. \<exists>e w. input_witness pr p receive change policy j (ps_inputs p ! j) = Ok (e, w)
          \<and> ps_inputs (snd st) ! j = (ps_inputs p ! j)\<lparr>in_final_script_witness := Some w\<rparr>)
      \<and> (\<forall>j. n \<le> j \<longrightarrow> ps_inputs (snd st) ! j = ps_inputs p ! j)"
    for n :: nat and st :: "(out_point \<times> tx_out) list \<times> psbt"
  have "Q (0 + length (ps_inputs p)) (spent, finished)"
  proof (rule for_in_invariant [OF assms])
    show "Q 0 ([], p)" by (simp add: Q_def btree_wf_def btree_get_def)
  next
    fix j x s s'
    assume j: "j < length (ps_inputs p)" "x = ps_inputs p ! j" and Q: "Q (0 + j) s"
      and step: "(case s of (spent, finished) \<Rightarrow>
        res_bind (input_witness pr p receive change policy (0 + j) x) (\<lambda>((prevout, known), w).
        Ok (btree_insert prevout known spent, set_final_witness (0 + j) w finished))) = Ok s'"
    obtain sp fin where s: "s = (sp, fin)" by (cases s)
    obtain prevout known w where iw: "input_witness pr p receive change policy j x = Ok ((prevout, known), w)"
      and s': "s' = (btree_insert prevout known sp, set_final_witness j w fin)"
      using step by (auto simp: s res_simps)
    have wf: "btree_wf sp" using Q by (simp add: Q_def s)
    have kn: "btree_get (vp_known_utxos policy) prevout = Some known"
      using iw by (auto simp: input_witness_def res_simps index_res_def Let_def split: if_splits)
    have fin: "fin = p\<lparr>ps_inputs := ps_inputs fin\<rparr>" "length (ps_inputs fin) = length (ps_inputs p)"
      using Q by (simp_all add: Q_def s)
    have "set_final_witness j w fin = p\<lparr>ps_inputs := ps_inputs (set_final_witness j w fin)\<rparr>"
      by (subst (1 2) fin(1)) (simp add: set_final_witness_def)
    moreover have "ps_inputs (set_final_witness j w fin) ! m =
        (if m = j then (ps_inputs p ! j)\<lparr>in_final_script_witness := Some w\<rparr> else ps_inputs fin ! m)" for m
      using Q j(1) fin(2) by (simp add: set_final_witness_def Q_def s nth_list_update)
    ultimately show "Q (Suc (0 + j)) s'"
      using Q wf kn iw j(2) bt.get_insert [OF wf] bt.wf_insert [OF wf]
      by (auto simp: Q_def s s' less_Suc_eq set_final_witness_def)
  qed
  then show "\<forall>op out. btree_get spent op = Some out \<longrightarrow> btree_get (vp_known_utxos policy) op = Some out"
    and "finished = p\<lparr>ps_inputs := ps_inputs finished\<rparr>" and "length (ps_inputs finished) = length (ps_inputs p)"
    and "\<forall>j < length (ps_inputs p). \<exists>e w. input_witness pr p receive change policy j (ps_inputs p ! j) = Ok (e, w)
      \<and> ps_inputs finished ! j = (ps_inputs p ! j)\<lparr>in_final_script_witness := Some w\<rparr>"
    by (simp_all add: Q_def)
qed

lemma verify_inputs_sound:
  assumes "verify_inputs pr tx k txins spent"
  shows "distinct (map ti_previous_output txins)
    \<and> (\<forall>t\<in>set txins. btree_get spent (ti_previous_output t) \<noteq> None)
    \<and> (\<forall>j < length txins. \<exists>out. btree_get spent (ti_previous_output (txins ! j)) = Some out
        \<and> verify_script pr (to_script_pubkey out) (k + j) (to_value out) tx)"
  using assms
proof (induction txins arbitrary: k spent)
  case (Cons t txins)
  let ?op = "ti_previous_output t"
  obtain out where out: "btree_get spent ?op = Some out" "verify_script pr (to_script_pubkey out) k (to_value out) tx"
      "verify_inputs pr tx (Suc k) txins (btree_remove ?op spent)"
    using Cons.prems by (auto split: option.splits)
  have rm: "btree_get (btree_remove ?op spent) op = (if op = ?op then None else btree_get spent op)" for op
    unfolding btree_get_def btree_remove_def by (induction spent) auto
  note IH = Cons.IH [OF out(3)]
  have "?op \<notin> set (map ti_previous_output txins)" using IH rm by fastforce
  moreover have "\<exists>out. btree_get spent (ti_previous_output ((t # txins) ! j)) = Some out
      \<and> verify_script pr (to_script_pubkey out) (k + j) (to_value out) tx" if "j < length (t # txins)" for j
  proof (cases j)
    case 0
    then show ?thesis using out by simp
  next
    case (Suc n)
    then show ?thesis using IH that rm by (fastforce split: if_splits)
  qed
  ultimately show ?case using IH out rm by (fastforce split: if_splits)
qed simp


subsection \<open>The fee\<close>

lemma funding_loop:
  assumes "\<forall>z\<in>set zs. in_witness_utxo (snd z) \<noteq> None"
  shows "for_in (\<lambda>_ (txin, inp) inputs.
      res_bind (funding_utxo txin inp) (\<lambda>utxo. ok_or (checked_add inputs (to_value utxo)) PE_FeeOverflow)) k zs a
    = for_in (\<lambda>_ z inputs. ok_or (checked_add inputs (to_value (the (in_witness_utxo (snd z))))) PE_FeeOverflow) k zs a"
  using assms
proof (induction zs arbitrary: k a)
  case (Cons z zs)
  obtain txin inp where z: "z = (txin, inp)" by (cases z)
  obtain utxo where u: "in_witness_utxo inp = Some utxo" using Cons.prems z by auto
  show ?case
    using Cons u by (cases "checked_add a (to_value utxo)") (simp_all add: z funding_utxo_def)
qed simp

lemma psbt_fee_Ok:
  assumes "\<forall>inp\<in>set (ps_inputs p). in_witness_utxo inp \<noteq> None"
    and "length (ps_inputs p) = length (tx_input (ps_unsigned_tx p))"
  shows "psbt_fee p = Ok fee \<longleftrightarrow> inputs_value p < 2 ^ 64
    \<and> inputs_value p = (\<Sum>out\<leftarrow>tx_output (ps_unsigned_tx p). unat (to_value out)) + unat fee"
proof -
  let ?zs = "zip (tx_input (ps_unsigned_tx p)) (ps_inputs p)"
  let ?outs = "\<Sum>out\<leftarrow>tx_output (ps_unsigned_tx p). unat (to_value out)"
  have "\<forall>z\<in>set ?zs. in_witness_utxo (snd z) \<noteq> None" using assms(1) by (auto dest: set_zip_rightD)
  note loop = funding_loop [OF this]
  have "(\<Sum>z\<leftarrow>?zs. unat (to_value (the (in_witness_utxo (snd z)))))
      = (\<Sum>inp\<leftarrow>map snd ?zs. unat (to_value (the (in_witness_utxo inp))))" by (simp add: o_def)
  also have "\<dots> = inputs_value p"
    unfolding inputs_value_def map_snd_zip [OF assms(2) [symmetric]] using assms(1)
    by (intro arg_cong [of _ _ sum_list] map_cong) auto
  finally have ins: "(\<Sum>z\<leftarrow>?zs. unat (to_value (the (in_witness_utxo (snd z))))) = inputs_value p" .
  have eq: "psbt_fee p = Ok fee \<longleftrightarrow> (\<exists>a b. unat (a :: u64) = inputs_value p \<and> unat (b :: u64) = ?outs \<and> unat a = unat b + unat fee)"
    using assms(2)
    by (simp add: psbt_fee_def loop res_bind_eq_Ok for_in_checked_sum ins ok_or_eq_Ok checked_sub_eq_Some)
  have ex: "\<exists>x :: u64. unat x = n" if "n < 2 ^ 64" for n
    using that by (auto intro!: exI [of _ "of_nat n :: u64"] simp: unsigned_of_nat take_bit_nat_eq_self_iff)
  have small: "unat x < 2 ^ 64" for x :: u64 using unat_lt2p [of x] by simp
  show ?thesis
  proof
    assume "psbt_fee p = Ok fee"
    then show "inputs_value p < 2 ^ 64 \<and> inputs_value p = ?outs + unat fee" unfolding eq using small by metis
  next
    assume r: "inputs_value p < 2 ^ 64 \<and> inputs_value p = ?outs + unat fee"
    then obtain a b :: u64 where "unat a = inputs_value p" "unat b = ?outs"
      using ex [of "inputs_value p"] ex [of ?outs] by auto
    then show "psbt_fee p = Ok fee" unfolding eq using r by metis
  qed
qed

lemma finalize_Ok:
  assumes "finalize pr p d vp = Ok tx"
  obtains receive change spent finished fee rate where
    "parse pr d = Ok receive"
    and "\<forall>c. change = Some c \<longrightarrow> (\<exists>s. vp_change_descriptor vp = Some s \<and> parse pr s = Ok c)"
    and "length (ps_inputs p) = length (tx_input (ps_unsigned_tx p))"
    and "for_in (\<lambda>i inp (spent, finished).
      res_bind (input_witness pr p receive change vp i inp) (\<lambda>((prevout, known), w).
      Ok (btree_insert prevout known spent, set_final_witness i w finished))) 0 (ps_inputs p) ([], p) = Ok (spent, finished)"
    and "psbt_fee p = Ok fee" and "fee \<noteq> 0" and "tx = extract_tx finished" and "verify_transaction pr tx spent"
    and "div_ceil fee (tx_vsize pr tx) = Some rate" and "rate \<le> vp_max_feerate vp"
proof -
  let ?chg = "case vp_change_descriptor vp of
      Some s \<Rightarrow> res_bind (res_map_err (\<lambda>e. SE_Verify (VE_Descriptor e)) (parse pr s)) (\<lambda>d. Ok (Some d))
    | None \<Rightarrow> Ok None"
  from assms obtain receive change spent finished fee rate where r: "parse pr d = Ok receive" "?chg = Ok change"
      "length (ps_inputs p) = length (tx_input (ps_unsigned_tx p))"
      "for_in (\<lambda>i inp (spent, finished).
        res_bind (input_witness pr p receive change vp i inp) (\<lambda>((prevout, known), w).
        Ok (btree_insert prevout known spent, set_final_witness i w finished))) 0 (ps_inputs p) ([], p)
        = Ok (spent, finished)"
      "psbt_fee p = Ok fee" "fee \<noteq> 0" "tx = extract_tx finished" "verify_transaction pr tx spent"
      "div_ceil fee (tx_vsize pr tx) = Some rate" "rate \<le> vp_max_feerate vp"
    by (auto simp: finalize_def res_simps Let_def not_less split: if_splits)
  have "\<forall>c. change = Some c \<longrightarrow> (\<exists>s. vp_change_descriptor vp = Some s \<and> parse pr s = Ok c)"
    using r(2) by (auto simp: res_simps split: option.splits)
  then show thesis using that r by blast
qed


lemma extract_tx_fields:
  assumes "length (ps_inputs q) = length (tx_input (ps_unsigned_tx q))"
  shows "(extract_tx q)\<lparr>tx_input := tx_input (ps_unsigned_tx q)\<rparr> = ps_unsigned_tx q"
    and "length (tx_input (extract_tx q)) = length (tx_input (ps_unsigned_tx q))"
    and "\<And>j. j < length (ps_inputs q) \<Longrightarrow> tx_input (extract_tx q) ! j = (tx_input (ps_unsigned_tx q) ! j)
      \<lparr>ti_script_sig := (case in_final_script_sig (ps_inputs q ! j) of Some s \<Rightarrow> s | None \<Rightarrow> []),
       ti_witness := (case in_final_script_witness (ps_inputs q ! j) of Some w \<Rightarrow> w | None \<Rightarrow> [])\<rparr>"
  using assms by (simp_all add: extract_tx_def)

text \<open>The finished transaction, input by input.\<close>

lemma finalize_inputs:
  assumes "finalize pr p d vp = Ok tx" and "j < length (ps_inputs p)"
  shows "\<exists>receive change prevout known w.
      parse pr d = Ok receive
      \<and> (\<forall>c. change = Some c \<longrightarrow> (\<exists>s. vp_change_descriptor vp = Some s \<and> parse pr s = Ok c))
      \<and> input_witness pr p receive change vp j (ps_inputs p ! j) = Ok ((prevout, known), w)
      \<and> ti_witness (tx_input tx ! j) = w \<and> prevout = ti_previous_output (tx_input tx ! j)
      \<and> btree_get (vp_known_utxos vp) prevout = Some known
      \<and> verify_script pr (to_script_pubkey known) j (to_value known) tx"
    and "tx\<lparr>tx_input := tx_input (ps_unsigned_tx p)\<rparr> = ps_unsigned_tx p"
    and "length (tx_input tx) = length (ps_inputs p)" and "length (tx_input (ps_unsigned_tx p)) = length (ps_inputs p)"
    and "ti_previous_output (tx_input tx ! j) = ti_previous_output (tx_input (ps_unsigned_tx p) ! j)
      \<and> ti_sequence (tx_input tx ! j) = ti_sequence (tx_input (ps_unsigned_tx p) ! j)"
    and "distinct (map ti_previous_output (tx_input tx))"
proof -
  from assms(1) obtain receive change spent finished where r: "parse pr d = Ok receive"
    "\<forall>c. change = Some c \<longrightarrow> (\<exists>s. vp_change_descriptor vp = Some s \<and> parse pr s = Ok c)"
    and len: "length (ps_inputs p) = length (tx_input (ps_unsigned_tx p))"
    and loop: "for_in (\<lambda>i inp (spent, finished).
      res_bind (input_witness pr p receive change vp i inp) (\<lambda>((prevout, known), w).
      Ok (btree_insert prevout known spent, set_final_witness i w finished))) 0 (ps_inputs p) ([], p) = Ok (spent, finished)"
    and tx: "tx = extract_tx finished" and ver: "verify_transaction pr tx spent"
    by (rule finalize_Ok)
  note l = finalize_loop [OF loop]
  have fin: "ps_unsigned_tx finished = ps_unsigned_tx p" by (subst l(2)) simp
  have len': "length (ps_inputs finished) = length (tx_input (ps_unsigned_tx finished))" using l(3) len fin by simp
  note e = extract_tx_fields [OF len', folded tx, unfolded fin]
  show "tx\<lparr>tx_input := tx_input (ps_unsigned_tx p)\<rparr> = ps_unsigned_tx p" by (rule e(1))
  show len_tx: "length (tx_input tx) = length (ps_inputs p)" using e(2) len by simp
  show "length (tx_input (ps_unsigned_tx p)) = length (ps_inputs p)" using len by simp
  have ej: "tx_input tx ! j = (tx_input (ps_unsigned_tx p) ! j)
      \<lparr>ti_script_sig := (case in_final_script_sig (ps_inputs finished ! j) of Some s \<Rightarrow> s | None \<Rightarrow> []),
       ti_witness := (case in_final_script_witness (ps_inputs finished ! j) of Some w \<Rightarrow> w | None \<Rightarrow> [])\<rparr>"
    using e(3) assms(2) l(3) by simp
  show "ti_previous_output (tx_input tx ! j) = ti_previous_output (tx_input (ps_unsigned_tx p) ! j)
      \<and> ti_sequence (tx_input tx ! j) = ti_sequence (tx_input (ps_unsigned_tx p) ! j)"
    by (simp add: ej)
  note v = verify_inputs_sound [OF ver [unfolded verify_transaction_def]]
  show "distinct (map ti_previous_output (tx_input tx))" using v by blast
  from l(4) assms(2) obtain prevout known w where iw:
      "input_witness pr p receive change vp j (ps_inputs p ! j) = Ok ((prevout, known), w)"
      "ps_inputs finished ! j = (ps_inputs p ! j)\<lparr>in_final_script_witness := Some w\<rparr>"
    by (metis prod.exhaust)
  have k: "prevout = ti_previous_output (tx_input tx ! j)" "btree_get (vp_known_utxos vp) prevout = Some known"
    using iw(1) by (auto simp: ej input_witness_def res_simps index_res_def Let_def split: if_splits)
  moreover have "ti_witness (tx_input tx ! j) = w" by (simp add: ej iw(2))
  moreover have "verify_script pr (to_script_pubkey known) j (to_value known) tx"
    using v l(1) k len_tx assms(2) by fastforce
  ultimately show "\<exists>receive change prevout known w.
      parse pr d = Ok receive
      \<and> (\<forall>c. change = Some c \<longrightarrow> (\<exists>s. vp_change_descriptor vp = Some s \<and> parse pr s = Ok c))
      \<and> input_witness pr p receive change vp j (ps_inputs p ! j) = Ok ((prevout, known), w)
      \<and> ti_witness (tx_input tx ! j) = w \<and> prevout = ti_previous_output (tx_input tx ! j)
      \<and> btree_get (vp_known_utxos vp) prevout = Some known
      \<and> verify_script pr (to_script_pubkey known) j (to_value known) tx"
    using r iw(1) by blast
qed


subsection \<open>Finishing what two keys signed\<close>

lemma input_witness_complete:
  assumes m: "input_matches pr receive change fpa fpb i inp"
    and keys: "length (pd_keys receive) = 3" "\<And>c. change = Some c \<Longrightarrow> length (pd_keys c) = 3"
    and i: "i < length (tx_input (ps_unsigned_tx p))"
    and known: "btree_get (vp_known_utxos vp) (ti_previous_output (tx_input (ps_unsigned_tx p) ! i)) = in_witness_utxo inp"
    and sigs: "input_signed_by pr tx fpa i inp" "input_signed_by pr tx fpb i inp"
    and all: "\<forall>e\<in>set (in_partial_sigs inp). sig_sighash_type (snd e) = SighashAll"
  shows "\<exists>e w. input_witness pr p receive change vp i inp = Ok (e, w)"
proof -
  from m obtain out u ka kb where o': "derived_for_input pr inp i receive change = Ok out"
      "in_witness_utxo inp = Some u" "to_script_pubkey u = do_script_pubkey out"
      "in_witness_script inp = Some (do_witness_script out)"
      "pubkey_for_fingerprint inp fpa = Some ka" "pubkey_for_fingerprint inp fpb = Some kb" "ka \<noteq> kb"
      "ka \<in> set (do_sorted_pubkeys out)" "kb \<in> set (do_sorted_pubkeys out)"
    by (auto simp: input_matches_def)
  obtain d index where d: "d = receive \<or> change = Some d" "derive_at pr d index = Ok out"
    using derived_for_input_Ok [OF o'(1)] by blast
  then have "length (pd_keys d) = 3" using keys by blast
  then have script: "witness_script_2of3 (do_sorted_pubkeys out) = Ok (do_witness_script out)"
    using derive_at_scripts [OF _ d(2)] by blast
  have some: "sig_of (in_partial_sigs inp) k \<noteq> None"
    if "btree_get (in_partial_sigs inp) (public_key_new k) = Some sg" for k sg
    using that by (auto simp: sig_of_def btree_get_def public_key_new_def find_None_iff dest: map_of_SomeD)
  have "sig_of (in_partial_sigs inp) ka \<noteq> None" "sig_of (in_partial_sigs inp) kb \<noteq> None"
    using sigs some o'(5,6) by (auto simp: input_signed_by_def)
  then obtain s0 s1 rest where two: "sigs_in_order (in_partial_sigs inp) (do_sorted_pubkeys out) = s0 # s1 # rest"
    using sigs_in_order_two [OF o'(8,9,7)] by blast
  have "sig_sighash_type sg = SighashAll" if "sig_of (in_partial_sigs inp) k = Some sg" for k sg
    using that all by (auto simp: sig_of_def dest!: find_Some_mem)
  with sigs_in_order_positions [OF two] have "sig_sighash_type s0 = SighashAll" "sig_sighash_type s1 = SighashAll"
    by blast+
  then have "\<exists>w. witness_for_sorted pr inp i (do_sorted_pubkeys out) (do_witness_script out) = Ok w"
    using two by (simp add: witness_for_sorted_Ok)
  then show ?thesis
    using o' i known script by (auto simp: input_witness_def index_res_def Let_def)
qed


lemma verified_inputs_finish:
  assumes v: "verify pr q d vp = Ok v" and receive: "parse pr d = Ok receive" and chg: "parsed_change pr vp = Ok change"
    and m: "\<forall>i < length (ps_inputs q). input_matches pr receive change fpa fpb i (ps_inputs q ! i)"
    and sigs: "signed_by pr fpa q" "signed_by pr fpb q"
  shows "\<forall>i < length (ps_inputs q). \<exists>e w. input_witness pr q receive change vp i (ps_inputs q ! i) = Ok (e, w)"
    and "psbt_fee q = Ok (vd_fee_sats v)" and "vd_fee_sats v \<noteq> 0"
    and "length (ps_inputs q) = length (tx_input (ps_unsigned_tx q))" and "ps_inputs q \<noteq> []"
proof -
  from v have v8: "check_v8 q = Ok ()" and v9: "check_v9 q = Ok ()" and v7: "check_v7 q vp = Ok ()"
    and v5: "check_v5 pr q vp = Ok (vd_fee_sats v, vd_feerate_sat_vb v)" and v10: "check_v10 pr q = Ok ()"
    by (rule verify_Ok; blast)+
  show len: "length (ps_inputs q) = length (tx_input (ps_unsigned_tx q))" and ne: "ps_inputs q \<noteq> []"
    using v8 by (auto simp: check_v8_Ok)
  have wit: "\<forall>inp\<in>set (ps_inputs q). in_witness_utxo inp \<noteq> None" using v9 by (simp add: check_v9_Ok list_all_iff)
  show "\<forall>i < length (ps_inputs q). \<exists>e w. input_witness pr q receive change vp i (ps_inputs q ! i) = Ok (e, w)"
  proof (intro allI impI, rule input_witness_complete)
    fix i assume i: "i < length (ps_inputs q)"
    show "input_matches pr receive change fpa fpb i (ps_inputs q ! i)" using m i by blast
    show "i < length (tx_input (ps_unsigned_tx q))" using i len by simp
    show "btree_get (vp_known_utxos vp) (ti_previous_output (tx_input (ps_unsigned_tx q) ! i)) = in_witness_utxo (ps_inputs q ! i)"
      using v7 i len by (force simp: check_v7_Ok list_all_length)
    show "input_signed_by pr (ps_unsigned_tx q) fpa i (ps_inputs q ! i)"
      "input_signed_by pr (ps_unsigned_tx q) fpb i (ps_inputs q ! i)"
      using sigs i by (simp_all add: signed_by_def)
    show "\<forall>e\<in>set (in_partial_sigs (ps_inputs q ! i)). sig_sighash_type (snd e) = SighashAll"
      using v10 nth_mem [OF i] by (fastforce simp: check_v10_Ok list_all_iff)
  qed (use parse_length [OF receive] chg in \<open>auto simp: parsed_change_def res_simps parse_length split: option.splits\<close>)
  have val: "inputs_value q = (\<Sum>inp\<leftarrow>ps_inputs q. unat (to_value (the (in_witness_utxo inp))))"
    unfolding inputs_value_def using wit by (intro arg_cong [of _ _ sum_list] map_cong) auto
  show "psbt_fee q = Ok (vd_fee_sats v)" "vd_fee_sats v \<noteq> 0"
    using check_v5_Ok(1-3) [OF v5] psbt_fee_Ok [OF wit len] by (simp_all add: val)
qed

lemma parsed_change_sign:
  "parsed_change pr vp = Ok change \<Longrightarrow> (case vp_change_descriptor vp of
      Some s \<Rightarrow> res_bind (res_map_err (\<lambda>e. SE_Verify (VE_Descriptor e)) (parse pr s)) (\<lambda>d. Ok (Some d))
    | None \<Rightarrow> Ok None) = Ok change"
  by (auto simp: parsed_change_def res_simps split: option.splits)

lemma finalize_total:
  assumes v: "verify pr q d vp = Ok v" and receive: "parse pr d = Ok receive" and chg: "parsed_change pr vp = Ok change"
    and m: "\<forall>i < length (ps_inputs q). input_matches pr receive change fpa fpb i (ps_inputs q ! i)"
    and sigs: "signed_by pr fpa q" "signed_by pr fpb q"
    and vs: "\<forall>tx. tx_output tx = tx_output (ps_unsigned_tx q) \<longrightarrow> tx_vsize pr tx \<noteq> 0"
  shows "(\<exists>tx. finalize pr q d vp = Ok tx) \<or> finalize pr q d vp = Err SE_ConsensusRejected
    \<or> (\<exists>r. finalize pr q d vp = Err (SE_FinalFeerateTooHigh r (vp_max_feerate vp)))"
proof -
  note f = verified_inputs_finish [OF v receive chg m sigs]
  obtain spent finished where loop: "for_in (\<lambda>i inp (spent, finished).
      res_bind (input_witness pr q receive change vp i inp) (\<lambda>((prevout, known), w).
      Ok (btree_insert prevout known spent, set_final_witness i w finished))) 0 (ps_inputs q) ([], q) = Ok (spent, finished)"
    using for_in_total [of "ps_inputs q" "\<lambda>i inp (spent, finished).
      res_bind (input_witness pr q receive change vp i inp) (\<lambda>((prevout, known), w).
      Ok (btree_insert prevout known spent, set_final_witness i w finished))" 0 "([], q)"] f(1)
    by fastforce
  have "ps_unsigned_tx finished = ps_unsigned_tx q" by (subst finalize_loop(2) [OF loop]) simp
  then have "tx_vsize pr (extract_tx finished) \<noteq> 0" using vs by (simp add: extract_tx_def)
  then show ?thesis
    using f(2-5)
    by (auto simp: finalize_def receive parsed_change_sign [OF chg] loop Let_def div_ceil_def)
qed

lemma input_matches_skeleton:
  "input_matches pr r c fpa fpb i (inp\<lparr>in_partial_sigs := s, in_sighash_type := t\<rparr>) = input_matches pr r c fpa fpb i inp"
  by (simp add: input_matches_def derived_for_input_def branch_and_index_def pubkey_for_fingerprint_def)

subsection \<open>The sample payment\<close>

lemma byte_sum_sum_list: "byte_sum bs = sum_list bs"
proof -
  have "foldl (+) a bs = a + sum_list bs" for a :: u8 by (induction bs arbitrary: a) (simp_all add: ac_simps)
  then show ?thesis by (simp add: byte_sum_def)
qed

lemma sample_child_key:
  assumes "derive_child sample_prims (sample_key ch f b) i = Ok c"
  shows "dc_public_key c = 2 # replicate 32 (1089 * of_char ch
    + (68 + 33 * sum_list (u32_to_be (branch_index b)) + sum_list (u32_to_be i)))"
proof -
  have ckd: "ck_public_key k = 2 # replicate 32 (33 * x + 2 + sum_list (u32_to_be j))
      \<and> (\<exists>z. ck_chain_code k = replicate 32 z)"
    if "ckd_pub sample_prims (replicate 32 y) (2 # replicate 32 x) j = Ok k" for x y j k
    using that
    by (auto simp: ckd_pub_def sample_prims_def Let_def parse_il_def tweak_add_parent_def map2_replicate
        byte_sum_sum_list sum_list_replicate algebra_simps split: if_splits)
  let ?x = "of_char ch :: u8"
  have xp: "xpub_from_str sample_prims (''xpub'' @ [ch]) = Some (replicate 32 ?x, 2 # replicate 32 ?x)"
    by (simp add: sample_prims_def)
  obtain m ch' where m: "ckd_pub sample_prims (replicate 32 ?x) (2 # replicate 32 ?x) (branch_index b) = Ok m"
      "ckd_pub sample_prims (ck_chain_code m) (ck_public_key m) i = Ok ch'" "dc_public_key c = ck_public_key ch'"
    using assms xp by (auto simp: derive_child_def decode_xpub_def sample_key_def res_simps split: if_splits)
  show ?thesis using ckd [OF m(1)] m(2,3) ckd by (auto simp: algebra_simps)
qed

lemma sample_matches:
  "input_matches sample_prims (sample_descriptor BranchExternal) (Some (sample_descriptor BranchInternal))
     (Fingerprint 3 3 3 3) (Fingerprint 1 1 1 1) 0 (ps_inputs sample_psbt ! 0)"
proof -
  let ?out = "sample_out BranchExternal 5"
  have keys: "pd_keys (sample_descriptor BranchExternal) = [sample_key (CHR ''C'') 3 BranchExternal,
      sample_key (CHR ''A'') 1 BranchExternal, sample_key (CHR ''B'') 2 BranchExternal]"
    by (simp add: sample_descriptor_def)
  obtain k0 k1 k2 path where mp: "sample_map BranchExternal 5 = [(k0, Fingerprint 3 3 3 3, path),
      (k1, Fingerprint 1 1 1 1, path), (k2, Fingerprint 2 2 2 2, path)]"
      "path = [Hardened 48, Hardened 0, Hardened 0, Hardened 2, Normal (branch_index BranchExternal), Normal 5]"
      "map dc_public_key (do_children ?out) = [k0, k1, k2]"
    using sample_children [OF small_index(1), of BranchExternal] by auto
  obtain c0 c1 c2 where c: "derive_child sample_prims (sample_key (CHR ''C'') 3 BranchExternal) 5 = Ok c0"
      "derive_child sample_prims (sample_key (CHR ''A'') 1 BranchExternal) 5 = Ok c1"
      "do_children ?out = [c0, c1, c2]" "do_sorted_pubkeys ?out = sort_three (map dc_public_key [c0, c1, c2])"
    using sample_out [OF small_index(1), of BranchExternal] unfolding derive_at_Ok [OF keys] by (auto simp: Let_def)
  have k: "k0 = dc_public_key c0" "k1 = dc_public_key c1" using mp(3) c(3) by auto
  have "k0 \<noteq> k1" using sample_child_key [OF c(1)] sample_child_key [OF c(2)] by (simp add: k)
  moreover have "k0 \<in> set (do_sorted_pubkeys ?out)" "k1 \<in> set (do_sorted_pubkeys ?out)" by (simp_all add: c(4) k)
  moreover have "derived_for_input sample_prims (ps_inputs sample_psbt ! 0) 0 (sample_descriptor BranchExternal)
      (Some (sample_descriptor BranchInternal)) = Ok ?out"
    using sample_out [OF small_index(1), of BranchExternal]
    by (simp add: derived_for_input_def branch_and_index_def sample_psbt_def mp(1,2) branch_index_def)
  ultimately show ?thesis
    unfolding input_matches_def
    by (intro exI [of _ ?out] exI [of _ sample_utxo] exI [of _ k0] exI [of _ k1])
      (simp add: sample_psbt_def sample_utxo_def pubkey_for_fingerprint_def mp(1))
qed


lemma sample_signed:
  obtains q st ss' v where "sign_ab sample_prims (sample_device SlotA 3) (sample_device SlotB 1) fake_new sample_psbt
      (sample_text BranchExternal) sample_policy sample_session = (Ok q, st, ss')"
    and "psbt_maps_wf sample_psbt" and "verify sample_prims q (sample_text BranchExternal) sample_policy = Ok v"
    and "signed_by sample_prims (Fingerprint 3 3 3 3) q" and "signed_by sample_prims (Fingerprint 1 1 1 1) q"
    and "ps_unsigned_tx q = sample_tx" and "ps_inputs q = [ps_inputs q ! 0]"
    and "\<forall>i < length (ps_inputs q). input_matches sample_prims (sample_descriptor BranchExternal)
      (Some (sample_descriptor BranchInternal)) (Fingerprint 3 3 3 3) (Fingerprint 1 1 1 1) i (ps_inputs q ! i)"
proof (rule sample_sign_ab)
  fix q st ss'
  assume s: "sign_ab sample_prims (sample_device SlotA 3) (sample_device SlotB 1) fake_new sample_psbt
      (sample_text BranchExternal) sample_policy sample_session = (Ok q, st, ss')" and wf: "psbt_maps_wf sample_psbt"
  note r = sign_ab_local_Ok [OF s wf]
  then have skel: "same_skeleton sample_psbt q" by blast
  have len: "length (ps_inputs sample_psbt) = 1" by (simp add: sample_psbt_def)
  have one: "length (ps_inputs q) = 1" using skel by (simp add: same_skeleton_def len)
  obtain sg sht where q0: "ps_inputs q ! 0 = (ps_inputs sample_psbt ! 0)\<lparr>in_partial_sigs := sg, in_sighash_type := sht\<rparr>"
    using skel unfolding same_skeleton_def len by auto
  have "input_matches sample_prims (sample_descriptor BranchExternal)
      (Some (sample_descriptor BranchInternal)) (Fingerprint 3 3 3 3) (Fingerprint 1 1 1 1) 0 (ps_inputs q ! 0)"
    unfolding q0 input_matches_skeleton by (rule sample_matches)
  then have "\<forall>i < length (ps_inputs q). input_matches sample_prims (sample_descriptor BranchExternal)
      (Some (sample_descriptor BranchInternal)) (Fingerprint 3 3 3 3) (Fingerprint 1 1 1 1) i (ps_inputs q ! i)"
    by (simp add: one)
  moreover have "ps_unsigned_tx q = sample_tx" using same_skeleton_tx [OF skel] by (simp add: sample_psbt_def)
  moreover have "ps_inputs q = [ps_inputs q ! 0]" using one by (cases "ps_inputs q") auto
  ultimately show thesis using that [OF s wf] r by (auto simp: sample_signer_def)
qed

lemma sample_change: "parsed_change sample_prims sample_policy = Ok (Some (sample_descriptor BranchInternal))"
  by (simp add: parsed_change_def sample_policy_def sample_parse)

lemma sample_finalize:
  obtains q st ss' tx where "sign_ab sample_prims (sample_device SlotA 3) (sample_device SlotB 1) fake_new sample_psbt
      (sample_text BranchExternal) sample_policy sample_session = (Ok q, st, ss')"
    and "finalize sample_prims q (sample_text BranchExternal) sample_policy = Ok tx" and "ps_unsigned_tx q = sample_tx"
proof (rule sample_signed)
  fix q st ss' v
  let ?R = "sample_descriptor BranchExternal" and ?I = "Some (sample_descriptor BranchInternal)"
  assume s: "sign_ab sample_prims (sample_device SlotA 3) (sample_device SlotB 1) fake_new sample_psbt
      (sample_text BranchExternal) sample_policy sample_session = (Ok q, st, ss')"
    and v: "verify sample_prims q (sample_text BranchExternal) sample_policy = Ok v"
    and sigs: "signed_by sample_prims (Fingerprint 3 3 3 3) q" "signed_by sample_prims (Fingerprint 1 1 1 1) q"
    and tx: "ps_unsigned_tx q = sample_tx" and one: "ps_inputs q = [ps_inputs q ! 0]"
    and m: "\<forall>i < length (ps_inputs q). input_matches sample_prims ?R ?I (Fingerprint 3 3 3 3) (Fingerprint 1 1 1 1) i (ps_inputs q ! i)"
  note f = verified_inputs_finish [OF v sample_parse sample_change m sigs]
  obtain e w where iw: "input_witness sample_prims q ?R ?I sample_policy 0 (ps_inputs q ! 0) = Ok (e, w)"
    using f(1,5) by auto
  obtain op known where e: "e = (op, known)" by (cases e)
  have op: "op = OutPoint (replicate 32 7) 0"
    using iw by (auto simp: e input_witness_def res_simps index_res_def Let_def tx sample_tx_def split: if_splits)
  let ?tx = "extract_tx (set_final_witness 0 w q)"
  obtain inp where inp: "ps_inputs q = [inp]" using one by metis
  have ins: "map ti_previous_output (tx_input ?tx) = [OutPoint (replicate 32 7) 0]" and outs: "tx_output ?tx = tx_output sample_tx"
    using inp by (simp_all add: extract_tx_def set_final_witness_def tx) (simp_all add: sample_tx_def)
  obtain t where t: "tx_input ?tx = [t]" "ti_previous_output t = OutPoint (replicate 32 7) 0" using ins by auto
  have ok: "verify_transaction sample_prims ?tx [(op, known)]"
    by (simp add: verify_transaction_def t op btree_get_def) (simp add: sample_prims_def)
  have vs: "tx_vsize sample_prims ?tx = 120" by (simp add: sample_prims_def outs sample_tx_def)
  have fee: "vd_fee_sats v = 1000"
    using v by (rule verify_Ok)
      (use check_v5_Ok(5) in \<open>fastforce simp: sample_policy_def\<close>)
  have loop: "for_in (\<lambda>i inp (spent, finished).
      res_bind (input_witness sample_prims q ?R ?I sample_policy i inp) (\<lambda>((prevout, known), w).
      Ok (btree_insert prevout known spent, set_final_witness i w finished))) 0 (ps_inputs q) ([], q)
    = Ok ([(op, known)], set_final_witness 0 w q)"
    by (subst one) (simp add: iw e)
  have "finalize sample_prims q (sample_text BranchExternal) sample_policy = Ok ?tx"
    using f(2-5) ok
    by (simp add: finalize_def sample_parse parsed_change_sign [OF sample_change] loop Let_def vs fee div_ceil_def)
      (simp add: sample_policy_def)
  then show thesis using that s tx by blast
qed

section \<open>Properties\<close>

text \<open>
  C7: a finished transaction is the requested one. It differs from the unsigned transaction only
  in the script data of its inputs, spends pairwise different outputs that the wallet knows,
  each with the consent of the script interpreter for the recorded script and amount, and pays a
  positive fee, the known input amounts less the outputs, of at most the policy's feerate times
  its own size.
\<close>

theorem finalize_transaction:
  assumes "finalize pr p d vp = Ok tx"
  shows "tx\<lparr>tx_input := tx_input (ps_unsigned_tx p)\<rparr> = ps_unsigned_tx p
    \<and> length (tx_input tx) = length (tx_input (ps_unsigned_tx p))
    \<and> distinct (map ti_previous_output (tx_input tx))
    \<and> (\<forall>i < length (tx_input tx).
         ti_previous_output (tx_input tx ! i) = ti_previous_output (tx_input (ps_unsigned_tx p) ! i)
         \<and> ti_sequence (tx_input tx ! i) = ti_sequence (tx_input (ps_unsigned_tx p) ! i)
         \<and> (\<exists>known. btree_get (vp_known_utxos vp) (ti_previous_output (tx_input tx ! i)) = Some known
              \<and> verify_script pr (to_script_pubkey known) i (to_value known) tx))
    \<and> (\<exists>fee. 0 < fee \<and> fee \<le> unat (vp_max_feerate vp) * unat (tx_vsize pr tx)
         \<and> (\<Sum>t\<leftarrow>tx_input tx. unat (to_value (the (btree_get (vp_known_utxos vp) (ti_previous_output t)))))
             = (\<Sum>out\<leftarrow>tx_output tx. unat (to_value out)) + fee)"
proof -
  from assms obtain fee rate where f: "psbt_fee p = Ok fee" "fee \<noteq> 0" "div_ceil fee (tx_vsize pr tx) = Some rate"
      "rate \<le> vp_max_feerate vp" and len: "length (ps_inputs p) = length (tx_input (ps_unsigned_tx p))"
    by (rule finalize_Ok)
  have "ps_inputs p \<noteq> []" using assms by (auto simp: finalize_def)
  then have zero: "0 < length (ps_inputs p)" by simp
  note i = finalize_inputs [OF assms]
  have val: "\<exists>u known. in_witness_utxo (ps_inputs p ! j) = Some u \<and> to_value u = to_value known
      \<and> btree_get (vp_known_utxos vp) (ti_previous_output (tx_input tx ! j)) = Some known"
    if "j < length (ps_inputs p)" for j
    using i(1) [OF that]
    by (auto simp: input_witness_def res_simps index_res_def Let_def split: if_splits)
  have wit: "\<forall>inp\<in>set (ps_inputs p). in_witness_utxo inp \<noteq> None" using val by (fastforce simp: in_set_conv_nth)
  have "(\<Sum>t\<leftarrow>tx_input tx. unat (to_value (the (btree_get (vp_known_utxos vp) (ti_previous_output t))))) = inputs_value p"
    unfolding inputs_value_def
  proof (rule arg_cong [of _ _ sum_list], rule nth_equalityI)
    fix j
    assume "j < length (map (\<lambda>t. unat (to_value (the (btree_get (vp_known_utxos vp) (ti_previous_output t))))) (tx_input tx))"
    then have "j < length (ps_inputs p)" using i(3) [OF zero] by simp
    then show "map (\<lambda>t. unat (to_value (the (btree_get (vp_known_utxos vp) (ti_previous_output t))))) (tx_input tx) ! j
        = map (\<lambda>i. case in_witness_utxo i of None \<Rightarrow> 0 | Some u \<Rightarrow> unat (to_value u)) (ps_inputs p) ! j"
      using val i(3) [OF zero] by fastforce
  qed (simp add: i(3) [OF zero])
  moreover have "tx_output tx = tx_output (ps_unsigned_tx p)"
    using i(2) [OF zero] by (metis transaction.select_convs(4) transaction.surjective transaction.update_convs(3))
  moreover have "unat fee \<le> unat (vp_max_feerate vp) * unat (tx_vsize pr tx)"
    using div_ceil_bound [OF f(3)] f(4) by (meson le_trans mult_le_mono1 word_le_nat_alt)
  moreover have "0 < unat fee" using f(2) by (simp add: unat_gt_0)
  ultimately show ?thesis
    using i(1,5) i(2,3,4,6) [OF zero] f(1) unfolding psbt_fee_Ok [OF wit len] by (metis (no_types, lifting))
qed


theorem finalize_transaction_witness:
  "\<exists>q tx. finalize sample_prims q (sample_text BranchExternal) sample_policy = Ok tx
     \<and> tx_output tx = tx_output sample_tx \<and> distinct (map ti_previous_output (tx_input tx))"
proof (rule sample_finalize)
  fix q st ss' tx
  assume f: "finalize sample_prims q (sample_text BranchExternal) sample_policy = Ok tx"
    and q: "ps_unsigned_tx q = sample_tx"
  note r = finalize_transaction [OF f, unfolded q]
  then have "tx_output tx = tx_output sample_tx"
    by (metis transaction.select_convs(4) transaction.surjective transaction.update_convs(3))
  then show ?thesis using r f by blast
qed

text \<open>
  C15: every input of a finished transaction spends an output of this wallet's own 2-of-3 script,
  derived from the receive or the change descriptor, with the witness that script asks for: an
  empty element, the SIGHASH_ALL signatures of two of its three keys in the order of the sorted
  keys, and the witness script.
\<close>

theorem finalize_witness:
  assumes "finalize pr p d vp = Ok tx" and "i < length (tx_input tx)"
  shows "\<exists>desc index out known a b s0 s1.
    (parse pr d = Ok desc \<or> (\<exists>s. vp_change_descriptor vp = Some s \<and> parse pr s = Ok desc))
    \<and> derive_at pr desc index = Ok out
    \<and> btree_get (vp_known_utxos vp) (ti_previous_output (tx_input tx ! i)) = Some known
    \<and> to_script_pubkey known = do_script_pubkey out
    \<and> a < b \<and> b < length (do_sorted_pubkeys out)
    \<and> sig_of (in_partial_sigs (ps_inputs p ! i)) (do_sorted_pubkeys out ! a) = Some s0
    \<and> sig_of (in_partial_sigs (ps_inputs p ! i)) (do_sorted_pubkeys out ! b) = Some s1
    \<and> sig_sighash_type s0 = SighashAll \<and> sig_sighash_type s1 = SighashAll
    \<and> ti_witness (tx_input tx ! i) = [[], serialize_signature pr s0, serialize_signature pr s1, do_witness_script out]"
proof -
  have "ps_inputs p \<noteq> []" using assms(1) by (auto simp: finalize_def)
  then have i: "i < length (ps_inputs p)" using finalize_inputs(3) [OF assms(1), of 0] assms(2) by simp
  obtain receive change prevout known w where r: "parse pr d = Ok receive"
      "\<forall>c. change = Some c \<longrightarrow> (\<exists>s. vp_change_descriptor vp = Some s \<and> parse pr s = Ok c)"
      "input_witness pr p receive change vp i (ps_inputs p ! i) = Ok ((prevout, known), w)"
      "ti_witness (tx_input tx ! i) = w" "prevout = ti_previous_output (tx_input tx ! i)"
    using finalize_inputs(1) [OF assms(1) i] by (elim exE conjE) (rule that; assumption)
  have "length (pd_keys receive) = 3" "\<forall>c. change = Some c \<longrightarrow> length (pd_keys c) = 3"
    using r(1,2) parse_length by blast+
  from input_witness_Ok [OF r(3) this] obtain desc index out s0 s1 rest where
    w: "btree_get (vp_known_utxos vp) prevout = Some known" "desc = receive \<or> change = Some desc"
      "derive_at pr desc index = Ok out" "to_script_pubkey known = do_script_pubkey out"
      "sigs_in_order (in_partial_sigs (ps_inputs p ! i)) (do_sorted_pubkeys out) = s0 # s1 # rest"
      "sig_sighash_type s0 = SighashAll" "sig_sighash_type s1 = SighashAll"
      "w = [[], serialize_signature pr s0, serialize_signature pr s1, do_witness_script out]"
    by (elim exE conjE) (rule that; assumption)
  then have "parse pr d = Ok desc \<or> (\<exists>s. vp_change_descriptor vp = Some s \<and> parse pr s = Ok desc)"
    using r(1,2) by blast
  moreover obtain a b where "a < b" "b < length (do_sorted_pubkeys out)"
      "sig_of (in_partial_sigs (ps_inputs p ! i)) (do_sorted_pubkeys out ! a) = Some s0"
      "sig_of (in_partial_sigs (ps_inputs p ! i)) (do_sorted_pubkeys out ! b) = Some s1"
    using sigs_in_order_positions [OF w(5)] by blast
  ultimately show ?thesis
    using w(1,3,4,6-8) r(4,5)
    by (intro exI [of _ desc] exI [of _ index] exI [of _ out] exI [of _ known] exI [of _ a] exI [of _ b]
        exI [of _ s0] exI [of _ s1]) simp
qed

theorem finalize_witness_witness:
  "\<exists>q tx (out :: derived_output) s0 s1. finalize sample_prims q (sample_text BranchExternal) sample_policy = Ok tx
     \<and> ti_witness (tx_input tx ! 0)
         = [[], serialize_signature sample_prims s0, serialize_signature sample_prims s1, do_witness_script out]"
proof (rule sample_finalize)
  fix q st ss' tx
  assume f: "finalize sample_prims q (sample_text BranchExternal) sample_policy = Ok tx"
  have "ps_inputs q \<noteq> []" using f by (auto simp: finalize_def)
  then have "0 < length (tx_input tx)" using finalize_inputs(3) [OF f, of 0] by simp
  from finalize_witness [OF f this] obtain out :: derived_output and s0 s1 where "ti_witness (tx_input tx ! 0)
      = [[], serialize_signature sample_prims s0, serialize_signature sample_prims s1, do_witness_script out]"
    by (elim exE conjE)
  with f show ?thesis by blast
qed



end
