(* ===== verification/Fake_Clock.thy ===== *)
theory Fake_Clock
  imports Spend_Window
begin

text \<open>
  \<open>crates/trinity-signer/src/clock.rs\<close>: the settable clock and the settable chain tip that
  stand in for the platform. \<open>FakeClock::advance\<close> is a compare-and-exchange loop that several
  threads may run at once; the step relation \<open>cas_step\<close> interleaves its atomic operations.

  The lemmas show that the interleaving cannot matter: the clock never runs backwards, the last
  thread to finish leaves the saturated sum of all increments, and without spurious failures of
  the weak exchange every run ends.
\<close>

subsection \<open>The clock\<close>

record fake_clock =
  fc_now_ns :: u64
  fc_boot_id :: u64

definition fake_clock_new :: fake_clock where
  "fake_clock_new = \<lparr>fc_now_ns = 0, fc_boot_id = 1\<rparr>"

definition fake_clock_set :: "fake_clock \<Rightarrow> duration \<Rightarrow> fake_clock" where
  "fake_clock_set c now = c\<lparr>fc_now_ns := duration_as_ns now\<rparr>"

definition fake_clock_reboot :: "fake_clock \<Rightarrow> fake_clock" where
  "fake_clock_reboot c = c\<lparr>fc_now_ns := 0, fc_boot_id := fc_boot_id c + 1\<rparr>"

definition fake_clock_now :: "fake_clock \<Rightarrow> duration" where
  "fake_clock_now c = duration_from_nanos (fc_now_ns c)"

definition fake_clock_boot_id :: "fake_clock \<Rightarrow> u64 option" where
  "fake_clock_boot_id c = Some (fc_boot_id c)"

type_synonym fake_tip = "u32 option"

definition fake_tip_new :: "u32 option \<Rightarrow> fake_tip" where "fake_tip_new t = t"

definition fake_tip_set :: "fake_tip \<Rightarrow> u32 option \<Rightarrow> fake_tip" where "fake_tip_set s t = t"

definition fake_tip_height :: "fake_tip \<Rightarrow> u32 option" where "fake_tip_height s = s"

text \<open>What a window operation reads from a fake clock and a fake tip.\<close>

definition fake_observation :: "fake_clock \<Rightarrow> fake_tip \<Rightarrow> u64 option \<Rightarrow> observation" where
  "fake_observation c t wall = \<lparr>ob_now = fake_clock_now c, ob_boot_id = fake_clock_boot_id c,
     ob_tip_height = fake_tip_height t, ob_wall_unix_ns = wall\<rparr>"

subsection \<open>Advancing\<close>

text \<open>
  A thread in \<open>advance\<close>: before the load, inside the loop with the value it last read, or
  returned. The increment is already saturated to 64 bits.
\<close>

datatype adv_pc = AdvStart u64 | AdvLoop u64 u64 | AdvDone

definition advance_call :: "duration \<Rightarrow> adv_pc" where
  "advance_call delta = AdvStart (duration_as_ns delta)"

text \<open>The atomic operations of one thread; the flag says whether an exchange may fail spuriously.\<close>

inductive cas_step :: "bool \<Rightarrow> u64 \<times> adv_pc list \<Rightarrow> u64 \<times> adv_pc list \<Rightarrow> bool" for weak where
  load: "cas_step weak (now, ts) (now, ts[i := AdvLoop now extra])"
    if "i < length ts" and "ts ! i = AdvStart extra"
| exchanged: "cas_step weak (now, ts) (sat_add seen extra, ts[i := AdvDone])"
    if "i < length ts" and "ts ! i = AdvLoop seen extra" and "now = seen"
| changed: "cas_step weak (now, ts) (now, ts[i := AdvLoop now extra])"
    if "i < length ts" and "ts ! i = AdvLoop seen extra" and "now \<noteq> seen"
| spurious: "cas_step weak (now, ts) (now, ts[i := AdvLoop now extra])"
    if "i < length ts" and "ts ! i = AdvLoop seen extra" and "now = seen" and weak

inductive_cases cas_step_cases: "cas_step weak s s'"

text \<open>One thread on its own: the loop succeeds at once.\<close>

definition fake_clock_advance :: "fake_clock \<Rightarrow> duration \<Rightarrow> fake_clock" where
  "fake_clock_advance c delta = c\<lparr>fc_now_ns := sat_add (fc_now_ns c) (duration_as_ns delta)\<rparr>"

text \<open>What the threads that have not returned will still add.\<close>

fun pending :: "adv_pc \<Rightarrow> nat" where
  "pending (AdvStart extra) = unat extra"
| "pending (AdvLoop seen extra) = unat extra"
| "pending AdvDone = 0"

definition clock_total :: "u64 \<times> adv_pc list \<Rightarrow> nat" where
  "clock_total s = min (unat (fst s) + (\<Sum>t\<leftarrow>snd s. pending t)) (2 ^ 64 - 1)"

fun stale :: "u64 \<Rightarrow> adv_pc \<Rightarrow> nat" where
  "stale now (AdvStart extra) = 2"
| "stale now (AdvLoop seen extra) = (if seen = now then 0 else 1)"
| "stale now AdvDone = 0"

definition not_done :: "adv_pc list \<Rightarrow> nat" where
  "not_done ts = length (filter (\<lambda>t. t \<noteq> AdvDone) ts)"

text \<open>Each step of the strong loop lowers the measure: threads returned, then values to reread.\<close>

definition cas_measure :: "u64 \<times> adv_pc list \<Rightarrow> nat \<times> nat" where
  "cas_measure s = (not_done (snd s), \<Sum>t\<leftarrow>snd s. stale (fst s) t)"

section \<open>Lemmas\<close>

lemma sum_list_update_nat:
  "i < length xs \<Longrightarrow> sum_list (map f (xs[i := x])) + f (xs ! i) = sum_list (map f xs) + (f x :: nat)"
  by (induction xs arbitrary: i) (auto split: nat.splits)

lemma cas_step_total: "cas_step weak s s' \<Longrightarrow> clock_total s' = clock_total s"
proof (induction rule: cas_step.induct)
  case (load i ts extra now)
  then show ?case using sum_list_update_nat [of i ts pending "AdvLoop now extra"] by (simp add: clock_total_def)
next
  case (exchanged i ts seen extra now)
  then have "(\<Sum>t\<leftarrow>ts[i := AdvDone]. pending t) + unat extra = (\<Sum>t\<leftarrow>ts. pending t)"
    using sum_list_update_nat [of i ts pending AdvDone] by simp
  then show ?case using exchanged by (auto simp: clock_total_def unat_sat_add)
next
  case (changed i ts seen extra now)
  then show ?case using sum_list_update_nat [of i ts pending "AdvLoop now extra"] by (simp add: clock_total_def)
next
  case (spurious i ts seen extra now)
  then show ?case using sum_list_update_nat [of i ts pending "AdvLoop now extra"] by (simp add: clock_total_def)
qed

lemma cas_step_mono: "cas_step weak s s' \<Longrightarrow> fst s \<le> fst s'"
proof (induction rule: cas_step.induct)
  case (exchanged i ts seen extra now)
  then show ?case using unat_lt2p [of seen] by (auto simp: word_le_nat_alt unat_sat_add)
qed simp_all

lemma cas_step_length: "cas_step weak s s' \<Longrightarrow> length (snd s') = length (snd s)"
  by (induction rule: cas_step.induct) auto

lemma cas_steps:
  assumes "(cas_step weak)\<^sup>*\<^sup>* s s'"
  shows "clock_total s' = clock_total s" and "fst s \<le> fst s'" and "length (snd s') = length (snd s)"
  using assms
  by (induction rule: rtranclp_induct) (auto dest: cas_step_total cas_step_mono cas_step_length)

lemma pending_done: "not_done ts = 0 \<Longrightarrow> (\<Sum>t\<leftarrow>ts. pending t) = 0"
  by (induction ts) (auto simp: not_done_def split: if_splits)

lemma not_done_update:
  "i < length ts \<Longrightarrow> ts ! i \<noteq> AdvDone \<Longrightarrow> not_done (ts[i := t]) = (if t = AdvDone then not_done ts - 1 else not_done ts)
    \<and> 0 < not_done ts"
  unfolding not_done_def
proof (induction ts arbitrary: i)
  case (Cons x ts)
  then show ?case by (cases i) (auto split: if_splits)
qed simp


lemma cas_measure_decreases:
  assumes "cas_step False s s'"
  shows "(cas_measure s', cas_measure s) \<in> less_than <*lex*> less_than"
  using assms
proof (cases rule: cas_step.cases)
  case (load i ts extra now)
  then show ?thesis
    using not_done_update [of i ts "AdvLoop now extra"] sum_list_update_nat [of i ts "stale now" "AdvLoop now extra"]
    by (simp add: cas_measure_def)
next
  case (exchanged i ts seen extra now)
  then show ?thesis using not_done_update [of i ts AdvDone] by (simp add: cas_measure_def)
next
  case (changed i ts seen extra now)
  then show ?thesis
    using not_done_update [of i ts "AdvLoop now extra"] sum_list_update_nat [of i ts "stale now" "AdvLoop now extra"]
    by (auto simp: cas_measure_def)
qed simp

lemma cas_step_exists:
  assumes "not_done ts \<noteq> 0"
  shows "\<exists>s'. cas_step False (now, ts) s'"
proof -
  obtain i where i: "i < length ts" "ts ! i \<noteq> AdvDone"
    using assms by (auto simp: not_done_def filter_empty_conv in_set_conv_nth)
  show ?thesis
  proof (cases "ts ! i")
    case (AdvStart extra)
    then show ?thesis using cas_step.load [OF i(1)] by blast
  next
    case (AdvLoop seen extra)
    then show ?thesis using cas_step.exchanged [OF i(1)] cas_step.changed [OF i(1)] by (cases "now = seen") blast+
  qed (use i in simp)
qed

lemma advances_in_sequence:
  "unat (fc_now_ns (foldl fake_clock_advance c deltas))
     = min (unat (fc_now_ns c) + (\<Sum>d\<leftarrow>deltas. unat (duration_as_ns d))) (2 ^ 64 - 1)"
proof (induction deltas arbitrary: c)
  case Nil
  then show ?case using unat_lt2p [of "fc_now_ns c"] by simp
next
  case (Cons d deltas)
  then show ?case by (auto simp: fake_clock_advance_def unat_sat_add)
qed

section \<open>Properties\<close>

text \<open>
  C22: concurrent advances of the clock are as good as sequential ones. Whatever the interleaving
  of the threads' loads and exchanges, and however often an exchange fails, the clock never
  moves backwards, and once every thread has returned it shows exactly what the same advances
  give one after the other: their sum, saturated.
\<close>

theorem concurrent_advance_exact:
  assumes "(cas_step weak)\<^sup>*\<^sup>* (fc_now_ns c, map advance_call deltas) (now', ts')"
  shows "fc_now_ns c \<le> now'
    \<and> (not_done ts' = 0 \<longrightarrow> now' = fc_now_ns (foldl fake_clock_advance c deltas))"
proof -
  have pend: "(\<Sum>t\<leftarrow>map advance_call deltas. pending t) = (\<Sum>d\<leftarrow>deltas. unat (duration_as_ns d))"
    by (simp add: o_def advance_call_def)
  have "now' = fc_now_ns (foldl fake_clock_advance c deltas)" if "not_done ts' = 0"
  proof -
    have "unat now' = min (unat (fc_now_ns c) + (\<Sum>d\<leftarrow>deltas. unat (duration_as_ns d))) (2 ^ 64 - 1)"
      using cas_steps(1) [OF assms] pending_done [OF that] pend unat_lt2p [of now'] by (simp add: clock_total_def)
    then show ?thesis by (simp add: word_unat_eq_iff advances_in_sequence)
  qed
  then show ?thesis using cas_steps(2) [OF assms] by simp
qed

theorem concurrent_advance_exact_witness:
  "\<exists>ts. (cas_step False)\<^sup>*\<^sup>* (fc_now_ns fake_clock_new, map advance_call [5, 7]) (12, ts) \<and> not_done ts = 0
     \<and> (12 :: u64) = fc_now_ns (foldl fake_clock_advance fake_clock_new [5, 7])"
proof -
  have d: "duration_as_ns 5 = 5" "duration_as_ns 7 = 7" by (simp_all add: duration_as_ns_def)
  let ?R = "(cas_step False)\<^sup>*\<^sup>*"
  have 1: "cas_step False (0, [AdvStart 5, AdvStart 7]) (0, [AdvLoop 0 5, AdvStart 7])"
    using cas_step.load [of 0 "[AdvStart 5, AdvStart 7]" 5 False 0] by simp
  have 2: "cas_step False (0, [AdvLoop 0 5, AdvStart 7]) (0, [AdvLoop 0 5, AdvLoop 0 7])"
    using cas_step.load [of 1 "[AdvLoop 0 5, AdvStart 7]" 7 False 0] by simp
  have 3: "cas_step False (0, [AdvLoop 0 5, AdvLoop 0 7]) (5, [AdvDone, AdvLoop 0 7])"
    using cas_step.exchanged [of 0 "[AdvLoop 0 5, AdvLoop 0 7]" 0 5 0 False] by (simp add: sat_add_def)
  have 4: "cas_step False (5, [AdvDone, AdvLoop 0 7]) (5, [AdvDone, AdvLoop 5 7])"
    using cas_step.changed [of 1 "[AdvDone, AdvLoop 0 7]" 0 7 5 False] by simp
  have 5: "cas_step False (5, [AdvDone, AdvLoop 5 7]) (12, [AdvDone, AdvDone])"
    using cas_step.exchanged [of 1 "[AdvDone, AdvLoop 5 7]" 5 7 5 False] by (simp add: sat_add_def)
  have run: "?R (fc_now_ns fake_clock_new, map advance_call [5, 7]) (12, [AdvDone, AdvDone])"
    using 1 2 3 4 5 by (auto simp: fake_clock_new_def advance_call_def d intro: converse_rtranclp_into_rtranclp)
  moreover have "not_done [AdvDone, AdvDone] = 0" by (simp add: not_done_def)
  ultimately show ?thesis using concurrent_advance_exact [OF run] by blast
qed

text \<open>
  C37: advancing the clock terminates under contention. Every interleaving of the threads'
  operations is finite when exchanges fail only because the value changed, and as long as some
  thread has not returned, some step is possible.
\<close>

theorem concurrent_advance_terminates:
  "wf {(s', s). cas_step False s s'}
   \<and> (not_done ts = 0 \<or> (\<exists>s'. cas_step False (now, ts) s'))"
proof -
  have "wf (inv_image (less_than <*lex*> less_than) cas_measure)" by (intro wf_inv_image wf_lex_prod wf_less_than)
  then have "wf {(s', s). cas_step False s s'}"
    by (rule wf_subset) (auto simp: cas_measure_decreases)
  then show ?thesis using cas_step_exists by blast
qed

end
