(* ===== verification/Chain_Backend.thy ===== *)
theory Chain_Backend
  imports Bitcoin_Data
begin

text \<open>
  \<open>crates/trinity-chain/src/\<close>: the \<open>ChainBackend\<close> trait (\<open>backend.rs\<close>), its errors, fee
  estimates and privacy profiles (\<open>error.rs\<close>, \<open>fee.rs\<close>, \<open>privacy.rs\<close>), the in-memory backend
  (\<open>memory.rs\<close>) and the composition of two backends (\<open>split.rs\<close>). A backend is a record of the
  trait's methods over its state; scan requests and wallet updates are the types of the wallet
  library and stay parameters.

  The lemmas show that a composed backend keeps its two sides apart, and which transactions the
  in-memory backend records. The locale \<open>announcing_backend\<close> is the contract of a backend that
  records what it announced; the composition inherits it from its broadcast side.
\<close>

subsection \<open>Errors, fees and privacy\<close>

datatype chain_error =
    CE_Network string
  | CE_Protocol string
  | CE_Broadcast string
  | CE_DeliveryUnconfirmed
  | CE_Unavailable string
  | CE_Other string

record fee_estimates =
  sat_per_vb_by_target_blocks :: "(u32 \<times> u64) list"

definition fees_empty :: fee_estimates where
  "fees_empty = \<lparr>sat_per_vb_by_target_blocks = []\<rparr>"

definition fees_from_targets :: "(u32 \<times> u64) list \<Rightarrow> fee_estimates" where
  "fees_from_targets targets =
     \<lparr>sat_per_vb_by_target_blocks = foldl (\<lambda>m (t, r). btree_insert t r m) [] targets\<rparr>"

definition sat_per_vb_for :: "fee_estimates \<Rightarrow> u32 \<Rightarrow> u64 option" where
  "sat_per_vb_for e target_blocks = btree_get (sat_per_vb_by_target_blocks e) target_blocks"

definition fees_is_empty :: "fee_estimates \<Rightarrow> bool" where
  "fees_is_empty e \<longleftrightarrow> sat_per_vb_by_target_blocks e = []"

datatype backend_kind = ElectrumOwnServer | ElectrumThirdParty | CoreRpc | Cbf | InMemory

fun backend_kind_str :: "backend_kind \<Rightarrow> string" where
  "backend_kind_str ElectrumOwnServer = ''electrum_own_server''"
| "backend_kind_str ElectrumThirdParty = ''electrum_third_party''"
| "backend_kind_str CoreRpc = ''core_rpc''"
| "backend_kind_str Cbf = ''cbf''"
| "backend_kind_str InMemory = ''in_memory''"

record privacy_profile =
  pp_kind :: backend_kind
  counterparty_learns :: string
  magnitude :: string
  reveals_full_wallet_graph :: bool
  third_party_counterparty :: bool
  requires_selection_warning :: bool

definition profile_electrum_own_server :: privacy_profile where
  "profile_electrum_own_server = \<lparr>pp_kind = ElectrumOwnServer,
     counterparty_learns = ''All scriptPubKeys, the full wallet graph, every balance, every sync time, the IP.'',
     magnitude = ''Only own hoster/VPS provider '' @ map char_of [0xE2 :: nat, 0x80, 0x94] @
       '' when run at home: nobody outside.'',
     reveals_full_wallet_graph = True, third_party_counterparty = False, requires_selection_warning = False\<rparr>"

definition profile_electrum_third_party :: privacy_profile where
  "profile_electrum_third_party = \<lparr>pp_kind = ElectrumThirdParty,
     counterparty_learns = ''All scriptPubKeys, the full wallet graph, every balance, every sync time, the IP. '' @
       ''The wallet is fully deanonymized toward this server.'',
     magnitude = ''Must stand unmistakeably in the UI, not on a help page.'',
     reveals_full_wallet_graph = True, third_party_counterparty = True, requires_selection_warning = True\<rparr>"

definition profile_core_rpc :: privacy_profile where
  "profile_core_rpc = \<lparr>pp_kind = CoreRpc,
     counterparty_learns = ''Nothing beyond the node. The node itself leaks no wallet information on P2P traffic '' @
       ''(no bloom filter).'',
     magnitude = ''Best option when a node exists.'',
     reveals_full_wallet_graph = False, third_party_counterparty = False, requires_selection_warning = False\<rparr>"

definition profile_cbf :: privacy_profile where
  "profile_cbf = \<lparr>pp_kind = Cbf,
     counterparty_learns = ''Peers learn: an IP loads headers and filters (reveals nothing about the wallet) '' @
       ''and then loads certain blocks fully (reveals: in this block there is likely a transaction relevant to me). '' @
       ''Across many blocks that is a statistical leak.'',
     magnitude = ''Clearly better than Electrum, not zero.'',
     reveals_full_wallet_graph = False, third_party_counterparty = True, requires_selection_warning = False\<rparr>"

definition profile_in_memory :: privacy_profile where
  "profile_in_memory = \<lparr>pp_kind = InMemory,
     counterparty_learns = ''Nothing '' @ map char_of [0xE2 :: nat, 0x80, 0x94] @ '' no network peer. Test-only double.'',
     magnitude = ''No external observer.'',
     reveals_full_wallet_graph = False, third_party_counterparty = False, requires_selection_warning = False\<rparr>"

subsection \<open>The backend trait\<close>

record ('s, 'fr, 'sr, 'u) chain_backend =
  cb_full_scan :: "'s \<Rightarrow> 'fr \<Rightarrow> ('u, chain_error) res \<times> 's"
  cb_sync :: "'s \<Rightarrow> 'sr \<Rightarrow> ('u, chain_error) res \<times> 's"
  cb_broadcast :: "'s \<Rightarrow> transaction \<Rightarrow> (bytes, chain_error) res \<times> 's"
  cb_fee_estimates :: "'s \<Rightarrow> (fee_estimates, chain_error) res \<times> 's"
  cb_tip_height :: "'s \<Rightarrow> (u32, chain_error) res \<times> 's"
  cb_privacy_profile :: "'s \<Rightarrow> privacy_profile"

subsection \<open>The in-memory backend\<close>

record 'u memory_backend =
  mb_tip_height :: u32
  mb_fees :: fee_estimates
  mb_privacy :: privacy_profile
  mb_full_scan_update :: 'u
  mb_sync_update :: 'u
  mb_broadcasted :: "transaction list"
  mb_full_scan_fail :: "string option"
  mb_sync_fail :: "string option"
  mb_broadcast_fail :: "string option"
  mb_fees_fail :: "string option"
  mb_tip_fail :: "string option"

text \<open>The argument is \<open>Update::default()\<close>.\<close>

definition memory_new :: "'u \<Rightarrow> 'u memory_backend" where
  "memory_new update_default = \<lparr>mb_tip_height = 0, mb_fees = fees_empty, mb_privacy = profile_in_memory,
     mb_full_scan_update = update_default, mb_sync_update = update_default, mb_broadcasted = [],
     mb_full_scan_fail = None, mb_sync_fail = None, mb_broadcast_fail = None, mb_fees_fail = None, mb_tip_fail = None\<rparr>"

definition set_tip_height :: "'u memory_backend \<Rightarrow> u32 \<Rightarrow> 'u memory_backend" where
  "set_tip_height m h = m\<lparr>mb_tip_height := h\<rparr>"

definition set_fee_estimates :: "'u memory_backend \<Rightarrow> fee_estimates \<Rightarrow> 'u memory_backend" where
  "set_fee_estimates m fees = m\<lparr>mb_fees := fees\<rparr>"

definition set_full_scan_update :: "'u memory_backend \<Rightarrow> 'u \<Rightarrow> 'u memory_backend" where
  "set_full_scan_update m u = m\<lparr>mb_full_scan_update := u\<rparr>"

definition set_sync_update :: "'u memory_backend \<Rightarrow> 'u \<Rightarrow> 'u memory_backend" where
  "set_sync_update m u = m\<lparr>mb_sync_update := u\<rparr>"

definition fail_next_full_scan :: "'u memory_backend \<Rightarrow> string \<Rightarrow> 'u memory_backend" where
  "fail_next_full_scan m msg = m\<lparr>mb_full_scan_fail := Some msg\<rparr>"

definition fail_next_sync :: "'u memory_backend \<Rightarrow> string \<Rightarrow> 'u memory_backend" where
  "fail_next_sync m msg = m\<lparr>mb_sync_fail := Some msg\<rparr>"

definition fail_next_broadcast :: "'u memory_backend \<Rightarrow> string \<Rightarrow> 'u memory_backend" where
  "fail_next_broadcast m msg = m\<lparr>mb_broadcast_fail := Some msg\<rparr>"

definition fail_next_fee_estimates :: "'u memory_backend \<Rightarrow> string \<Rightarrow> 'u memory_backend" where
  "fail_next_fee_estimates m msg = m\<lparr>mb_fees_fail := Some msg\<rparr>"

definition fail_next_tip_height :: "'u memory_backend \<Rightarrow> string \<Rightarrow> 'u memory_backend" where
  "fail_next_tip_height m msg = m\<lparr>mb_tip_fail := Some msg\<rparr>"

definition memory_full_scan :: "'u memory_backend \<Rightarrow> 'fr \<Rightarrow> ('u, chain_error) res \<times> 'u memory_backend" where
  "memory_full_scan m req =
     (case mb_full_scan_fail m of
        Some msg \<Rightarrow> (Err (CE_Network msg), m\<lparr>mb_full_scan_fail := None\<rparr>)
      | None \<Rightarrow> (Ok (mb_full_scan_update m), m))"

definition memory_sync :: "'u memory_backend \<Rightarrow> 'sr \<Rightarrow> ('u, chain_error) res \<times> 'u memory_backend" where
  "memory_sync m req =
     (case mb_sync_fail m of
        Some msg \<Rightarrow> (Err (CE_Network msg), m\<lparr>mb_sync_fail := None\<rparr>)
      | None \<Rightarrow> (Ok (mb_sync_update m), m))"

definition memory_broadcast :: "prims \<Rightarrow> 'u memory_backend \<Rightarrow> transaction \<Rightarrow> (bytes, chain_error) res \<times> 'u memory_backend" where
  "memory_broadcast pr m tx =
     (case mb_broadcast_fail m of
        Some msg \<Rightarrow> (Err (CE_Broadcast msg), m\<lparr>mb_broadcast_fail := None\<rparr>)
      | None \<Rightarrow> (Ok (compute_txid pr tx), m\<lparr>mb_broadcasted := mb_broadcasted m @ [tx]\<rparr>))"

definition memory_fee_estimates :: "'u memory_backend \<Rightarrow> (fee_estimates, chain_error) res \<times> 'u memory_backend" where
  "memory_fee_estimates m =
     (case mb_fees_fail m of
        Some msg \<Rightarrow> (Err (CE_Unavailable msg), m\<lparr>mb_fees_fail := None\<rparr>)
      | None \<Rightarrow> (Ok (mb_fees m), m))"

definition memory_tip_height :: "'u memory_backend \<Rightarrow> (u32, chain_error) res \<times> 'u memory_backend" where
  "memory_tip_height m =
     (case mb_tip_fail m of
        Some msg \<Rightarrow> (Err (CE_Unavailable msg), m\<lparr>mb_tip_fail := None\<rparr>)
      | None \<Rightarrow> (Ok (mb_tip_height m), m))"

definition memory_as_backend :: "prims \<Rightarrow> ('u memory_backend, 'fr, 'sr, 'u) chain_backend" where
  "memory_as_backend pr = \<lparr>cb_full_scan = memory_full_scan, cb_sync = memory_sync,
     cb_broadcast = memory_broadcast pr, cb_fee_estimates = memory_fee_estimates,
     cb_tip_height = memory_tip_height, cb_privacy_profile = mb_privacy\<rparr>"

subsection \<open>Two backends as one\<close>

text \<open>Runs a call of one side on a pair of states.\<close>

definition on_sync :: "('s \<Rightarrow> 'a \<times> 's) \<Rightarrow> 's \<times> 't \<Rightarrow> 'a \<times> ('s \<times> 't)" where
  "on_sync f st = (let (r, s) = f (fst st) in (r, (s, snd st)))"

definition on_broadcast :: "('t \<Rightarrow> 'a \<times> 't) \<Rightarrow> 's \<times> 't \<Rightarrow> 'a \<times> ('s \<times> 't)" where
  "on_broadcast f st = (let (r, t) = f (snd st) in (r, (fst st, t)))"

definition split_backend ::
    "('s, 'fr, 'sr, 'u) chain_backend \<Rightarrow> ('t, 'fr, 'sr, 'u) chain_backend \<Rightarrow> ('s \<times> 't, 'fr, 'sr, 'u) chain_backend" where
  "split_backend sy bc = \<lparr>
     cb_full_scan = (\<lambda>st req. on_sync (\<lambda>s. cb_full_scan sy s req) st),
     cb_sync = (\<lambda>st req. on_sync (\<lambda>s. cb_sync sy s req) st),
     cb_broadcast = (\<lambda>st tx. on_broadcast (\<lambda>t. cb_broadcast bc t tx) st),
     cb_fee_estimates = (\<lambda>st. on_sync (cb_fee_estimates sy) st),
     cb_tip_height = (\<lambda>st. on_sync (cb_tip_height sy) st),
     cb_privacy_profile = (\<lambda>st. cb_privacy_profile sy (fst st))\<rparr>"

subsection \<open>Sequences of calls\<close>

datatype ('fr, 'sr) chain_call =
  CallFullScan 'fr | CallSync 'sr | CallBroadcast transaction | CallFees | CallTip

datatype 'u chain_answer =
    AnsUpdate "('u, chain_error) res"
  | AnsTxid "(bytes, chain_error) res"
  | AnsFees "(fee_estimates, chain_error) res"
  | AnsTip "(u32, chain_error) res"

fun answer_call :: "('s, 'fr, 'sr, 'u) chain_backend \<Rightarrow> 's \<Rightarrow> ('fr, 'sr) chain_call \<Rightarrow> 'u chain_answer \<times> 's" where
  "answer_call B s (CallFullScan req) = map_prod AnsUpdate id (cb_full_scan B s req)"
| "answer_call B s (CallSync req) = map_prod AnsUpdate id (cb_sync B s req)"
| "answer_call B s (CallBroadcast tx) = map_prod AnsTxid id (cb_broadcast B s tx)"
| "answer_call B s CallFees = map_prod AnsFees id (cb_fee_estimates B s)"
| "answer_call B s CallTip = map_prod AnsTip id (cb_tip_height B s)"

primrec run_calls ::
    "('s, 'fr, 'sr, 'u) chain_backend \<Rightarrow> 's \<Rightarrow> ('fr, 'sr) chain_call list \<Rightarrow> 'u chain_answer list \<times> 's" where
  "run_calls B s [] = ([], s)"
| "run_calls B s (c # cs) =
     (let (a, s) = answer_call B s c; (as, s) = run_calls B s cs in (a # as, s))"

fun is_broadcast :: "('fr, 'sr) chain_call \<Rightarrow> bool" where
  "is_broadcast (CallBroadcast tx) = True"
| "is_broadcast _ = False"

fun is_txid_answer :: "'u chain_answer \<Rightarrow> bool" where
  "is_txid_answer (AnsTxid r) = True"
| "is_txid_answer _ = False"

text \<open>The transactions of the broadcast calls that were answered with a transaction id.\<close>

fun accepted :: "('fr, 'sr) chain_call list \<Rightarrow> 'u chain_answer list \<Rightarrow> transaction list" where
  "accepted (CallBroadcast tx # cs) (AnsTxid (Ok i) # as) = tx # accepted cs as"
| "accepted (c # cs) (a # as) = accepted cs as"
| "accepted _ _ = []"

definition sample_payment :: transaction where
  "sample_payment = \<lparr>tx_version = 2, tx_lock_time = 0, tx_input = [], tx_output = []\<rparr>"

section \<open>Lemmas\<close>

lemma split_call:
  "answer_call (split_backend A B) (s, t) c =
     (if is_broadcast c then map_prod id (Pair s) (answer_call B t c)
      else map_prod id (\<lambda>s. (s, t)) (answer_call A s c))"
  by (cases c) (simp_all add: split_backend_def on_sync_def on_broadcast_def split: prod.splits)

lemma answer_kind: "is_txid_answer (fst (answer_call B s c)) = is_broadcast c"
  by (cases c) (auto simp: map_prod_def split: prod.splits)

lemma split_run:
  "run_calls (split_backend A B) (s, t) cs = (ans, (s', t')) \<Longrightarrow>
     run_calls A s (filter (\<lambda>c. \<not> is_broadcast c) cs) = (filter (\<lambda>a. \<not> is_txid_answer a) ans, s')
     \<and> run_calls B t (filter is_broadcast cs) = (filter is_txid_answer ans, t')"
proof (induction cs arbitrary: s t ans)
  case (Cons c cs)
  show ?case
  proof (cases "is_broadcast c")
    case True
    obtain a t1 where a: "answer_call B t c = (a, t1)" by fastforce
    obtain as where r: "run_calls (split_backend A B) (s, t1) cs = (as, (s', t'))" "ans = a # as"
      using Cons.prems True a by (auto simp: split_call split: prod.splits)
    have "is_txid_answer a" using answer_kind [of B t c] a True by simp
    then show ?thesis using Cons.IH [OF r(1)] True a r(2) by simp
  next
    case False
    obtain a s1 where a: "answer_call A s c = (a, s1)" by fastforce
    obtain as where r: "run_calls (split_backend A B) (s1, t) cs = (as, (s', t'))" "ans = a # as"
      using Cons.prems False a by (auto simp: split_call split: prod.splits)
    have "\<not> is_txid_answer a" using answer_kind [of A s c] a False by simp
    then show ?thesis using Cons.IH [OF r(1)] False a r(2) by simp
  qed
qed simp


text \<open>Of two estimates given for one target the later one counts.\<close>

lemma sat_per_vb_for_from_targets:
  "btree_wf (sat_per_vb_by_target_blocks (fees_from_targets ts))
   \<and> sat_per_vb_for (fees_from_targets ts) t = map_of (rev ts) t"
proof (induction ts rule: rev_induct)
  case Nil
  then show ?case by (simp add: sat_per_vb_for_def fees_from_targets_def btree_get_def btree_wf_def)
next
  case (snoc p ts)
  then show ?case
    by (cases p) (auto simp: sat_per_vb_for_def fees_from_targets_def bt.get_insert bt.wf_insert)
qed

subsection \<open>What was announced\<close>

locale announcing_backend =
  fixes B :: "('s, 'fr, 'sr, 'u) chain_backend"
    and announced :: "'s \<Rightarrow> transaction list"
    and txid_of :: "transaction \<Rightarrow> bytes"
  assumes broadcast_ok: "cb_broadcast B s tx = (Ok i, s') \<Longrightarrow> announced s' = announced s @ [tx] \<and> i = txid_of tx"
    and broadcast_err: "cb_broadcast B s tx = (r, s') \<Longrightarrow> (\<And>i. r \<noteq> Ok i) \<Longrightarrow> announced s' = announced s"
    and full_scan_silent: "announced (snd (cb_full_scan B s fr)) = announced s"
    and sync_silent: "announced (snd (cb_sync B s sr)) = announced s"
    and fees_silent: "announced (snd (cb_fee_estimates B s)) = announced s"
    and tip_silent: "announced (snd (cb_tip_height B s)) = announced s"
begin

lemma call_announces:
  assumes "answer_call B s c = (a, s')"
  shows "announced s' = announced s @ accepted [c] [a]"
proof (cases c)
  case (CallBroadcast tx)
  obtain r where r: "cb_broadcast B s tx = (r, s')" "a = AnsTxid r"
    using assms CallBroadcast by (cases "cb_broadcast B s tx") auto
  show ?thesis
    using broadcast_ok [of s tx] broadcast_err [OF r(1)] r CallBroadcast by (cases r) auto
next
  case (CallFullScan req)
  then show ?thesis using assms full_scan_silent [of s req] by (cases "cb_full_scan B s req") auto
next
  case (CallSync req)
  then show ?thesis using assms sync_silent [of s req] by (cases "cb_sync B s req") auto
next
  case CallFees
  then show ?thesis using assms fees_silent [of s] by (cases "cb_fee_estimates B s") auto
next
  case CallTip
  then show ?thesis using assms tip_silent [of s] by (cases "cb_tip_height B s") auto
qed

lemma accepted_Cons: "accepted (c # cs) (a # as) = accepted [c] [a] @ accepted cs as"
  by (cases "(c # cs, a # as)" rule: accepted.cases) auto

lemma run_announces: "run_calls B s cs = (ans, s') \<Longrightarrow> announced s' = announced s @ accepted cs ans"
proof (induction cs arbitrary: s ans)
  case (Cons c cs)
  obtain a s1 where a: "answer_call B s c = (a, s1)" by fastforce
  obtain as where r: "run_calls B s1 cs = (as, s')" "ans = a # as"
    using Cons.prems a by (auto split: prod.splits)
  show ?case
    using Cons.IH [OF r(1)] call_announces [OF a] r(2) accepted_Cons [of c cs a as] by simp
qed simp

end

text \<open>The contract of the broadcast side is the contract of the composition.\<close>

locale split_announcing = bc: announcing_backend B announced txid_of
  for B :: "('t, 'fr, 'sr, 'u) chain_backend" and announced :: "'t \<Rightarrow> transaction list"
    and txid_of :: "transaction \<Rightarrow> bytes" +
  fixes A :: "('s, 'fr, 'sr, 'u) chain_backend"

sublocale split_announcing \<subseteq> both: announcing_backend "split_backend A B" "\<lambda>st. announced (snd st)" txid_of
proof unfold_locales
  show "announced (snd s') = announced (snd s) @ [tx] \<and> i = txid_of tx"
    if "cb_broadcast (split_backend A B) s tx = (Ok i, s')" for s tx i s'
    using that bc.broadcast_ok [of "snd s" tx]
    by (auto simp: split_backend_def on_broadcast_def split: prod.splits)
  show "announced (snd s') = announced (snd s)"
    if "cb_broadcast (split_backend A B) s tx = (r, s')" "\<And>i. r \<noteq> Ok i" for s tx r s'
    using that bc.broadcast_err [of "snd s" tx r]
    by (auto simp: split_backend_def on_broadcast_def split: prod.splits)
qed (simp_all add: split_backend_def on_sync_def split: prod.splits)

interpretation mem: announcing_backend "memory_as_backend pr" mb_broadcasted "compute_txid pr"
  for pr
  by unfold_locales
    (auto simp: memory_as_backend_def memory_broadcast_def memory_full_scan_def memory_sync_def
      memory_fee_estimates_def memory_tip_height_def split: option.splits)

interpretation mem_split: split_announcing "memory_as_backend pr" mb_broadcasted "compute_txid pr" A
  for pr A
  by unfold_locales

section \<open>Properties\<close>

text \<open>C34: A backend composed of a sync side and a broadcast side keeps them apart over any
  sequence of calls. The sync side answers and ends exactly as if the broadcast calls had never
  been made, so it learns nothing of them; the broadcast side sees the broadcast calls alone; and
  the privacy profile reported is the one of the sync side.\<close>

theorem split_keeps_sides_apart:
  assumes "run_calls (split_backend A B) (s, t) cs = (ans, (s', t'))"
  shows "run_calls A s (filter (\<lambda>c. \<not> is_broadcast c) cs) = (filter (\<lambda>a. \<not> is_txid_answer a) ans, s')
    \<and> run_calls B t (filter is_broadcast cs) = (filter is_txid_answer ans, t')
    \<and> cb_privacy_profile (split_backend A B) (s', t') = cb_privacy_profile A s'"
  using split_run [OF assms] by (simp add: split_backend_def)

text \<open>A sync, an announcement that fails once, its repetition, a tip query.\<close>

theorem split_keeps_sides_apart_witness:
  "run_calls (memory_as_backend sample_prims) (set_tip_height (memory_new (0 :: nat)) 840000)
     (filter (\<lambda>c. \<not> is_broadcast c) [CallSync () :: (unit, unit) chain_call, CallBroadcast sample_payment, CallBroadcast sample_payment, CallTip])
     = ([AnsUpdate (Ok 0), AnsTip (Ok 840000)], set_tip_height (memory_new (0 :: nat)) 840000)"
proof -
  let ?A = "memory_as_backend sample_prims :: (nat memory_backend, unit, unit, nat) chain_backend"
  let ?cs = "[CallSync () :: (unit, unit) chain_call, CallBroadcast sample_payment, CallBroadcast sample_payment, CallTip]"
  let ?s = "set_tip_height (memory_new (0 :: nat)) 840000"
  have "run_calls (split_backend ?A ?A) (?s, fail_next_broadcast (memory_new 0) ''offline'') ?cs
    = ([AnsUpdate (Ok 0), AnsTxid (Err (CE_Broadcast ''offline'')),
        AnsTxid (Ok (compute_txid sample_prims sample_payment)), AnsTip (Ok 840000)],
       (?s, (memory_new 0)\<lparr>mb_broadcasted := [sample_payment]\<rparr>))"
    by (simp add: split_backend_def on_sync_def on_broadcast_def memory_as_backend_def memory_sync_def
      memory_broadcast_def memory_tip_height_def memory_new_def set_tip_height_def fail_next_broadcast_def)
  from split_keeps_sides_apart [OF this] show ?thesis by simp
qed

text \<open>What the in-memory backend reports as broadcast is exactly the transactions of the
  broadcast calls it answered with a transaction id, in the order of the calls, also when it is the
  broadcast side of a composed backend: a failed announcement leaves no entry, and no scan, sync,
  fee or tip call adds one.\<close>

theorem split_memory_broadcast_log:
  assumes "run_calls (split_backend A (memory_as_backend pr)) (s, memory_new u) cs = (ans, (s', m'))"
  shows "mb_broadcasted m' = accepted cs ans"
  using mem_split.both.run_announces [OF assms] by (simp add: memory_new_def)

theorem split_memory_broadcast_log_witness:
  "mb_broadcasted ((memory_new (0 :: nat))\<lparr>mb_broadcasted := [sample_payment]\<rparr>)
     = accepted [CallTip, CallBroadcast sample_payment :: (unit, unit) chain_call]
         [AnsTip (Ok 0), AnsTxid (Ok (compute_txid sample_prims sample_payment)) :: nat chain_answer]"
proof -
  let ?A = "memory_as_backend sample_prims :: (nat memory_backend, unit, unit, nat) chain_backend"
  have "run_calls (split_backend ?A ?A) (memory_new (0 :: nat), memory_new 0) [CallTip, CallBroadcast sample_payment]
    = ([AnsTip (Ok 0), AnsTxid (Ok (compute_txid sample_prims sample_payment))],
       (memory_new 0, (memory_new 0)\<lparr>mb_broadcasted := [sample_payment]\<rparr>))"
    by (simp add: split_backend_def on_sync_def on_broadcast_def memory_as_backend_def
      memory_broadcast_def memory_tip_height_def memory_new_def)
  from split_memory_broadcast_log [OF this] show ?thesis .
qed

end
