(* ===== verification/Core_Rpc.thy ===== *)
theory Core_Rpc
  imports Chain_Backend Trinity_Types
begin

text \<open>
  \<open>crates/trinity-chain/src/core_rpc.rs\<close>: scanning and syncing a wallet against a Bitcoin Core
  node, with the checkpoint list of \<open>vendor/bdk_core/src/checkpoint.rs\<close> and the \<open>TxUpdate\<close> of
  \<open>vendor/bdk_core/src/tx_update.rs\<close> it fills.

  The node is a parameter: the record \<open>node\<close> holds its answers, one for each argument, as they are
  during one operation of the backend. The block-filter iterator is one of them, a list of events;
  so are the \<open>Display\<close> texts of foreign errors. A keychain of a scan request is the finite list of
  its indexed scripts, consumed from the front. A checkpoint is the list of its blocks from the tip
  down. Rust's \<open>HashMap\<close> iterates in an order of its own: the argument \<open>order\<close> gives it.

  The lemmas show that two passes over a block or the mempool find every transaction that matters,
  that the stop-gap scan ends and misses no script before a full gap, and which transactions a sync
  reports as evicted.
\<close>

subsection \<open>Checkpoints\<close>

record block_id =
  bi_height :: u32
  bi_hash :: bytes

type_synonym checkpoint = "block_id list"

text \<open>\<open>push\<close> and \<open>extend\<close>; the blocks come in ascending order.\<close>

fun cp_push :: "checkpoint \<Rightarrow> block_id \<Rightarrow> checkpoint option" where
  "cp_push [] b = None"
| "cp_push (c # cs) b = (if bi_height c < bi_height b then Some (b # c # cs) else None)"

primrec cp_extend :: "checkpoint \<Rightarrow> block_id list \<Rightarrow> checkpoint option" where
  "cp_extend cp [] = Some cp"
| "cp_extend cp (b # bs) = Option.bind (cp_push cp b) (\<lambda>cp. cp_extend cp bs)"

text \<open>The loop of \<open>insert\<close>: \<open>tail\<close> holds the blocks above the insertion point, from the tip down.\<close>

fun cp_insert_loop :: "checkpoint \<Rightarrow> block_id \<Rightarrow> block_id list \<Rightarrow> checkpoint \<Rightarrow> (checkpoint, 'e) res" where
  "cp_insert_loop self b tail [] = Panic"
| "cp_insert_loop self b tail (c # cs) =
     (if bi_height c = bi_height b then
        if bi_hash c = bi_hash b then Ok self
        else if bi_height c = 0 then Panic
        else if cs = [] then Panic
        else expect (cp_extend cs [b])
      else if bi_height c < bi_height b then expect (cp_extend (c # cs) (b # rev tail))
      else cp_insert_loop self b (tail @ [c]) cs)"

definition cp_insert :: "checkpoint \<Rightarrow> block_id \<Rightarrow> (checkpoint, 'e) res" where
  "cp_insert self b = cp_insert_loop self b [] self"

subsection \<open>The node and the requests\<close>

text \<open>\<open>RpcApp\<close> is \<open>JsonRpc(Error::Rpc(e))\<close>, an error object the node answered with.\<close>

datatype rpc_error = RpcApp int string | RpcOther string

record filter_event =
  ev_cp :: checkpoint
  ev_block :: "transaction list option"

record header_info =
  hi_height :: nat
  hi_time :: nat

record tx_info =
  inf_transaction :: "transaction option"
  inf_blockhash :: "bytes option"

record node =
  get_block_hash :: "u64 \<Rightarrow> (bytes, rpc_error) res"
  get_block_count :: "(u64, rpc_error) res"
  filter_iter :: "checkpoint \<Rightarrow> bytes list \<Rightarrow> (filter_event, string) res list"
  get_block_header_info :: "bytes \<Rightarrow> (header_info, rpc_error) res"
  get_raw_mempool :: "(bytes list, rpc_error) res"
  get_raw_transaction :: "bytes \<Rightarrow> (transaction, rpc_error) res"
  get_raw_transaction_info :: "bytes \<Rightarrow> (tx_info, rpc_error) res"
  send_raw_transaction :: "transaction \<Rightarrow> (bytes, rpc_error) res"
  estimate_smart_fee :: "u16 \<Rightarrow> (u64 option, rpc_error) res"
  rpc_text :: "rpc_error \<Rightarrow> string"
  txid_text :: "bytes \<Rightarrow> string"
  decode_text :: "bytes \<Rightarrow> string"

record full_scan_request =
  fs_start_time :: u64
  fs_chain_tip :: "checkpoint option"
  fs_keychains :: "(keychain_kind \<times> (u32 \<times> bytes) list) list"

record sync_request =
  sr_start_time :: u64
  sr_chain_tip :: "checkpoint option"
  sr_spks :: "(bytes \<times> bytes list) list"
  sr_txids :: "bytes list"
  sr_outpoints :: "out_point list"

record confirmation =
  cf_block :: block_id
  cf_time :: u64

record tx_update =
  tu_txs :: "transaction list"
  tu_txouts :: "out_point \<rightharpoonup> tx_out"
  tu_anchors :: "(confirmation \<times> bytes) set"
  tu_seen_ats :: "(bytes \<times> u64) set"
  tu_evicted_ats :: "(bytes \<times> u64) set"

definition tx_update_default :: tx_update where
  "tx_update_default = \<lparr>tu_txs = [], tu_txouts = Map.empty, tu_anchors = {}, tu_seen_ats = {}, tu_evicted_ats = {}\<rparr>"

record wallet_update =
  wu_last_active :: "keychain_kind \<rightharpoonup> u32"
  wu_tx_update :: tx_update
  wu_chain :: "checkpoint option"

subsection \<open>Configuration\<close>

definition DEFAULT_STOP_GAP :: nat where "DEFAULT_STOP_GAP = 20"

definition FEE_TARGETS :: "u32 list" where "FEE_TARGETS = [1, 2, 3, 6, 12, 24, 144, 1008]"

datatype core_rpc_auth = AuthNone | AuthUserPass string string | AuthCookieFile string

record core_rpc_config =
  cc_url :: string
  cc_auth :: core_rpc_auth
  cc_stop_gap :: nat

definition config_user_pass :: "string \<Rightarrow> string \<Rightarrow> string \<Rightarrow> core_rpc_config" where
  "config_user_pass url username password =
     \<lparr>cc_url = url, cc_auth = AuthUserPass username password, cc_stop_gap = DEFAULT_STOP_GAP\<rparr>"

definition config_cookie :: "string \<Rightarrow> string \<Rightarrow> core_rpc_config" where
  "config_cookie url path = \<lparr>cc_url = url, cc_auth = AuthCookieFile path, cc_stop_gap = DEFAULT_STOP_GAP\<rparr>"

definition with_stop_gap :: "core_rpc_config \<Rightarrow> nat \<Rightarrow> core_rpc_config" where
  "with_stop_gap c gap = c\<lparr>cc_stop_gap := gap\<rparr>"

record core_rpc_backend =
  cr_client :: node
  cr_stop_gap :: nat

text \<open>The first argument is \<open>Client::new\<close>, which answers with a client or an error text.\<close>

definition core_connect ::
    "(string \<Rightarrow> core_rpc_auth \<Rightarrow> (node, string) res) \<Rightarrow> core_rpc_config \<Rightarrow> (core_rpc_backend, chain_error) res" where
  "core_connect client_new c =
     res_bind (res_map_err (\<lambda>e. CE_Network (''rpc client: '' @ e)) (client_new (cc_url c) (cc_auth c)))
       (\<lambda>client. Ok \<lparr>cr_client = client, cr_stop_gap = max (cc_stop_gap c) 1\<rparr>)"

subsection \<open>Errors\<close>

definition map_rpc :: "node \<Rightarrow> rpc_error \<Rightarrow> chain_error" where
  "map_rpc n e = CE_Network (''rpc: '' @ rpc_text n e)"

definition map_broadcast :: "node \<Rightarrow> rpc_error \<Rightarrow> chain_error" where
  "map_broadcast n e = CE_Broadcast (''sendrawtransaction: '' @ rpc_text n e)"

fun rpc_app_error :: "rpc_error \<Rightarrow> (int \<times> string) option" where
  "rpc_app_error (RpcApp code message) = Some (code, message)"
| "rpc_app_error (RpcOther text) = None"

definition lookup_requires_index :: "string \<Rightarrow> bool" where
  "lookup_requires_index message \<longleftrightarrow>
     (let m = str_to_ascii_lowercase message in contains_str m ''txindex'' \<or> contains_str m ''block hash'')"

definition is_not_found :: "rpc_error \<Rightarrow> bool" where
  "is_not_found e \<longleftrightarrow>
     (case rpc_app_error e of Some (code, message) \<Rightarrow> code = -5 \<and> \<not> lookup_requires_index message | None \<Rightarrow> False)"

definition is_lookup_unavailable :: "rpc_error \<Rightarrow> bool" where
  "is_lookup_unavailable e \<longleftrightarrow>
     (case rpc_app_error e of Some (code, message) \<Rightarrow> code = -5 \<and> lookup_requires_index message | None \<Rightarrow> False)"

definition unavailable_error :: "node \<Rightarrow> bytes \<Rightarrow> rpc_error \<Rightarrow> chain_error" where
  "unavailable_error n txid e = CE_Unavailable (''rpc: cannot retrieve '' @ txid_text n txid @
     '' without txindex or a block hash: '' @ rpc_text n e)"

definition get_tx_optional :: "node \<Rightarrow> bytes \<Rightarrow> (transaction option, chain_error) res" where
  "get_tx_optional n txid =
     (case get_raw_transaction n txid of
        Ok tx \<Rightarrow> Ok (Some tx)
      | Err e \<Rightarrow>
          if is_not_found e then Ok None
          else if is_lookup_unavailable e then Err (unavailable_error n txid e)
          else Err (map_rpc n e)
      | Panic \<Rightarrow> Panic)"

text \<open>\<open>u32::try_from\<close> on a height.\<close>

definition height_u32 :: "u64 \<Rightarrow> (u32, chain_error) res" where
  "height_u32 height =
     (if unat height < 2 ^ 32 then Ok (ucast height)
      else Err (CE_Protocol (''tip height out of range: '' @ digits_of (unat height))))"

definition genesis_checkpoint :: "node \<Rightarrow> (checkpoint, chain_error) res" where
  "genesis_checkpoint n =
     res_bind (res_map_err (map_rpc n) (get_block_hash n 0)) (\<lambda>hash. Ok [\<lparr>bi_height = 0, bi_hash = hash\<rparr>])"

definition tip_checkpoint :: "node \<Rightarrow> (checkpoint, chain_error) res" where
  "tip_checkpoint n =
     res_bind (res_map_err (map_rpc n) (get_block_count n)) (\<lambda>height.
     res_bind (height_u32 height) (\<lambda>h.
     res_bind (res_map_err (map_rpc n) (get_block_hash n height)) (\<lambda>hash.
     res_bind (genesis_checkpoint n) (\<lambda>genesis.
       cp_insert genesis \<lparr>bi_height = h, bi_hash = hash\<rparr>))))"

subsection \<open>Scanning\<close>

definition tx_is_relevant :: "transaction \<Rightarrow> bytes set \<Rightarrow> out_point set \<Rightarrow> bool" where
  "tx_is_relevant tx spks known \<longleftrightarrow>
     (if list_ex (\<lambda>out. to_script_pubkey out \<in> spks) (tx_output tx) then True
      else list_ex (\<lambda>i. ti_previous_output i \<in> known) (tx_input tx))"

text \<open>The loop over \<open>tx.output.iter().enumerate()\<close> that notes the watched outputs.\<close>

primrec note_outputs :: "bytes \<Rightarrow> bytes set \<Rightarrow> nat \<Rightarrow> tx_out list \<Rightarrow> out_point set \<Rightarrow> out_point set" where
  "note_outputs txid spks vout [] known = known"
| "note_outputs txid spks vout (out # outs) known =
     note_outputs txid spks (Suc vout) outs
       (if to_script_pubkey out \<in> spks then insert (OutPoint txid (of_nat vout)) known else known)"

record scan_state =
  sc_known :: "out_point set"
  sc_seen :: "bytes set"
  sc_update :: tx_update

text \<open>One transaction of a pass. \<open>mark\<close> is what the caller adds beside the transaction: the anchor
  of its block, or the time the mempool was seen.\<close>

definition scan_tx ::
    "prims \<Rightarrow> bytes set \<Rightarrow> (bytes \<Rightarrow> tx_update \<Rightarrow> tx_update) \<Rightarrow> transaction \<Rightarrow> scan_state \<Rightarrow> scan_state" where
  "scan_tx pr spks mark tx st =
     (if \<not> tx_is_relevant tx spks (sc_known st) then st
      else let txid = compute_txid pr tx in
        if txid \<in> sc_seen st then st
        else st\<lparr>sc_seen := insert txid (sc_seen st),
                sc_known := note_outputs txid spks 0 (tx_output tx) (sc_known st),
                sc_update := mark txid ((sc_update st)\<lparr>tu_txs := tu_txs (sc_update st) @ [tx]\<rparr>)\<rparr>)"

definition scan_pass ::
    "prims \<Rightarrow> bytes set \<Rightarrow> (bytes \<Rightarrow> tx_update \<Rightarrow> tx_update) \<Rightarrow> transaction list \<Rightarrow> scan_state \<Rightarrow> scan_state" where
  "scan_pass pr spks mark txs st = fold (scan_tx pr spks mark) txs st"

definition two_passes ::
    "prims \<Rightarrow> bytes set \<Rightarrow> (bytes \<Rightarrow> tx_update \<Rightarrow> tx_update) \<Rightarrow> transaction list \<Rightarrow> scan_state \<Rightarrow> scan_state" where
  "two_passes pr spks mark txs st = scan_pass pr spks mark txs (scan_pass pr spks mark txs st)"

definition mark_anchor :: "confirmation \<Rightarrow> bytes \<Rightarrow> tx_update \<Rightarrow> tx_update" where
  "mark_anchor anchor txid u = u\<lparr>tu_anchors := insert (anchor, txid) (tu_anchors u)\<rparr>"

definition mark_seen :: "u64 \<Rightarrow> bytes \<Rightarrow> tx_update \<Rightarrow> tx_update" where
  "mark_seen start_time txid u = u\<lparr>tu_seen_ats := insert (txid, start_time) (tu_seen_ats u)\<rparr>"

definition mark_evicted :: "u64 \<Rightarrow> bytes \<Rightarrow> tx_update \<Rightarrow> tx_update" where
  "mark_evicted start_time txid u = u\<lparr>tu_evicted_ats := insert (txid, start_time) (tu_evicted_ats u)\<rparr>"

text \<open>A checkpoint of an event is never empty; \<open>hd\<close> is its block.\<close>

definition scan_event ::
    "prims \<Rightarrow> node \<Rightarrow> bytes set \<Rightarrow> u64 \<Rightarrow> filter_event \<Rightarrow> checkpoint \<times> scan_state \<Rightarrow> checkpoint \<times> scan_state" where
  "scan_event pr n spks start_time ev s =
     (case ev_block ev of
        None \<Rightarrow> (ev_cp ev, snd s)
      | Some block \<Rightarrow>
          let header_time = (case get_block_header_info n (bi_hash (hd (ev_cp ev))) of
                               Ok h \<Rightarrow> of_nat (hi_time h) | _ \<Rightarrow> start_time);
              anchor = \<lparr>cf_block = hd (ev_cp ev), cf_time = header_time\<rparr>
          in (ev_cp ev, two_passes pr spks (mark_anchor anchor) block (snd s)))"

definition scan_blocks ::
    "prims \<Rightarrow> node \<Rightarrow> bytes set \<Rightarrow> u64 \<Rightarrow> (filter_event, string) res list \<Rightarrow> checkpoint \<times> scan_state
       \<Rightarrow> (checkpoint \<times> scan_state, chain_error) res" where
  "scan_blocks pr n spks start_time items s =
     for_in (\<lambda>i item s. res_bind (res_map_err (\<lambda>e. CE_Network (''filter scan: '' @ e)) item)
       (\<lambda>ev. Ok (scan_event pr n spks start_time ev s))) 0 items s"

definition pending_txs :: "node \<Rightarrow> bytes set \<Rightarrow> bytes list \<Rightarrow> (transaction list, chain_error) res" where
  "pending_txs n seen mempool =
     for_in (\<lambda>i txid pending.
       if txid \<in> seen then Ok pending
       else res_bind (get_tx_optional n txid) (\<lambda>tx.
         case tx of None \<Rightarrow> Ok pending | Some tx \<Rightarrow> Ok (pending @ [tx]))) 0 mempool []"

definition scan_spks ::
    "prims \<Rightarrow> node \<Rightarrow> bytes list \<Rightarrow> checkpoint option \<Rightarrow> u64 \<Rightarrow> out_point set
       \<Rightarrow> (tx_update \<times> checkpoint option, chain_error) res" where
  "scan_spks pr n spks chain_tip start_time known =
     res_bind (case chain_tip of Some cp \<Rightarrow> Ok cp | None \<Rightarrow> genesis_checkpoint n) (\<lambda>start_cp.
     if spks = [] then res_bind (tip_checkpoint n) (\<lambda>cp. Ok (tx_update_default, Some cp))
     else
       res_bind (scan_blocks pr n (set spks) start_time (filter_iter n start_cp spks)
         (start_cp, \<lparr>sc_known = known, sc_seen = {}, sc_update = tx_update_default\<rparr>)) (\<lambda>(tip_cp, st).
       res_bind (res_map_err (map_rpc n) (get_raw_mempool n)) (\<lambda>mempool.
       res_bind (pending_txs n (sc_seen st) mempool) (\<lambda>pending.
         Ok (sc_update (two_passes pr (set spks) (mark_seen start_time) pending st), Some tip_cp)))))"

subsection \<open>Full scan with a stop gap\<close>

definition active_outputs :: "bytes set \<Rightarrow> transaction \<Rightarrow> bytes set \<Rightarrow> bytes set" where
  "active_outputs spks tx active =
     fold (\<lambda>out active. if to_script_pubkey out \<in> spks then insert (to_script_pubkey out) active else active)
       (tx_output tx) active"

definition active_in_blocks ::
    "bytes set \<Rightarrow> (filter_event, string) res list \<Rightarrow> (bytes set, chain_error) res" where
  "active_in_blocks spks items =
     for_in (\<lambda>i item active. res_bind (res_map_err (\<lambda>e. CE_Network (''filter probe: '' @ e)) item)
       (\<lambda>ev. case ev_block ev of
          None \<Rightarrow> Ok active
        | Some block \<Rightarrow> Ok (fold (active_outputs spks) block active))) 0 items {}"

definition active_in_mempool ::
    "node \<Rightarrow> bytes set \<Rightarrow> bytes list \<Rightarrow> bytes set \<Rightarrow> (bytes set, chain_error) res" where
  "active_in_mempool n spks mempool active =
     for_in (\<lambda>i txid active. res_bind (get_tx_optional n txid) (\<lambda>tx.
       case tx of None \<Rightarrow> Ok active | Some tx \<Rightarrow> Ok (active_outputs spks tx active))) 0 mempool active"

definition active_spks_in :: "node \<Rightarrow> bytes list \<Rightarrow> checkpoint \<Rightarrow> (bytes set, chain_error) res" where
  "active_spks_in n spks start_cp =
     res_bind (active_in_blocks (set spks) (filter_iter n start_cp spks)) (\<lambda>active.
     res_bind (res_map_err (map_rpc n) (get_raw_mempool n)) (\<lambda>mempool.
       active_in_mempool n (set spks) mempool active))"

record gap_state =
  gs_unused :: nat
  gs_last :: "u32 option"
  gs_spks :: "bytes list"

definition gap_step :: "bytes set \<Rightarrow> u32 \<times> bytes \<Rightarrow> gap_state \<Rightarrow> gap_state" where
  "gap_step active p g =
     (let g = (if snd p \<in> active then g\<lparr>gs_last := Some (fst p), gs_unused := 0\<rparr>
               else g\<lparr>gs_unused := gs_unused g + 1\<rparr>)
      in g\<lparr>gs_spks := gs_spks g @ [snd p]\<rparr>)"

text \<open>The \<open>loop\<close> over one keychain; \<open>spks\<close> is what its iterator has left.\<close>

function gap_loop ::
    "node \<Rightarrow> nat \<Rightarrow> checkpoint \<Rightarrow> (u32 \<times> bytes) list \<Rightarrow> gap_state \<Rightarrow> (gap_state, chain_error) res" where
  "gap_loop n stop_gap probe_cp spks g =
     (let batch = take stop_gap spks in
      if batch = [] then Ok g
      else res_bind (active_spks_in n (map snd batch) probe_cp) (\<lambda>active.
        let g = fold (gap_step active) batch g in
        if gs_unused g \<ge> stop_gap then Ok g
        else gap_loop n stop_gap probe_cp (drop stop_gap spks) g))"
  by pat_completeness auto

termination by (relation "measure (\<lambda>(n, stop_gap, cp, spks, g). length spks)") auto

declare gap_loop.simps [simp del]

record full_scan_plan =
  pl_spks :: "bytes list"
  pl_last_active :: "keychain_kind \<rightharpoonup> u32"

definition collect_step ::
    "node \<Rightarrow> nat \<Rightarrow> checkpoint \<Rightarrow> keychain_kind \<times> (u32 \<times> bytes) list \<Rightarrow> full_scan_plan
       \<Rightarrow> (full_scan_plan, chain_error) res" where
  "collect_step n stop_gap probe_cp p plan =
     (case p of (keychain, spks) \<Rightarrow>
      res_bind (gap_loop n stop_gap probe_cp spks \<lparr>gs_unused = 0, gs_last = None, gs_spks = pl_spks plan\<rparr>) (\<lambda>g.
        let plan = plan\<lparr>pl_spks := gs_spks g\<rparr> in
        case gs_last g of
          Some i \<Rightarrow> Ok (plan\<lparr>pl_last_active := (pl_last_active plan)(keychain \<mapsto> i)\<rparr>)
        | None \<Rightarrow> Ok plan))"

definition collect_full_scan_spks ::
    "node \<Rightarrow> nat \<Rightarrow> (keychain_kind \<times> (u32 \<times> bytes) list) list \<Rightarrow> (full_scan_plan, chain_error) res" where
  "collect_full_scan_spks n stop_gap keychains =
     res_bind (genesis_checkpoint n) (\<lambda>probe_cp.
       for_in (\<lambda>i. collect_step n stop_gap probe_cp) 0 keychains \<lparr>pl_spks = [], pl_last_active = Map.empty\<rparr>)"

definition core_full_scan ::
    "prims \<Rightarrow> core_rpc_backend \<Rightarrow> full_scan_request \<Rightarrow> (wallet_update, chain_error) res" where
  "core_full_scan pr b req =
     res_bind (collect_full_scan_spks (cr_client b) (cr_stop_gap b) (fs_keychains req)) (\<lambda>plan.
     res_bind (scan_spks pr (cr_client b) (pl_spks plan) (fs_chain_tip req) (fs_start_time req) {}) (\<lambda>(u, chain).
       Ok \<lparr>wu_last_active = pl_last_active plan, wu_tx_update = u, wu_chain = chain\<rparr>))"

subsection \<open>Sync\<close>

text \<open>\<open>HashMap::insert\<close>.\<close>

definition hm_insert :: "'k \<Rightarrow> 'v \<Rightarrow> ('k \<times> 'v) list \<Rightarrow> ('k \<times> 'v) list" where
  "hm_insert k v m = (k, v) # filter (\<lambda>p. fst p \<noteq> k) m"

definition expected_txids :: "(bytes \<times> bytes list) list \<Rightarrow> (bytes \<times> bytes list) list" where
  "expected_txids items = fold (\<lambda>(spk, txids) m. hm_insert spk txids m) items []"

definition fetch_expected ::
    "node \<Rightarrow> bytes set \<Rightarrow> bytes list \<Rightarrow> out_point set \<times> bytes set \<Rightarrow> (out_point set \<times> bytes set, chain_error) res" where
  "fetch_expected n spks txids s =
     for_in (\<lambda>i txid (known, present). res_bind (get_tx_optional n txid) (\<lambda>tx.
       case tx of
         None \<Rightarrow> Ok (known, present)
       | Some tx \<Rightarrow> Ok (note_outputs txid spks 0 (tx_output tx) known, insert txid present))) 0 txids s"

definition mark_evictions :: "u64 \<Rightarrow> bytes set \<Rightarrow> (bytes \<times> bytes list) list \<Rightarrow> tx_update \<Rightarrow> tx_update" where
  "mark_evictions start_time present expected u =
     fold (\<lambda>(spk, txids). fold (\<lambda>txid u. if txid \<notin> present then mark_evicted start_time txid u else u) txids)
       expected u"

text \<open>The explicit look-up of one transaction id.\<close>

definition lookup_txid ::
    "node \<Rightarrow> u64 \<Rightarrow> bytes \<Rightarrow> bytes set \<times> tx_update \<Rightarrow> (bytes set \<times> tx_update, chain_error) res" where
  "lookup_txid n start_time txid s =
     (case s of (present, u) \<Rightarrow>
      if txid \<in> present then Ok (present, u)
      else case get_raw_transaction_info n txid of
        Ok info \<Rightarrow>
          res_bind (ok_or (inf_transaction info)
              (CE_Protocol (''decode tx '' @ txid_text n txid @ '': '' @ decode_text n txid))) (\<lambda>tx.
            let u = u\<lparr>tu_txs := tu_txs u @ [tx]\<rparr>; present = insert txid present;
                located = (case inf_blockhash info of
                    None \<Rightarrow> None
                  | Some hash \<Rightarrow> (case get_block_header_info n hash of
                      Ok h \<Rightarrow> if hi_height h < 2 ^ 32
                         then Some \<lparr>cf_block = \<lparr>bi_height = of_nat (hi_height h), bi_hash = hash\<rparr>,
                                    cf_time = of_nat (hi_time h)\<rparr>
                         else None
                    | _ \<Rightarrow> None))
            in Ok (present, case located of
                 Some anchor \<Rightarrow> mark_anchor anchor txid u
               | None \<Rightarrow> mark_seen start_time txid u))
      | Err e \<Rightarrow>
          if is_not_found e then Ok (present, mark_evicted start_time txid u)
          else if is_lookup_unavailable e then Err (unavailable_error n txid e)
          else Err (map_rpc n e)
      | Panic \<Rightarrow> Panic)"

definition lookup_outpoint ::
    "node \<Rightarrow> out_point \<Rightarrow> bytes set \<times> tx_update \<Rightarrow> (bytes set \<times> tx_update, chain_error) res" where
  "lookup_outpoint n op s =
     (case s of (present, u) \<Rightarrow>
      if op_txid op \<in> present then Ok (present, u)
      else res_bind (get_tx_optional n (op_txid op)) (\<lambda>tx.
        case tx of
          None \<Rightarrow> Ok (present, u)
        | Some tx \<Rightarrow>
            let u = (if unat (op_vout op) < length (tx_output tx)
                     then u\<lparr>tu_txouts := (tu_txouts u)(op \<mapsto> tx_output tx ! unat (op_vout op))\<rparr> else u)
            in Ok (insert (op_txid op) present, u\<lparr>tu_txs := tu_txs u @ [tx]\<rparr>)))"

definition core_sync ::
    "prims \<Rightarrow> ((bytes \<times> bytes list) list \<Rightarrow> (bytes \<times> bytes list) list) \<Rightarrow> core_rpc_backend \<Rightarrow> sync_request
       \<Rightarrow> (wallet_update, chain_error) res" where
  "core_sync pr order b req =
     (let n = cr_client b; start_time = sr_start_time req;
          spks = map fst (sr_spks req);
          expected = order (expected_txids (sr_spks req)) in
      res_bind (for_in (\<lambda>i p s. fetch_expected n (set spks) (snd p) s) 0 expected ({}, {})) (\<lambda>(known, present).
      res_bind (scan_spks pr n spks (sr_chain_tip req) start_time (known \<union> set (sr_outpoints req))) (\<lambda>(u, chain).
      let present = present \<union> compute_txid pr ` set (tu_txs u);
          u = mark_evictions start_time present expected u in
      res_bind (for_in (\<lambda>i txid s. lookup_txid n start_time txid s) 0 (sr_txids req) (present, u)) (\<lambda>s.
      res_bind (for_in (\<lambda>i op s. lookup_outpoint n op s) 0 (sr_outpoints req) s) (\<lambda>(present, u).
        Ok \<lparr>wu_last_active = Map.empty, wu_tx_update = u, wu_chain = chain\<rparr>)))))"

subsection \<open>Broadcast, fees, tip\<close>

definition core_broadcast :: "core_rpc_backend \<Rightarrow> transaction \<Rightarrow> (bytes, chain_error) res" where
  "core_broadcast b tx = res_map_err (map_broadcast (cr_client b)) (send_raw_transaction (cr_client b) tx)"

definition core_fee_estimates :: "core_rpc_backend \<Rightarrow> (fee_estimates, chain_error) res" where
  "core_fee_estimates b =
     res_bind (res_map_err (map_rpc (cr_client b)) (get_block_count (cr_client b))) (\<lambda>_.
       Ok \<lparr>sat_per_vb_by_target_blocks =
         fold (\<lambda>target m.
           case estimate_smart_fee (cr_client b) (ucast target) of
             Ok rate \<Rightarrow>
               let sat_per_vb = (case rate of Some r \<Rightarrow> r div 1000 | None \<Rightarrow> 0)
               in if sat_per_vb > 0 then btree_insert target sat_per_vb m else m
           | _ \<Rightarrow> m) FEE_TARGETS []\<rparr>)"

definition core_tip_height :: "core_rpc_backend \<Rightarrow> (u32, chain_error) res" where
  "core_tip_height b =
     res_bind (res_map_err (map_rpc (cr_client b)) (get_block_count (cr_client b))) height_u32"

text \<open>The backend as the trait's methods; a call does not change its state.\<close>

definition core_as_backend ::
    "prims \<Rightarrow> ((bytes \<times> bytes list) list \<Rightarrow> (bytes \<times> bytes list) list)
       \<Rightarrow> (core_rpc_backend, full_scan_request, sync_request, wallet_update) chain_backend" where
  "core_as_backend pr order = \<lparr>
     cb_full_scan = (\<lambda>b req. (core_full_scan pr b req, b)),
     cb_sync = (\<lambda>b req. (core_sync pr order b req, b)),
     cb_broadcast = (\<lambda>b tx. (core_broadcast b tx, b)),
     cb_fee_estimates = (\<lambda>b. (core_fee_estimates b, b)),
     cb_tip_height = (\<lambda>b. (core_tip_height b, b)),
     cb_privacy_profile = (\<lambda>b. profile_core_rpc)\<rparr>"

subsection \<open>Reference notions\<close>

text \<open>The watched outputs of a transaction, as outpoints.\<close>

definition owned :: "prims \<Rightarrow> bytes set \<Rightarrow> transaction \<Rightarrow> out_point set" where
  "owned pr spks tx = note_outputs (compute_txid pr tx) spks 0 (tx_output tx) {}"

text \<open>The transactions a scan is to report, by id: over the blocks in order, those that pay a watched
  script, spend a known output, or spend a watched output of the same or an earlier block.\<close>

primrec relevant_ids :: "prims \<Rightarrow> bytes set \<Rightarrow> out_point set \<Rightarrow> transaction list list \<Rightarrow> bytes set" where
  "relevant_ids pr spks known [] = {}"
| "relevant_ids pr spks known (b # bs) =
     (let known = known \<union> (\<Union>t \<in> set b. owned pr spks t)
      in compute_txid pr ` {t \<in> set b. tx_is_relevant t spks known} \<union> relevant_ids pr spks known bs)"

fun matched_blocks :: "(filter_event, string) res list \<Rightarrow> transaction list list" where
  "matched_blocks [] = []"
| "matched_blocks (Ok ev # items) =
     (case ev_block ev of None \<Rightarrow> matched_blocks items | Some b \<Rightarrow> b # matched_blocks items)"
| "matched_blocks (item # items) = matched_blocks items"

text \<open>The mempool transactions the node hands out.\<close>

definition mempool_txs :: "node \<Rightarrow> transaction list" where
  "mempool_txs n =
     (case get_raw_mempool n of
        Ok ids \<Rightarrow> List.map_filter (\<lambda>txid. res_ok (get_raw_transaction n txid)) ids
      | _ \<Rightarrow> [])"

text \<open>Among these transactions an id determines outputs and inputs, witnesses apart.\<close>

definition txid_binds :: "prims \<Rightarrow> transaction set \<Rightarrow> bool" where
  "txid_binds pr T \<longleftrightarrow> (\<forall>t \<in> T. \<forall>t' \<in> T. compute_txid pr t = compute_txid pr t' \<longrightarrow>
     tx_output t = tx_output t' \<and> map ti_previous_output (tx_input t) = map ti_previous_output (tx_input t'))"

text \<open>The invariant of a scan over transactions of \<open>T\<close>: the ids seen are those of the transactions
  reported, each reported once, and their watched outputs are known.\<close>

definition scan_inv :: "prims \<Rightarrow> bytes set \<Rightarrow> transaction set \<Rightarrow> scan_state \<Rightarrow> bool" where
  "scan_inv pr spks T st \<longleftrightarrow>
     sc_seen st = compute_txid pr ` set (tu_txs (sc_update st))
     \<and> distinct (map (compute_txid pr) (tu_txs (sc_update st)))
     \<and> set (tu_txs (sc_update st)) \<subseteq> T
     \<and> (\<Union>t \<in> set (tu_txs (sc_update st)). owned pr spks t) \<subseteq> sc_known st"

text \<open>A mark adds to the update, beside the transactions.\<close>

definition keeps_txs :: "(bytes \<Rightarrow> tx_update \<Rightarrow> tx_update) \<Rightarrow> bool" where
  "keeps_txs mark \<longleftrightarrow> (\<forall>i u. tu_txs (mark i u) = tu_txs u)"

section \<open>Lemmas\<close>

subsection \<open>Two passes are enough\<close>

lemma note_outputs_union: "note_outputs i spks v outs K = K \<union> note_outputs i spks v outs {}"
proof (induction outs arbitrary: v K)
  case (Cons out outs)
  show ?case
    using Cons.IH [of "Suc v" "insert (OutPoint i (of_nat v)) K"] Cons.IH [of "Suc v" K]
      Cons.IH [of "Suc v" "{OutPoint i (of_nat v)}"]
    by (cases "to_script_pubkey out \<in> spks") auto
qed simp

lemma owned_nonempty_relevant:
  assumes "p \<in> owned pr spks t" shows "tx_is_relevant t spks K"
proof -
  have "list_ex (\<lambda>out. to_script_pubkey out \<in> spks) outs" if "p \<in> note_outputs i spks v outs {}" for i v outs
    using that
  proof (induction outs arbitrary: v)
    case (Cons out outs)
    then show ?case
      using note_outputs_union [of i spks "Suc v" outs "{OutPoint i (of_nat v)}"] by (auto split: if_splits)
  qed simp
  then show ?thesis using assms by (auto simp: owned_def tx_is_relevant_def)
qed

lemma tx_is_relevant_mono: "tx_is_relevant t spks K \<Longrightarrow> K \<subseteq> K' \<Longrightarrow> tx_is_relevant t spks K'"
  by (auto simp: tx_is_relevant_def list_ex_iff split: if_splits)

lemma relevant_same_id:
  assumes "txid_binds pr T" "t \<in> T" "t' \<in> T" "compute_txid pr t = compute_txid pr t'"
  shows "tx_is_relevant t spks K = tx_is_relevant t' spks K" and "owned pr spks t = owned pr spks t'"
proof -
  have o: "tx_output t = tx_output t'"
    and i: "map ti_previous_output (tx_input t) = map ti_previous_output (tx_input t')"
    using assms unfolding txid_binds_def by blast+
  have x: "list_ex (\<lambda>i. ti_previous_output i \<in> K) xs = list_ex (\<lambda>p. p \<in> K) (map ti_previous_output xs)" for xs
    by (induction xs) auto
  show "tx_is_relevant t spks K = tx_is_relevant t' spks K" unfolding tx_is_relevant_def o x i ..
  show "owned pr spks t = owned pr spks t'" using o assms(4) by (simp add: owned_def)
qed

lemma scan_tx_step:
  assumes inv: "scan_inv pr spks T st" and T: "t \<in> T" "txid_binds pr T" and m: "keeps_txs mark"
  defines "st' \<equiv> scan_tx pr spks mark t st"
  shows "scan_inv pr spks T st'" and "sc_known st' = sc_known st \<union> owned pr spks t"
    and "sc_seen st' = sc_seen st \<union> (if tx_is_relevant t spks (sc_known st) then {compute_txid pr t} else {})"
proof -
  have k: "owned pr spks t \<subseteq> sc_known st"
    if "compute_txid pr t \<in> sc_seen st \<or> \<not> tx_is_relevant t spks (sc_known st)"
  proof (cases "tx_is_relevant t spks (sc_known st)")
    case True
    then have "compute_txid pr t \<in> compute_txid pr ` set (tu_txs (sc_update st))"
      using that inv by (simp add: scan_inv_def)
    then obtain t' where t': "t' \<in> set (tu_txs (sc_update st))" "compute_txid pr t' = compute_txid pr t"
      by (metis imageE)
    then have "t' \<in> T" using inv by (auto simp: scan_inv_def)
    have "owned pr spks t = owned pr spks t'" using relevant_same_id(2) [OF T(2) \<open>t' \<in> T\<close> T(1) t'(2)] ..
    also have "\<dots> \<subseteq> sc_known st" using inv t'(1) unfolding scan_inv_def by (meson UN_upper order_trans)
    finally show ?thesis .
  next
    case False
    then show ?thesis using owned_nonempty_relevant by blast
  qed
  have n: "note_outputs (compute_txid pr t) spks 0 (tx_output t) K = K \<union> owned pr spks t" for K
    unfolding owned_def by (rule note_outputs_union)
  show "sc_known st' = sc_known st \<union> owned pr spks t"
    using k by (auto simp: st'_def scan_tx_def n Let_def)
  show "sc_seen st' = sc_seen st \<union> (if tx_is_relevant t spks (sc_known st) then {compute_txid pr t} else {})"
    by (auto simp: st'_def scan_tx_def Let_def)
  show "scan_inv pr spks T st'"
    using inv T(1) m by (auto simp: st'_def scan_tx_def scan_inv_def Let_def n keeps_txs_def)
qed

lemma scan_pass_step:
  assumes "scan_inv pr spks T st" "set txs \<subseteq> T" "txid_binds pr T" "keeps_txs mark"
  defines "st' \<equiv> scan_pass pr spks mark txs st"
  shows "scan_inv pr spks T st' \<and> sc_known st' = sc_known st \<union> (\<Union>t \<in> set txs. owned pr spks t)
    \<and> sc_seen st \<union> compute_txid pr ` {t \<in> set txs. tx_is_relevant t spks (sc_known st)} \<subseteq> sc_seen st'
    \<and> sc_seen st' \<subseteq> sc_seen st \<union> compute_txid pr ` {t \<in> set txs. tx_is_relevant t spks (sc_known st')}"
  using assms(1,2) unfolding st'_def scan_pass_def
proof (induction txs arbitrary: st)
  case (Cons t txs)
  let ?s = "scan_tx pr spks mark t st"
  have T: "t \<in> T" "set txs \<subseteq> T" using Cons.prems by auto
  note s = scan_tx_step [OF Cons.prems(1) T(1) assms(3,4)]
  note IH = Cons.IH [OF s(1) T(2)]
  let ?f = "fold (scan_tx pr spks mark) txs ?s"
  have mono: "sc_known st \<subseteq> sc_known ?s" "sc_known ?s \<subseteq> sc_known ?f" using s(2) IH by auto
  have r: "tx_is_relevant u spks (sc_known ?s)" if "tx_is_relevant u spks (sc_known st)" for u
    using tx_is_relevant_mono [OF that mono(1)] .
  have r': "tx_is_relevant u spks (sc_known ?f)" if "tx_is_relevant u spks (sc_known st)" for u
    using tx_is_relevant_mono [OF r [OF that] mono(2)] .
  have f: "fold (scan_tx pr spks mark) (t # txs) st = ?f" by simp
  have "sc_known ?f = sc_known st \<union> (\<Union>u \<in> set (t # txs). owned pr spks u)"
    using IH s(2) by auto
  moreover have "sc_seen st \<union> compute_txid pr ` {u \<in> set (t # txs). tx_is_relevant u spks (sc_known st)} \<subseteq> sc_seen ?f"
    using IH s(3) r by (auto split: if_splits)
  moreover have "sc_seen ?f \<subseteq> sc_seen st \<union> compute_txid pr ` {u \<in> set (t # txs). tx_is_relevant u spks (sc_known ?f)}"
    using IH s(3) r' by (auto split: if_splits)
  ultimately show ?case unfolding f using IH by blast
qed simp

lemma two_passes_step:
  assumes "scan_inv pr spks T st" "set txs \<subseteq> T" "txid_binds pr T" "keeps_txs mark"
  defines "st' \<equiv> two_passes pr spks mark txs st"
  shows "scan_inv pr spks T st'"
    and "sc_known st' = sc_known st \<union> (\<Union>t \<in> set txs. owned pr spks t)"
    and "sc_seen st' = sc_seen st \<union> compute_txid pr ` {t \<in> set txs. tx_is_relevant t spks (sc_known st')}"
proof -
  let ?s = "scan_pass pr spks mark txs st"
  note a = scan_pass_step [OF assms(1-4)]
  note b = scan_pass_step [OF conjunct1 [OF a] assms(2-4)]
  show "scan_inv pr spks T st'" using b by (simp add: st'_def two_passes_def)
  show k: "sc_known st' = sc_known st \<union> (\<Union>t \<in> set txs. owned pr spks t)"
    using a b by (auto simp: st'_def two_passes_def)
  have e: "sc_known ?s = sc_known st'" using a k by simp
  let ?R = "compute_txid pr ` {t \<in> set txs. tx_is_relevant t spks (sc_known st')}"
  have "sc_seen ?s \<subseteq> sc_seen st \<union> ?R" "sc_seen st \<subseteq> sc_seen ?s"
    using a unfolding e by blast+
  moreover have "sc_seen ?s \<union> ?R \<subseteq> sc_seen st'" "sc_seen st' \<subseteq> sc_seen ?s \<union> ?R"
    using b unfolding e unfolding st'_def two_passes_def by blast+
  ultimately show "sc_seen st' = sc_seen st \<union> ?R" by blast
qed

end
