(* ===== verification/Core_Scan.thy ===== *)
theory Core_Scan
  imports Core_Rpc
begin

text \<open>
  What the scans of \<open>core_rpc.rs\<close> promise: \<open>scan_spks\<close> reports exactly the transactions of the
  matched blocks and the mempool that concern the wallet, each once; the stop-gap loop of
  \<open>collect_full_scan_spks\<close> ends and covers every script before a full gap of unused ones; \<open>sync\<close>
  evicts only what the node reports as missing.
\<close>

section \<open>Definitions\<close>

definition block_pays :: "transaction list \<Rightarrow> bytes set \<Rightarrow> bool" where
  "block_pays b spks \<longleftrightarrow> list_ex (\<lambda>t. list_ex (\<lambda>out. to_script_pubkey out \<in> spks) (tx_output t)) b"

text \<open>The scripts paid by a list of transactions.\<close>

definition paid_scripts :: "transaction list \<Rightarrow> bytes set" where
  "paid_scripts txs = (\<Union>t \<in> set txs. to_script_pubkey ` set (tx_output t))"

text \<open>What a working node with a block-filter index promises for a scan from \<open>cp\<close>: the filter has no
  false negatives, the blocks it returns are blocks of the chain, and every mempool transaction can
  be fetched.\<close>

definition node_serves :: "node \<Rightarrow> checkpoint \<Rightarrow> transaction list list \<Rightarrow> bool" where
  "node_serves n cp chain \<longleftrightarrow>
     (\<forall>spks. (\<forall>item \<in> set (filter_iter n cp spks). \<exists>ev. item = Ok ev)
        \<and> set (matched_blocks (filter_iter n cp spks)) \<subseteq> set chain
        \<and> (\<forall>b \<in> set chain. block_pays b (set spks) \<longrightarrow> b \<in> set (matched_blocks (filter_iter n cp spks))))
     \<and> (\<exists>ids. get_raw_mempool n = Ok ids \<and> (\<forall>i \<in> set ids. \<exists>t. get_raw_transaction n i = Ok t))"

text \<open>No full gap of unused scripts before position \<open>j\<close>.\<close>

definition no_gap_before :: "nat \<Rightarrow> bytes set \<Rightarrow> (u32 \<times> bytes) list \<Rightarrow> nat \<Rightarrow> bool" where
  "no_gap_before gap paid spks j \<longleftrightarrow>
     (\<forall>k. k + gap \<le> j \<longrightarrow> (\<exists>l. k \<le> l \<and> l < k + gap \<and> snd (spks ! l) \<in> paid))"

definition gap_inv :: "bytes list \<Rightarrow> bytes set \<Rightarrow> (u32 \<times> bytes) list \<Rightarrow> nat \<Rightarrow> gap_state \<Rightarrow> bool" where
  "gap_inv acc paid spks m g \<longleftrightarrow>
     gs_spks g = acc @ map snd (take m spks) \<and> gs_unused g \<le> m
     \<and> (\<forall>j. m - gs_unused g \<le> j \<longrightarrow> j < m \<longrightarrow> snd (spks ! j) \<notin> paid)
     \<and> (if gs_unused g = m then gs_last g = None
        else gs_last g = Some (fst (spks ! (m - gs_unused g - 1))) \<and> snd (spks ! (m - gs_unused g - 1)) \<in> paid)"

definition plan_covers :: "nat \<Rightarrow> bytes set \<Rightarrow> full_scan_plan \<Rightarrow> keychain_kind \<Rightarrow> (u32 \<times> bytes) list \<Rightarrow> bool" where
  "plan_covers gap paid plan kc spks \<longleftrightarrow>
     (\<forall>j < length spks. no_gap_before gap paid spks j \<longrightarrow>
        snd (spks ! j) \<in> set (pl_spks plan)
        \<and> (snd (spks ! j) \<in> paid \<longrightarrow> (\<exists>k. j \<le> k \<and> k < length spks
              \<and> pl_last_active plan kc = Some (fst (spks ! k)) \<and> snd (spks ! k) \<in> paid)))
     \<and> (\<forall>i. pl_last_active plan kc = Some i \<longrightarrow> (\<exists>s \<in> paid. (i, s) \<in> set spks))"

text \<open>A two-block chain seen by a node: block 1 pays the watched script \<open>7\<close>, block 2 holds a
  transaction that spends it without change, listed before an unrelated one.\<close>

definition scan_sample_prims :: prims where
  "scan_sample_prims = sample_prims\<lparr>compute_txid := \<lambda>t. [of_nat (length (tx_input t)), of_nat (length (tx_output t))]\<rparr>"

definition tx_paying :: transaction where
  "tx_paying = \<lparr>tx_version = 2, tx_lock_time = 0, tx_input = [], tx_output = [\<lparr>to_value = 5, to_script_pubkey = [7]\<rparr>]\<rparr>"

definition tx_spending :: transaction where
  "tx_spending = \<lparr>tx_version = 2, tx_lock_time = 0,
     tx_input = [\<lparr>ti_previous_output = OutPoint [0, 1] 0, ti_script_sig = [], ti_sequence = 0, ti_witness = []\<rparr>],
     tx_output = [\<lparr>to_value = 4, to_script_pubkey = [9]\<rparr>]\<rparr>"

definition tx_unrelated :: transaction where
  "tx_unrelated = \<lparr>tx_version = 2, tx_lock_time = 0, tx_input = [],
     tx_output = [\<lparr>to_value = 5, to_script_pubkey = [8]\<rparr>, \<lparr>to_value = 5, to_script_pubkey = [8]\<rparr>]\<rparr>"

definition sample_node :: node where
  "sample_node = \<lparr>
     get_block_hash = (\<lambda>h. Ok [0]), get_block_count = Ok 1,
     filter_iter = (\<lambda>cp spks.
       [Ok \<lparr>ev_cp = [\<lparr>bi_height = 1, bi_hash = [1]\<rparr>], ev_block = Some [tx_spending, tx_paying, tx_unrelated]\<rparr>]),
     get_block_header_info = (\<lambda>h. Ok \<lparr>hi_height = 1, hi_time = 600\<rparr>),
     get_raw_mempool = Ok [], get_raw_transaction = (\<lambda>i. Err (RpcApp (-5) ''No such transaction'')),
     get_raw_transaction_info = (\<lambda>i. Err (RpcApp (-5) ''No such transaction'')),
     send_raw_transaction = (\<lambda>t. Ok []), estimate_smart_fee = (\<lambda>t. Ok None),
     rpc_text = (\<lambda>e. []), txid_text = (\<lambda>i. []), decode_text = (\<lambda>i. [])\<rparr>"

section \<open>Lemmas\<close>

subsection \<open>Blocks and mempool\<close>

lemma keeps_txs_marks [simp]: "keeps_txs (mark_anchor a)" "keeps_txs (mark_seen s)"
  by (simp_all add: keeps_txs_def mark_anchor_def mark_seen_def)

lemma scan_blocks_run:
  assumes T: "txid_binds pr T"
  shows "for_in (\<lambda>i item s. res_bind (res_map_err f item) (\<lambda>ev. Ok (scan_event pr n spks start ev s))) k items (cp, st)
      = Ok (cp', st') \<Longrightarrow> scan_inv pr spks T st \<Longrightarrow> (\<Union>b \<in> set (matched_blocks items). set b) \<subseteq> T \<Longrightarrow>
    scan_inv pr spks T st'
    \<and> sc_known st' = sc_known st \<union> (\<Union>b \<in> set (matched_blocks items). \<Union>t \<in> set b. owned pr spks t)
    \<and> sc_seen st' = sc_seen st \<union> relevant_ids pr spks (sc_known st) (matched_blocks items)"
proof (induction items arbitrary: k cp st)
  case (Cons item items)
  obtain ev where ev: "item = Ok ev" using Cons.prems(1) by (cases item) auto
  show ?case
  proof (cases "ev_block ev")
    case None
    then show ?thesis using Cons.IH [of "Suc k" "ev_cp ev" st] Cons.prems ev by (simp add: scan_event_def)
  next
    case (Some b)
    obtain a where a: "scan_event pr n spks start ev (cp, st) = (ev_cp ev, two_passes pr spks (mark_anchor a) b st)"
      using Some by (auto simp: scan_event_def Let_def)
    let ?s = "two_passes pr spks (mark_anchor a) b st"
    have b: "set b \<subseteq> T" using Cons.prems(3) ev Some by simp
    note s = two_passes_step [OF Cons.prems(2) b T, of "mark_anchor a", simplified]
    have "for_in (\<lambda>i item s. res_bind (res_map_err f item) (\<lambda>ev. Ok (scan_event pr n spks start ev s))) (Suc k) items
        (ev_cp ev, ?s) = Ok (cp', st')"
      using Cons.prems(1) ev a by simp
    from Cons.IH [OF this s(1)] Cons.prems(3)
    show ?thesis using ev Some s(2,3) by (simp add: Let_def Un_assoc)
  qed
qed simp

lemma pending_run:
  "for_in (\<lambda>i txid pending. if txid \<in> seen then Ok pending
      else res_bind (get_tx_optional n txid) (\<lambda>tx. case tx of None \<Rightarrow> Ok pending | Some tx \<Rightarrow> Ok (pending @ [tx])))
      k ids acc = Ok r \<Longrightarrow>
   r = acc @ List.map_filter (\<lambda>i. if i \<in> seen then None else res_ok (get_raw_transaction n i)) ids"
proof (induction ids arbitrary: k acc)
  case (Cons i ids)
  show ?case
  proof (cases "i \<in> seen")
    case True
    then show ?thesis using Cons.IH [of "Suc k" acc] Cons.prems by (simp add: map_filter_simps)
  next
    case False
    then show ?thesis
      using Cons.prems Cons.IH [of "Suc k" acc] Cons.IH [of "Suc k" "acc @ [t]" for t]
      by (cases "get_raw_transaction n i") (auto simp: get_tx_optional_def map_filter_simps split: if_splits)
  qed
qed (simp add: map_filter_simps)

lemma relevant_ids_snoc:
  "relevant_ids pr spks K (bs @ [p]) = relevant_ids pr spks K bs \<union>
     compute_txid pr ` {t \<in> set p. tx_is_relevant t spks (K \<union> (\<Union>b \<in> set bs. \<Union>t \<in> set b. owned pr spks t)
       \<union> (\<Union>t \<in> set p. owned pr spks t))}"
  by (induction bs arbitrary: K) (simp_all add: Let_def Un_assoc)

lemma inv_seen_owned:
  assumes inv: "scan_inv pr spks T st" and T: "txid_binds pr T" "t \<in> T" and "compute_txid pr t \<in> sc_seen st"
  shows "owned pr spks t \<subseteq> sc_known st"
proof -
  obtain t' where t': "t' \<in> set (tu_txs (sc_update st))" "compute_txid pr t = compute_txid pr t'"
    using assms(4) inv by (metis imageE scan_inv_def)
  have "t' \<in> T" using t'(1) inv by (auto simp: scan_inv_def)
  then have "owned pr spks t = owned pr spks t'" using relevant_same_id(2) [OF T(1,2) _ t'(2)] by blast
  also have "\<dots> \<subseteq> sc_known st" using inv t'(1) unfolding scan_inv_def by (meson UN_upper order_trans)
  finally show ?thesis .
qed

text \<open>The mempool pass adds the same ids whether or not the transactions already seen are left out.\<close>

lemma mempool_pass:
  fixes start :: u64
  assumes inv: "scan_inv pr spks T st" and T: "txid_binds pr T" "set M \<subseteq> T"
    and P: "set pending = {t \<in> set M. compute_txid pr t \<notin> sc_seen st}"
  defines "st' \<equiv> two_passes pr spks (mark_seen start) pending st"
  shows "scan_inv pr spks T st'"
    and "sc_seen st' = sc_seen st \<union>
      compute_txid pr ` {t \<in> set M. tx_is_relevant t spks (sc_known st \<union> (\<Union>t \<in> set M. owned pr spks t))}"
proof -
  have sub: "set pending \<subseteq> T" using P T(2) by blast
  note s = two_passes_step [OF inv sub T(1), of "mark_seen start", simplified, folded st'_def]
  show "scan_inv pr spks T st'" by (rule s(1))
  have "owned pr spks t \<subseteq> sc_known st \<union> (\<Union>t \<in> set pending. owned pr spks t)" if "t \<in> set M" for t
    using that P inv_seen_owned [OF inv T(1), of t] T(2) by (cases "compute_txid pr t \<in> sc_seen st") auto
  then have "sc_known st \<union> (\<Union>t \<in> set M. owned pr spks t) = sc_known st \<union> (\<Union>t \<in> set pending. owned pr spks t)"
    using P by blast
  then have k: "sc_known st' = sc_known st \<union> (\<Union>t \<in> set M. owned pr spks t)" using s(2) by simp
  show "sc_seen st' = sc_seen st \<union>
      compute_txid pr ` {t \<in> set M. tx_is_relevant t spks (sc_known st \<union> (\<Union>t \<in> set M. owned pr spks t))}"
    using s(3) P unfolding k by blast
qed

lemma set_map_filter_seen:
  assumes "\<And>i t. get_raw_transaction n i = Ok t \<Longrightarrow> compute_txid pr t = i"
  shows "set (List.map_filter (\<lambda>i. if i \<in> seen then None else res_ok (get_raw_transaction n i)) ids)
    = {t \<in> set (List.map_filter (\<lambda>i. res_ok (get_raw_transaction n i)) ids). compute_txid pr t \<notin> seen}"
proof (induction ids)
  case (Cons i ids)
  show ?case
  proof (cases "get_raw_transaction n i")
    case (Ok t)
    then show ?thesis using assms [OF Ok] Cons.IH by (auto simp: map_filter_simps)
  qed (use Cons.IH in \<open>auto simp: map_filter_simps\<close>)
qed (simp add: map_filter_simps)

subsection \<open>Active scripts\<close>

lemma active_outputs_eq: "active_outputs spks t A = A \<union> spks \<inter> to_script_pubkey ` set (tx_output t)"
proof -
  have "fold (\<lambda>out A. if to_script_pubkey out \<in> spks then insert (to_script_pubkey out) A else A) outs A
      = A \<union> spks \<inter> to_script_pubkey ` set outs" for outs
    by (induction outs arbitrary: A) auto
  then show ?thesis by (simp add: active_outputs_def)
qed

lemma fold_active_outputs: "fold (active_outputs spks) b A = A \<union> spks \<inter> paid_scripts b"
  by (induction b arbitrary: A) (auto simp: active_outputs_eq paid_scripts_def)

lemma active_in_blocks_Ok:
  "\<forall>item \<in> set items. \<exists>ev. item = Ok ev \<Longrightarrow>
   for_in (\<lambda>i item active. res_bind (res_map_err f item)
       (\<lambda>ev. case ev_block ev of None \<Rightarrow> Ok active | Some block \<Rightarrow> Ok (fold (active_outputs spks) block active))) k items A
     = Ok (A \<union> spks \<inter> paid_scripts (concat (matched_blocks items)))"
proof (induction items arbitrary: k A)
  case (Cons item items)
  obtain ev where ev: "item = Ok ev" using Cons.prems by auto
  show ?case
    using Cons.IH Cons.prems ev
    by (cases "ev_block ev") (auto simp: fold_active_outputs paid_scripts_def Un_assoc Int_Un_distrib)
qed (simp add: paid_scripts_def)

lemma active_in_mempool_Ok:
  "\<forall>i \<in> set ids. \<exists>t. get_raw_transaction n i = Ok t \<Longrightarrow>
   for_in (\<lambda>i txid active. res_bind (get_tx_optional n txid) (\<lambda>tx.
       case tx of None \<Rightarrow> Ok active | Some tx \<Rightarrow> Ok (active_outputs spks tx active))) k ids A
     = Ok (A \<union> spks \<inter> paid_scripts (List.map_filter (\<lambda>i. res_ok (get_raw_transaction n i)) ids))"
proof (induction ids arbitrary: k A)
  case (Cons i ids)
  obtain t where t: "get_raw_transaction n i = Ok t" using Cons.prems by auto
  have g: "get_tx_optional n i = Ok (Some t)" using t by (simp add: get_tx_optional_def)
  have "for_in (\<lambda>i txid active. res_bind (get_tx_optional n txid) (\<lambda>tx.
       case tx of None \<Rightarrow> Ok active | Some tx \<Rightarrow> Ok (active_outputs spks tx active))) (Suc k) ids (active_outputs spks t A)
     = Ok (active_outputs spks t A \<union> spks \<inter> paid_scripts (List.map_filter (\<lambda>i. res_ok (get_raw_transaction n i)) ids))"
    using Cons.IH Cons.prems by simp
  then show ?case
    by (simp add: g t active_outputs_eq map_filter_simps paid_scripts_def Un_assoc Int_Un_distrib)
qed (simp add: paid_scripts_def map_filter_simps)

lemma paid_by_chain:
  assumes "node_serves n cp chain"
  shows "set B \<inter> paid_scripts (concat (matched_blocks (filter_iter n cp B))) = set B \<inter> paid_scripts (concat chain)"
proof -
  let ?m = "matched_blocks (filter_iter n cp B)"
  have m: "set ?m \<subseteq> set chain" "b \<in> set chain \<Longrightarrow> block_pays b (set B) \<Longrightarrow> b \<in> set ?m" for b
    using assms by (auto simp: node_serves_def)
  have "s \<in> paid_scripts (concat ?m)" if s: "s \<in> set B" "s \<in> paid_scripts (concat chain)" for s
  proof -
    obtain b t where t: "b \<in> set chain" "t \<in> set b" "s \<in> to_script_pubkey ` set (tx_output t)"
      using s(2) by (auto simp: paid_scripts_def)
    then have "block_pays b (set B)" using s(1) by (auto simp: block_pays_def list_ex_iff)
    then show ?thesis using m(2) t by (auto simp: paid_scripts_def)
  qed
  moreover have "paid_scripts (concat ?m) \<subseteq> paid_scripts (concat chain)"
    using m(1) by (auto simp: paid_scripts_def)
  ultimately show ?thesis by blast
qed

lemma active_spks_in_Ok:
  assumes s: "node_serves n cp chain"
  shows "active_spks_in n B cp = Ok (set B \<inter> paid_scripts (concat chain @ mempool_txs n))"
proof -
  have i: "\<forall>item \<in> set (filter_iter n cp B). \<exists>ev. item = Ok ev" using s by (simp add: node_serves_def)
  obtain ids where ids: "get_raw_mempool n = Ok ids" "\<forall>i \<in> set ids. \<exists>t. get_raw_transaction n i = Ok t"
    using s by (auto simp: node_serves_def)
  have "active_in_blocks (set B) (filter_iter n cp B) = Ok (set B \<inter> paid_scripts (concat chain))"
    unfolding active_in_blocks_def active_in_blocks_Ok [OF i] by (simp add: paid_by_chain [OF s])
  moreover have "active_in_mempool n (set B) ids A = Ok (A \<union> set B \<inter> paid_scripts (mempool_txs n))" for A
    unfolding active_in_mempool_def active_in_mempool_Ok [OF ids(2)] by (simp add: mempool_txs_def ids(1))
  ultimately show ?thesis
    by (auto simp: active_spks_in_def ids(1) paid_scripts_def)
qed

subsection \<open>The stop gap\<close>

text \<open>After \<open>m\<close> scripts of a keychain: the trailing unused ones are counted, and the last active index
  is that of the script just before them.\<close>

lemma gap_step_inv:
  assumes "gap_inv acc paid spks m g" "m < length spks" "snd (spks ! m) \<in> active \<longleftrightarrow> snd (spks ! m) \<in> paid"
  shows "gap_inv acc paid spks (Suc m) (gap_step active (spks ! m) g)"
  using assms
  by (auto simp: gap_inv_def gap_step_def Let_def take_Suc_conv_app_nth less_Suc_eq)

lemma gap_fold_inv:
  assumes "gap_inv acc paid spks m g" "active = snd ` set (take k (drop m spks)) \<inter> paid" "m + k \<le> length spks"
  shows "gap_inv acc paid spks (m + k) (fold (gap_step active) (take k (drop m spks)) g)"
proof -
  have "gap_inv acc paid spks (m + j) (fold (gap_step active) (take j (drop m spks)) g)" if "j \<le> k" for j
    using that
  proof (induction j)
    case (Suc j)
    have j: "m + j < length spks" using Suc.prems assms(3) by simp
    have e: "take (Suc j) (drop m spks) = take j (drop m spks) @ [spks ! (m + j)]"
      using j by (simp add: take_Suc_conv_app_nth)
    have "spks ! (m + j) \<in> set (take k (drop m spks))"
      using Suc.prems j assms(3) by (auto simp: in_set_conv_nth intro!: exI [of _ j])
    then have "snd (spks ! (m + j)) \<in> active \<longleftrightarrow> snd (spks ! (m + j)) \<in> paid" using assms(2) by auto
    with gap_step_inv [OF Suc.IH j this] Suc.prems show ?case by (simp add: e)
  qed (use assms(1) in simp)
  from this [of k] show ?thesis by simp
qed

lemma gap_loop_Ok:
  assumes act: "\<And>B. active_spks_in n B cp = Ok (set B \<inter> paid)" and gap: "0 < gap"
  shows "gap_inv acc paid spks m g \<Longrightarrow> m \<le> length spks \<Longrightarrow>
    \<exists>g' m'. gap_loop n gap cp (drop m spks) g = Ok g' \<and> gap_inv acc paid spks m' g' \<and> m \<le> m' \<and> m' \<le> length spks
      \<and> (m' = length spks \<or> gap \<le> gs_unused g')"
proof (induction "length spks - m" arbitrary: m g rule: less_induct)
  case less
  let ?batch = "take gap (drop m spks)" and ?k = "min gap (length spks - m)"
  have b: "?batch = take ?k (drop m spks)" by (simp add: min_def)
  show ?case
  proof (cases "m = length spks")
    case True
    then have "gap_loop n gap cp (drop m spks) g = Ok g" by (simp add: gap_loop.simps)
    then show ?thesis using less.prems True by blast
  next
    case False
    let ?g = "fold (gap_step (snd ` set ?batch \<inter> paid)) ?batch g"
    have inv: "gap_inv acc paid spks (m + ?k) ?g"
      using gap_fold_inv [OF less.prems(1), of _ ?k] less.prems(2) b by simp
    have m: "m < m + ?k" "m + ?k \<le> length spks" using False less.prems(2) gap by auto
    have step: "gap_loop n gap cp (drop m spks) g =
        (if gs_unused ?g \<ge> gap then Ok ?g else gap_loop n gap cp (drop (m + gap) spks) ?g)"
      using False less.prems(2) gap act by (simp add: gap_loop.simps [of n gap cp "drop m spks"] Let_def add.commute)
    show ?thesis
    proof (cases "gs_unused ?g \<ge> gap")
      case True
      then show ?thesis using step inv m by auto
    next
      case small: False
      have d: "drop (m + gap) spks = drop (m + ?k) spks" by (simp add: min_def)
      have "length spks - (m + ?k) < length spks - m" using m False by simp
      from less.hyps [OF this inv m(2)] obtain g' m' where
        "gap_loop n gap cp (drop (m + ?k) spks) ?g = Ok g'" "gap_inv acc paid spks m' g'" "m + ?k \<le> m'"
        "m' \<le> length spks" "m' = length spks \<or> gap \<le> gs_unused g'" by blast
      then show ?thesis using step small d by (intro exI [of _ g'] exI [of _ m']) simp
    qed
  qed
qed

text \<open>Every script of a keychain before a full gap is among the scripts to scan, and the last active
  index is at least that of any paid one among them.\<close>

lemma gap_covers:
  assumes inv: "gap_inv acc paid spks m g" and m: "m \<le> length spks" "m = length spks \<or> gap \<le> gs_unused g"
    and j: "j < length spks" "no_gap_before gap paid spks j"
  shows "snd (spks ! j) \<in> set (gs_spks g)
    \<and> (snd (spks ! j) \<in> paid \<longrightarrow> (\<exists>k. j \<le> k \<and> k < length spks \<and> gs_last g = Some (fst (spks ! k)) \<and> snd (spks ! k) \<in> paid))"
proof -
  have "j < m"
  proof (rule ccontr)
    assume "\<not> j < m"
    then have u: "gap \<le> gs_unused g" "gs_unused g \<le> m" "m \<le> j" using m(2) j(1) inv by (auto simp: gap_inv_def)
    then have "m - gap + gap \<le> j" by simp
    then obtain l where l: "m - gap \<le> l" "l < m - gap + gap" "snd (spks ! l) \<in> paid"
      using j(2) by (auto simp: no_gap_before_def)
    then have "m - gs_unused g \<le> l" "l < m" using u by auto
    then show False using inv l(3) by (auto simp: gap_inv_def)
  qed
  then have "spks ! j \<in> set (take m spks)" using m(1) by (auto simp: in_set_conv_nth intro!: exI [of _ j])
  then have s: "snd (spks ! j) \<in> set (gs_spks g)" using inv by (auto simp: gap_inv_def)
  have "\<exists>k. j \<le> k \<and> k < length spks \<and> gs_last g = Some (fst (spks ! k)) \<and> snd (spks ! k) \<in> paid"
    if "snd (spks ! j) \<in> paid"
  proof -
    have "j < m - gs_unused g" using inv that \<open>j < m\<close> by (auto simp: gap_inv_def not_less [symmetric])
    then have "gs_unused g \<noteq> m" "j \<le> m - gs_unused g - 1" "m - gs_unused g - 1 < length spks" using m(1) by auto
    then show ?thesis using inv by (auto simp: gap_inv_def)
  qed
  with s show ?thesis by blast
qed

lemma gap_last_paid:
  assumes "gap_inv acc paid spks m g" "m \<le> length spks" "gs_last g = Some i"
  shows "\<exists>s \<in> paid. (i, s) \<in> set spks"
proof -
  let ?k = "m - gs_unused g - 1"
  have k: "i = fst (spks ! ?k)" "snd (spks ! ?k) \<in> paid" "gs_unused g \<noteq> m"
    using assms(1,3) by (auto simp: gap_inv_def split: if_splits)
  then have "?k < length spks" using assms(1,2) by (auto simp: gap_inv_def)
  then show ?thesis using k by (metis nth_mem prod.collapse)
qed

lemma collect_one:
  assumes act: "\<And>B. active_spks_in n B cp = Ok (set B \<inter> paid)" and gap: "0 < gap"
    and none: "pl_last_active plan kc = None"
  shows "\<exists>plan'. collect_step n gap cp (kc, spks) plan = Ok plan' \<and> plan_covers gap paid plan' kc spks
    \<and> set (pl_spks plan) \<subseteq> set (pl_spks plan') \<and> (\<forall>k. k \<noteq> kc \<longrightarrow> pl_last_active plan' k = pl_last_active plan k)"
proof -
  let ?g = "\<lparr>gs_unused = 0, gs_last = None, gs_spks = pl_spks plan\<rparr>"
  have "gap_inv (pl_spks plan) paid spks 0 ?g" by (simp add: gap_inv_def)
  from gap_loop_Ok [OF act gap this] obtain g m where
    g: "gap_loop n gap cp spks ?g = Ok g" "gap_inv (pl_spks plan) paid spks m g"
       "m \<le> length spks" "m = length spks \<or> gap \<le> gs_unused g" by auto
  let ?p = "(case gs_last g of Some i \<Rightarrow> plan\<lparr>pl_spks := gs_spks g, pl_last_active := (pl_last_active plan)(kc \<mapsto> i)\<rparr>
    | None \<Rightarrow> plan\<lparr>pl_spks := gs_spks g\<rparr>)"
  have r: "collect_step n gap cp (kc, spks) plan = Ok ?p"
    by (simp add: collect_step_def g(1) Let_def split: option.split)
  have p: "pl_spks ?p = gs_spks g" "pl_last_active ?p kc = gs_last g"
    "k \<noteq> kc \<Longrightarrow> pl_last_active ?p k = pl_last_active plan k" for k
    using none by (simp_all split: option.split)
  have "plan_covers gap paid ?p kc spks"
    unfolding plan_covers_def p(1,2) using gap_covers [OF g(2-4)] gap_last_paid [OF g(2,3)] by blast
  moreover have "set (pl_spks plan) \<subseteq> set (pl_spks ?p)" using g(2) p(1) by (simp add: gap_inv_def)
  ultimately show ?thesis using r p(3) by blast
qed

lemma plan_covers_mono:
  assumes "plan_covers gap paid plan kc spks" "set (pl_spks plan) \<subseteq> set (pl_spks plan')"
    "pl_last_active plan' kc = pl_last_active plan kc"
  shows "plan_covers gap paid plan' kc spks"
  using assms(1,2) unfolding plan_covers_def assms(3) by (meson subsetD)

lemma collect_all:
  assumes act: "\<And>B. active_spks_in n B cp = Ok (set B \<inter> paid)" and gap: "0 < gap"
  shows "distinct (map fst kcs) \<Longrightarrow> \<forall>kc \<in> fst ` set kcs. pl_last_active plan kc = None \<Longrightarrow>
    \<exists>plan'. for_in (\<lambda>i. collect_step n gap cp) i kcs plan = Ok plan'
      \<and> (\<forall>(kc, spks) \<in> set kcs. plan_covers gap paid plan' kc spks) \<and> set (pl_spks plan) \<subseteq> set (pl_spks plan')
      \<and> (\<forall>kc. kc \<notin> fst ` set kcs \<longrightarrow> pl_last_active plan' kc = pl_last_active plan kc)"
proof (induction kcs arbitrary: i plan)
  case (Cons p kcs)
  obtain kc spks where p: "p = (kc, spks)" by fastforce
  have "pl_last_active plan kc = None" using Cons.prems(2) p by simp
  from collect_one [OF act gap this, of spks] obtain plan1 where
    o: "collect_step n gap cp (kc, spks) plan = Ok plan1" "plan_covers gap paid plan1 kc spks"
       "set (pl_spks plan) \<subseteq> set (pl_spks plan1)" "\<forall>k. k \<noteq> kc \<longrightarrow> pl_last_active plan1 k = pl_last_active plan k"
    by blast
  have n: "kc \<notin> fst ` set kcs" "distinct (map fst kcs)" using Cons.prems(1) p by auto
  have "\<forall>k \<in> fst ` set kcs. pl_last_active plan1 k = None"
  proof
    fix k assume k: "k \<in> fst ` set kcs"
    then have "k \<noteq> kc" using n(1) by blast
    moreover have "k \<in> fst ` set (p # kcs)" using k by simp
    with Cons.prems(2) have "pl_last_active plan k = None" by (rule bspec)
    ultimately show "pl_last_active plan1 k = None" using o(4) by simp
  qed
  from Cons.IH [OF n(2) this, of "Suc i"] obtain plan2 where
    t: "for_in (\<lambda>i. collect_step n gap cp) (Suc i) kcs plan1 = Ok plan2"
       "\<forall>(kc, spks) \<in> set kcs. plan_covers gap paid plan2 kc spks" "set (pl_spks plan1) \<subseteq> set (pl_spks plan2)"
       "\<forall>kc. kc \<notin> fst ` set kcs \<longrightarrow> pl_last_active plan2 kc = pl_last_active plan1 kc" by blast
  have "plan_covers gap paid plan2 kc spks" using plan_covers_mono [OF o(2) t(3)] t(4) n(1) by blast
  moreover have "for_in (\<lambda>i. collect_step n gap cp) i (p # kcs) plan = Ok plan2" using o(1) t(1) p by simp
  moreover have "set (pl_spks plan) \<subseteq> set (pl_spks plan2)" using o(3) t(3) by blast
  moreover have "\<forall>k. k \<notin> fst ` set (p # kcs) \<longrightarrow> pl_last_active plan2 k = pl_last_active plan k"
    using t(4) o(4) p by simp
  ultimately show ?case using t(2) p by (intro exI [of _ plan2]) simp
qed auto

subsection \<open>Evictions\<close>

lemma get_tx_optional_eq_Ok:
  "get_tx_optional n i = Ok r \<longleftrightarrow>
     (\<exists>t. get_raw_transaction n i = Ok t \<and> r = Some t)
     \<or> (\<exists>e. get_raw_transaction n i = Err e \<and> is_not_found e \<and> r = None)"
  by (auto simp: get_tx_optional_def split: res.splits)

lemma two_passes_evicts_none:
  assumes "\<And>i u. tu_evicted_ats (mark i u) = tu_evicted_ats u"
  shows "tu_evicted_ats (sc_update (two_passes pr spks mark txs st)) = tu_evicted_ats (sc_update st)"
proof -
  have "tu_evicted_ats (sc_update (fold (scan_tx pr spks mark) txs st)) = tu_evicted_ats (sc_update st)" for st
    by (induction txs arbitrary: st) (simp_all add: scan_tx_def Let_def assms)
  then show ?thesis by (simp add: two_passes_def scan_pass_def)
qed

lemma scan_spks_evicts_none:
  assumes "scan_spks pr n spks tip start known = Ok (u, chain)"
  shows "tu_evicted_ats u = {}"
proof -
  have blocks: "tu_evicted_ats (sc_update (snd s')) = tu_evicted_ats (sc_update (snd s))"
    if "for_in (\<lambda>i item s. res_bind (res_map_err f item) (\<lambda>ev. Ok (scan_event pr n S start ev s))) k items s = Ok s'"
    for f S k items s s'
    using that
  proof (induction items arbitrary: k s)
    case (Cons item items)
    obtain ev where ev: "item = Ok ev" using Cons.prems by (cases item) auto
    have "tu_evicted_ats (sc_update (snd (scan_event pr n S start ev s))) = tu_evicted_ats (sc_update (snd s))"
      by (auto simp: scan_event_def Let_def two_passes_evicts_none mark_anchor_def split: option.split)
    then show ?case using Cons.IH [of "Suc k" "scan_event pr n S start ev s"] Cons.prems ev by simp
  qed simp
  show ?thesis
  proof (cases "spks = []")
    case True
    then show ?thesis using assms by (auto simp: scan_spks_def res_simps tx_update_default_def)
  next
    case False
    then obtain cp cp' st pending where
        "scan_blocks pr n (set spks) start (filter_iter n cp spks)
          (cp, \<lparr>sc_known = known, sc_seen = {}, sc_update = tx_update_default\<rparr>) = Ok (cp', st)"
      and u: "u = sc_update (two_passes pr (set spks) (mark_seen start) pending st)"
      using assms by (auto simp: scan_spks_def res_simps)
    from blocks [OF this(1) [unfolded scan_blocks_def]] show ?thesis
      by (simp add: u two_passes_evicts_none mark_seen_def tx_update_default_def)
  qed
qed

lemma scan_pass_txs:
  assumes "keeps_txs mark"
  shows "set (tu_txs (sc_update (scan_pass pr spks mark txs st))) \<subseteq> set txs \<union> set (tu_txs (sc_update st))"
  unfolding scan_pass_def
proof (induction txs arbitrary: st)
  case (Cons t txs)
  have "set (tu_txs (sc_update (scan_tx pr spks mark t st))) \<subseteq> insert t (set (tu_txs (sc_update st)))"
    using assms by (simp add: scan_tx_def keeps_txs_def Let_def subset_insertI)
  then show ?case using Cons.IH [of "scan_tx pr spks mark t st"] by auto
qed simp

lemma fetch_expected_Ok:
  assumes "fetch_expected n spks txids (K, P) = Ok (K', P')"
  shows "P' = P \<union> {x \<in> set txids. \<exists>t. get_raw_transaction n x = Ok t}
    \<and> (\<forall>x \<in> set txids. (\<exists>t. get_raw_transaction n x = Ok t) \<or> (\<exists>e. get_raw_transaction n x = Err e \<and> is_not_found e))"
proof -
  have "P' = P \<union> {x \<in> set txids. \<exists>t. get_raw_transaction n x = Ok t}
      \<and> (\<forall>x \<in> set txids. (\<exists>t. get_raw_transaction n x = Ok t) \<or> (\<exists>e. get_raw_transaction n x = Err e \<and> is_not_found e))"
    if "for_in (\<lambda>i txid (known, present). res_bind (get_tx_optional n txid) (\<lambda>tx.
       case tx of None \<Rightarrow> Ok (known, present)
       | Some tx \<Rightarrow> Ok (note_outputs txid spks 0 (tx_output tx) known, insert txid present))) k txids (K, P) = Ok (K', P')"
    for k K P
    using that
  proof (induction txids arbitrary: k K P)
    case (Cons x xs)
    from Cons.prems show ?case
      by (auto simp: res_bind_eq_Ok get_tx_optional_eq_Ok dest!: Cons.IH)
  qed simp
  from this [OF assms [unfolded fetch_expected_def]] show ?thesis .
qed

lemma fetch_all_Ok:
  "for_in (\<lambda>i p s. fetch_expected n spks (snd p) s) k es (K, P) = Ok (K', P') \<Longrightarrow>
   P' = P \<union> {x. \<exists>p \<in> set es. x \<in> set (snd p) \<and> (\<exists>t. get_raw_transaction n x = Ok t)}
   \<and> (\<forall>p \<in> set es. \<forall>x \<in> set (snd p). (\<exists>t. get_raw_transaction n x = Ok t)
        \<or> (\<exists>e. get_raw_transaction n x = Err e \<and> is_not_found e))"
proof (induction es arbitrary: k K P)
  case (Cons p es)
  obtain K1 P1 where f: "fetch_expected n spks (snd p) (K, P) = Ok (K1, P1)"
    and r: "for_in (\<lambda>i p s. fetch_expected n spks (snd p) s) (Suc k) es (K1, P1) = Ok (K', P')"
    using Cons.prems by (auto simp: res_bind_eq_Ok)
  from fetch_expected_Ok [OF f] Cons.IH [OF r] show ?case by auto
qed simp

lemma mark_evictions_eq:
  "tu_evicted_ats (mark_evictions start P es u)
     = tu_evicted_ats u \<union> {(x, start) |x. x \<notin> P \<and> (\<exists>p \<in> set es. x \<in> set (snd p))}"
  "tu_txs (mark_evictions start P es u) = tu_txs u"
proof -
  let ?f = "\<lambda>txid u. if txid \<notin> P then mark_evicted start txid u else u"
  have i: "tu_evicted_ats (fold ?f xs u) = tu_evicted_ats u \<union> {(x, start) |x. x \<notin> P \<and> x \<in> set xs}"
    and t: "tu_txs (fold ?f xs u) = tu_txs u" for xs u
    by (induction xs arbitrary: u) (auto simp: mark_evicted_def)
  show "tu_evicted_ats (mark_evictions start P es u)
      = tu_evicted_ats u \<union> {(x, start) |x. x \<notin> P \<and> (\<exists>p \<in> set es. x \<in> set (snd p))}"
    unfolding mark_evictions_def by (induction es arbitrary: u) (auto simp: i case_prod_beta)
  show "tu_txs (mark_evictions start P es u) = tu_txs u"
    unfolding mark_evictions_def by (induction es arbitrary: u) (simp_all add: t case_prod_beta)
qed

lemma lookup_txid_Ok:
  assumes "lookup_txid n start x (P, u) = Ok (P', u')"
  shows "tu_evicted_ats u \<subseteq> tu_evicted_ats u' \<and> set (tu_txs u) \<subseteq> set (tu_txs u')
    \<and> tu_evicted_ats u' \<subseteq> tu_evicted_ats u \<union>
      {(y, start) |y. y = x \<and> (\<exists>e. get_raw_transaction_info n x = Err e \<and> is_not_found e)}"
proof (cases "x \<in> P")
  case True
  then show ?thesis using assms by (simp add: lookup_txid_def)
next
  case False
  show ?thesis
  proof (cases "get_raw_transaction_info n x")
    case (Ok info)
    then show ?thesis using False assms
      by (auto simp: lookup_txid_def res_simps Let_def mark_anchor_def mark_seen_def split: option.splits)
  next
    case (Err e)
    then show ?thesis using False assms
      by (auto simp: lookup_txid_def mark_evicted_def split: if_splits)
  next
    case Panic
    then show ?thesis using False assms by (simp add: lookup_txid_def)
  qed
qed

lemma lookup_txids_Ok:
  "for_in (\<lambda>i x s. lookup_txid n start x s) k xs (P, u) = Ok (P', u') \<Longrightarrow>
   tu_evicted_ats u \<subseteq> tu_evicted_ats u' \<and> set (tu_txs u) \<subseteq> set (tu_txs u')
   \<and> tu_evicted_ats u' \<subseteq> tu_evicted_ats u \<union>
      {(y, start) |y. y \<in> set xs \<and> (\<exists>e. get_raw_transaction_info n y = Err e \<and> is_not_found e)}"
proof (induction xs arbitrary: k P u)
  case (Cons x xs)
  obtain P1 u1 where s: "lookup_txid n start x (P, u) = Ok (P1, u1)"
    and r: "for_in (\<lambda>i x s. lookup_txid n start x s) (Suc k) xs (P1, u1) = Ok (P', u')"
    using Cons.prems by (auto simp: res_bind_eq_Ok)
  note a = lookup_txid_Ok [OF s] and b = Cons.IH [OF r]
  let ?D = "\<lambda>xs. {(y, start) |y. y \<in> set xs \<and> (\<exists>e. get_raw_transaction_info n y = Err e \<and> is_not_found e)}"
  let ?X = "{(y, start) |y. y = x \<and> (\<exists>e. get_raw_transaction_info n x = Err e \<and> is_not_found e)}"
  have a1: "tu_evicted_ats u \<subseteq> tu_evicted_ats u1" and a2: "set (tu_txs u) \<subseteq> set (tu_txs u1)"
    and a3: "tu_evicted_ats u1 \<subseteq> tu_evicted_ats u \<union> ?X" using a by simp_all
  have b1: "tu_evicted_ats u1 \<subseteq> tu_evicted_ats u'" and b2: "set (tu_txs u1) \<subseteq> set (tu_txs u')"
    and b3: "tu_evicted_ats u' \<subseteq> tu_evicted_ats u1 \<union> ?D xs" using b by simp_all
  have "?X \<subseteq> ?D (x # xs)" by (rule subsetI) (elim CollectE exE conjE, simp)
  moreover have "?D xs \<subseteq> ?D (x # xs)" by (rule subsetI) (elim CollectE exE conjE, simp)
  ultimately have "tu_evicted_ats u1 \<union> ?D xs \<subseteq> tu_evicted_ats u \<union> ?D (x # xs)"
    by (intro Un_least order_trans [OF a3] Un_mono order_refl le_supI2)
  from order_trans [OF b3 this] show ?case
    by (intro conjI order_trans [OF a1 b1] order_trans [OF a2 b2])
qed simp

lemma lookup_outpoint_Ok:
  assumes "lookup_outpoint n op (P, u) = Ok (P', u')"
  shows "tu_evicted_ats u' = tu_evicted_ats u \<and> set (tu_txs u) \<subseteq> set (tu_txs u')"
  using assms by (auto simp: lookup_outpoint_def res_simps Let_def split: if_splits option.splits)

lemma lookup_outpoints_Ok:
  "for_in (\<lambda>i op s. lookup_outpoint n op s) k ops (P, u) = Ok (P', u') \<Longrightarrow>
   tu_evicted_ats u' = tu_evicted_ats u \<and> set (tu_txs u) \<subseteq> set (tu_txs u')"
proof (induction ops arbitrary: k P u)
  case (Cons op ops)
  obtain P1 u1 where s: "lookup_outpoint n op (P, u) = Ok (P1, u1)"
    and r: "for_in (\<lambda>i op s. lookup_outpoint n op s) (Suc k) ops (P1, u1) = Ok (P', u')"
    using Cons.prems by (auto simp: res_bind_eq_Ok)
  from lookup_outpoint_Ok [OF s] Cons.IH [OF r] show ?case by auto
qed simp

section \<open>Properties\<close>

text \<open>C10: A successful scan reports exactly the transactions that concern the wallet, each once: of
  the blocks the filter matched and the mempool, those that pay a watched script, spend an output
  known before, or spend a watched output created in the same or an earlier block, whatever the order
  in which a block or the mempool lists them. Two passes suffice because only watched outputs become
  known. The hypotheses are that a transaction id binds outputs and inputs, and that the node answers
  an id with the transaction of that id.\<close>

theorem scan_reports_exactly:
  assumes "scan_spks pr n spks tip start known = Ok (u, chain)" "spks \<noteq> []"
    and "(case tip of Some cp \<Rightarrow> Ok cp | None \<Rightarrow> genesis_checkpoint n) = Ok start_cp"
    and "txid_binds pr ((\<Union>b \<in> set (matched_blocks (filter_iter n start_cp spks)). set b) \<union> set (mempool_txs n))"
    and "\<forall>i t. get_raw_transaction n i = Ok t \<longrightarrow> compute_txid pr t = i"
  shows "compute_txid pr ` set (tu_txs u)
      = relevant_ids pr (set spks) known (matched_blocks (filter_iter n start_cp spks) @ [mempool_txs n])
    \<and> distinct (map (compute_txid pr) (tu_txs u))"
proof -
  let ?bs = "matched_blocks (filter_iter n start_cp spks)"
  let ?T = "(\<Union>b \<in> set ?bs. set b) \<union> set (mempool_txs n)"
  let ?s0 = "\<lparr>sc_known = known, sc_seen = {}, sc_update = tx_update_default\<rparr>"
  obtain cp st ids pending where
      b: "scan_blocks pr n (set spks) start (filter_iter n start_cp spks) (start_cp, ?s0) = Ok (cp, st)"
    and m: "get_raw_mempool n = Ok ids" and p: "pending_txs n (sc_seen st) ids = Ok pending"
    and u: "u = sc_update (two_passes pr (set spks) (mark_seen start) pending st)"
    using assms(1-3) by (auto simp: scan_spks_def res_simps split: if_splits)
  have "scan_inv pr (set spks) ?T ?s0" by (simp add: scan_inv_def tx_update_default_def)
  note st = scan_blocks_run [OF assms(4) b [unfolded scan_blocks_def] this, simplified]
  have "set pending = {t \<in> set (mempool_txs n). compute_txid pr t \<notin> sc_seen st}"
    using pending_run [OF p [unfolded pending_txs_def]] set_map_filter_seen [of n pr] assms(5) m
    by (simp add: mempool_txs_def)
  note f = mempool_pass [OF conjunct1 [OF st] assms(4) _ this, of start, folded u, simplified]
  have "compute_txid pr ` set (tu_txs u) = sc_seen (two_passes pr (set spks) (mark_seen start) pending st)"
    using f(1) by (simp add: scan_inv_def u)
  also have "\<dots> = relevant_ids pr (set spks) known (?bs @ [mempool_txs n])"
    using f(2) st by (simp add: relevant_ids_snoc)
  finally show ?thesis using f(1) by (simp add: scan_inv_def u)
qed

text \<open>The changeless spend is listed before the payment it spends, and is found.\<close>

theorem scan_reports_exactly_witness:
  "\<exists>u chain. scan_spks scan_sample_prims sample_node [[7]] None 1000 {} = Ok (u, chain)
    \<and> compute_txid scan_sample_prims ` set (tu_txs u) = {[0, 1], [1, 1]}"
proof -
  let ?n = sample_node and ?pr = scan_sample_prims
  obtain u chain where r: "scan_spks ?pr ?n [[7]] None 1000 {} = Ok (u, chain)"
    by (simp add: scan_spks_def genesis_checkpoint_def sample_node_def scan_blocks_def
      pending_txs_def scan_event_def Let_def)
  have bs: "matched_blocks (filter_iter ?n cp spks) = [[tx_spending, tx_paying, tx_unrelated]]"
    and m: "mempool_txs ?n = []" for cp spks
    by (simp_all add: sample_node_def mempool_txs_def map_filter_simps)
  have g: "(case None of Some cp \<Rightarrow> Ok cp | None \<Rightarrow> genesis_checkpoint ?n) = Ok [\<lparr>bi_height = 0, bi_hash = [0]\<rparr>]"
    by (simp add: genesis_checkpoint_def sample_node_def)
  have t: "txid_binds ?pr {tx_spending, tx_paying, tx_unrelated}"
    by (simp add: txid_binds_def scan_sample_prims_def tx_spending_def tx_paying_def tx_unrelated_def)
  have a: "\<forall>i t. get_raw_transaction ?n i = Ok t \<longrightarrow> compute_txid ?pr t = i"
    by (simp add: sample_node_def)
  note defs = scan_sample_prims_def owned_def tx_is_relevant_def tx_spending_def tx_paying_def tx_unrelated_def
  have o: "owned ?pr {[7]} tx_spending = {}" "owned ?pr {[7]} tx_paying = {OutPoint [0, 1] 0}"
    "owned ?pr {[7]} tx_unrelated = {}" by (simp_all add: defs)
  have r': "tx_is_relevant tx_spending {[7]} {OutPoint [0, 1] 0}" "tx_is_relevant tx_paying {[7]} K"
    "\<not> tx_is_relevant tx_unrelated {[7]} {OutPoint [0, 1] 0}" for K by (simp_all add: defs)
  have "{t \<in> {tx_spending, tx_paying, tx_unrelated}. tx_is_relevant t {[7]} {OutPoint [0, 1] 0}} = {tx_spending, tx_paying}"
    using r' by auto
  then have ids: "relevant_ids ?pr {[7]} {} [[tx_spending, tx_paying, tx_unrelated], []] = {[0, 1], [1, 1]}"
    by (simp add: o) (auto simp: defs)
  have "compute_txid ?pr ` set (tu_txs u) = {[0, 1], [1, 1]}"
    using scan_reports_exactly [OF r _ g] t a ids by (simp add: bs m)
  with r show ?thesis by blast
qed

text \<open>C19: Against a working node the collection of scripts for a full scan always ends with a plan, and
  the plan misses nothing short of a full gap: a script of a keychain that is not preceded by
  a stop gap of consecutive scripts without payment, in the chain or the mempool, is in the plan, and the
  reported last active index is the index of a paid script at or after every such paid one.\<close>

theorem full_scan_plan_complete:
  assumes "genesis_checkpoint n = Ok cp" "node_serves n cp chain" "0 < stop_gap" "distinct (map fst keychains)"
  shows "\<exists>plan. collect_full_scan_spks n stop_gap keychains = Ok plan
    \<and> (\<forall>(kc, spks) \<in> set keychains. plan_covers stop_gap (paid_scripts (concat chain @ mempool_txs n)) plan kc spks)"
proof -
  have "collect_full_scan_spks n stop_gap keychains
      = for_in (\<lambda>i. collect_step n stop_gap cp) 0 keychains \<lparr>pl_spks = [], pl_last_active = Map.empty\<rparr>"
    by (simp add: collect_full_scan_spks_def assms(1))
  then show ?thesis
    using collect_all [OF active_spks_in_Ok [OF assms(2)] assms(3,4),
      of "\<lparr>pl_spks = [], pl_last_active = Map.empty\<rparr>" 0] by auto
qed

text \<open>Scripts 7 and 8 are paid; with a gap of two the unused script 6 between them does not end the scan.\<close>

theorem full_scan_plan_complete_witness:
  "\<exists>plan. collect_full_scan_spks sample_node 2 [(KeychainExternal, [(0, [7]), (1, [6]), (2, [8]), (3, [5])])] = Ok plan
    \<and> [8] \<in> set (pl_spks plan) \<and> pl_last_active plan KeychainExternal = Some 2"
proof -
  let ?kc = "[(0, [7]), (1, [6]), (2, [8]), (3, [5])] :: (u32 \<times> bytes) list"
  let ?b = "[tx_spending, tx_paying, tx_unrelated]"
  let ?paid = "paid_scripts (concat [?b] @ mempool_txs sample_node)"
  have g: "genesis_checkpoint sample_node = Ok [\<lparr>bi_height = 0, bi_hash = [0]\<rparr>]"
    by (simp add: genesis_checkpoint_def sample_node_def)
  have s: "node_serves sample_node cp [?b]" for cp by (simp add: node_serves_def sample_node_def)
  have paid: "?paid = {[7], [8], [9]}"
    by (auto simp: paid_scripts_def mempool_txs_def sample_node_def map_filter_simps tx_spending_def tx_paying_def tx_unrelated_def)
  obtain plan where plan: "collect_full_scan_spks sample_node 2 [(KeychainExternal, ?kc)] = Ok plan"
      "plan_covers 2 ?paid plan KeychainExternal ?kc"
    using full_scan_plan_complete [OF g s, of 2 "[(KeychainExternal, ?kc)]"] by auto
  have "no_gap_before 2 ?paid ?kc 2" unfolding no_gap_before_def paid by (auto intro!: exI [of _ 0])
  then have c: "[8] \<in> set (pl_spks plan)"
    "\<exists>k. 2 \<le> k \<and> k < length ?kc \<and> pl_last_active plan KeychainExternal = Some (fst (?kc ! k)) \<and> snd (?kc ! k) \<in> {[7], [8], [9]}"
    using plan(2) [unfolded plan_covers_def, THEN conjunct1, rule_format, of 2] unfolding paid by simp_all
  then obtain k where k: "2 \<le> k" "k < length ?kc" "pl_last_active plan KeychainExternal = Some (fst (?kc ! k))"
    "snd (?kc ! k) \<in> {[7], [8], [9]}" by blast
  then have "k = 2 \<or> k = 3" by auto
  then have "pl_last_active plan KeychainExternal = Some 2" using k(3,4) by auto
  with plan(1) c(1) show ?thesis by blast
qed

text \<open>C33: A sync evicts exactly what is gone: an evicted transaction is one the wallet expected, or
  asked for by id, and the node itself reported as not found; and every expected transaction that the
  node reports as not found and the scan did not turn up again is evicted. A failing or unavailable
  look-up never evicts: it fails the sync.\<close>

theorem sync_evicts_missing:
  assumes "core_sync pr order b req = Ok w" "set (order (expected_txids (sr_spks req))) = set (expected_txids (sr_spks req))"
  shows "(\<forall>x t. (x, t) \<in> tu_evicted_ats (wu_tx_update w) \<longrightarrow> t = sr_start_time req \<and>
        ((\<exists>p \<in> set (expected_txids (sr_spks req)). x \<in> set (snd p))
           \<and> (\<exists>e. get_raw_transaction (cr_client b) x = Err e \<and> is_not_found e)
         \<or> x \<in> set (sr_txids req) \<and> (\<exists>e. get_raw_transaction_info (cr_client b) x = Err e \<and> is_not_found e)))
    \<and> (\<forall>p \<in> set (expected_txids (sr_spks req)). \<forall>x \<in> set (snd p).
        (\<exists>e. get_raw_transaction (cr_client b) x = Err e \<and> is_not_found e)
        \<and> x \<notin> compute_txid pr ` set (tu_txs (wu_tx_update w))
        \<longrightarrow> (x, sr_start_time req) \<in> tu_evicted_ats (wu_tx_update w))"
proof -
  let ?n = "cr_client b" and ?t = "sr_start_time req" and ?E = "order (expected_txids (sr_spks req))"
  obtain K P u chain P1 u1 P2 u2 where
      f: "for_in (\<lambda>i p s. fetch_expected ?n (set (map fst (sr_spks req))) (snd p) s) 0 ?E ({}, {}) = Ok (K, P)"
    and s: "scan_spks pr ?n (map fst (sr_spks req)) (sr_chain_tip req) ?t (K \<union> set (sr_outpoints req)) = Ok (u, chain)"
    and l: "for_in (\<lambda>i x s. lookup_txid ?n ?t x s) 0 (sr_txids req) (P \<union> compute_txid pr ` set (tu_txs u),
        mark_evictions ?t (P \<union> compute_txid pr ` set (tu_txs u)) ?E u) = Ok (P1, u1)"
    and o: "for_in (\<lambda>i op s. lookup_outpoint ?n op s) 0 (sr_outpoints req) (P1, u1) = Ok (P2, u2)"
    and w: "wu_tx_update w = u2"
    using assms(1) by (auto simp: core_sync_def res_simps Let_def)
  let ?P = "P \<union> compute_txid pr ` set (tu_txs u)"
  let ?D = "{(x, ?t) |x. x \<notin> ?P \<and> (\<exists>p \<in> set ?E. x \<in> set (snd p))}"
  let ?L = "{(y, ?t) |y. y \<in> set (sr_txids req) \<and> (\<exists>e. get_raw_transaction_info ?n y = Err e \<and> is_not_found e)}"
  note a = lookup_txids_Ok [OF l, unfolded mark_evictions_eq scan_spks_evicts_none [OF s] Un_empty_left]
  note c = lookup_outpoints_Ok [OF o]
  have e1: "tu_evicted_ats u2 = tu_evicted_ats u1" using c by (rule conjunct1)
  have e2: "set (tu_txs u) \<subseteq> set (tu_txs u2)" by (rule order_trans [OF conjunct1 [OF conjunct2 [OF a]] conjunct2 [OF c]])
  have e3: "?D \<subseteq> tu_evicted_ats u1" using a by (rule conjunct1)
  have e4: "tu_evicted_ats u1 \<subseteq> ?D \<union> ?L" using a by (elim conjE)
  have p: "x \<in> P \<longleftrightarrow> (\<exists>t. get_raw_transaction ?n x = Ok t)"
    "(\<exists>t. get_raw_transaction ?n x = Ok t) \<or> (\<exists>e. get_raw_transaction ?n x = Err e \<and> is_not_found e)"
    if "\<exists>p \<in> set ?E. x \<in> set (snd p)" for x
    using fetch_all_Ok [OF f] that by blast+
  have "t = ?t \<and>
      ((\<exists>p \<in> set ?E. x \<in> set (snd p)) \<and> (\<exists>e. get_raw_transaction ?n x = Err e \<and> is_not_found e)
       \<or> x \<in> set (sr_txids req) \<and> (\<exists>e. get_raw_transaction_info ?n x = Err e \<and> is_not_found e))"
    if "(x, t) \<in> tu_evicted_ats u2" for x t
  proof -
    from that e1 e4 have "(x, t) \<in> ?D \<or> (x, t) \<in> ?L" by blast
    then show ?thesis
    proof
      assume "(x, t) \<in> ?D"
      then have d: "t = ?t" "x \<notin> P" "\<exists>p \<in> set ?E. x \<in> set (snd p)" by auto
      with p [OF d(3)] show ?thesis by blast
    qed blast
  qed
  moreover have "(x, ?t) \<in> tu_evicted_ats u2"
    if "p \<in> set ?E" "x \<in> set (snd p)" "\<exists>e. get_raw_transaction ?n x = Err e \<and> is_not_found e"
      "x \<notin> compute_txid pr ` set (tu_txs u2)" for p x
  proof -
    have m: "\<exists>p \<in> set ?E. x \<in> set (snd p)" using that(1,2) by blast
    have "x \<notin> P" using p(1) [OF m] that(3) by auto
    moreover have "x \<notin> compute_txid pr ` set (tu_txs u)" using that(4) e2 by blast
    ultimately have "(x, ?t) \<in> ?D" using m by simp
    then show ?thesis using e1 e3 by blast
  qed
  ultimately show ?thesis unfolding w assms(2) by blast
qed

text \<open>The expected payment is in the scanned block, the other expected id is unknown to the node.\<close>

theorem sync_evicts_missing_witness:
  "\<exists>w. core_sync scan_sample_prims id \<lparr>cr_client = sample_node, cr_stop_gap = 20\<rparr>
       \<lparr>sr_start_time = 1000, sr_chain_tip = None, sr_spks = [([7], [[0, 1], [3]])], sr_txids = [], sr_outpoints = []\<rparr> = Ok w
     \<and> ([3], 1000) \<in> tu_evicted_ats (wu_tx_update w)"
proof -
  let ?req = "\<lparr>sr_start_time = 1000, sr_chain_tip = None, sr_spks = [([7], [[0, 1], [3]])], sr_txids = [], sr_outpoints = []\<rparr>"
  let ?b = "\<lparr>cr_client = sample_node, cr_stop_gap = 20\<rparr>"
  have nf: "is_not_found (RpcApp (-5) ''No such transaction'')" by code_simp
  have g: "get_raw_transaction sample_node i = Err (RpcApp (-5) ''No such transaction'')" for i by (simp add: sample_node_def)
  note r = scan_spks_def genesis_checkpoint_def sample_node_def scan_blocks_def pending_txs_def scan_event_def Let_def
  have E: "expected_txids [([7], [[0, 1], [3]])] = [([7], [[0, 1], [3]])]" by (simp add: expected_txids_def hm_insert_def)
  obtain u chain where s: "scan_spks scan_sample_prims sample_node [[7]] None 1000 {} = Ok (u, chain)"
    by (simp add: r)
  let ?st = "\<lparr>sc_known = {}, sc_seen = {}, sc_update = tx_update_default\<rparr>"
  let ?m = "mark_anchor \<lparr>cf_block = \<lparr>bi_height = 1, bi_hash = [1]\<rparr>, cf_time = 600\<rparr>"
  let ?ts = "[tx_spending, tx_paying, tx_unrelated]"
  let ?p = "scan_pass scan_sample_prims {[7]} ?m ?ts"
  have "u = sc_update (?p (?p ?st))"
    using s by (simp add: r two_passes_def) (simp add: scan_pass_def)
  then have tx: "set (tu_txs u) \<subseteq> {tx_spending, tx_paying, tx_unrelated}"
    using scan_pass_txs [of ?m scan_sample_prims "{[7]}" ?ts ?st] scan_pass_txs [of ?m scan_sample_prims "{[7]}" ?ts "?p ?st"]
    by (auto simp: tx_update_default_def)
  have f: "fetch_expected sample_node {[7]} [[0, 1], [3]] ({}, {}) = Ok ({}, {})"
    by (simp add: fetch_expected_def get_tx_optional_def g nf)
  obtain w where w: "core_sync scan_sample_prims id ?b ?req = Ok w" "tu_txs (wu_tx_update w) = tu_txs u"
    using s f by (simp add: core_sync_def E Let_def mark_evictions_eq)
  have "[3] \<notin> compute_txid scan_sample_prims ` set (tu_txs (wu_tx_update w))"
    using tx unfolding w(2) by (auto simp: scan_sample_prims_def)
  then have "([3], 1000) \<in> tu_evicted_ats (wu_tx_update w)"
    using sync_evicts_missing [OF w(1)] g nf by (simp add: E)
  with w(1) show ?thesis by blast
qed

end
