(* ===== verification/Watch_Descriptor.thy ===== *)
theory Watch_Descriptor
  imports Verify_Parse
begin

text \<open>
  \<open>crates/trinity-watch/src/descriptor/\<close>: building the receive and change descriptors from three
  public keys (\<open>path.rs\<close>, \<open>build.rs\<close>) and the \<open>descriptor.json\<close> document (\<open>document.rs\<close>,
  \<open>source.rs\<close>, \<open>error.rs\<close>).

  The miniscript library is a parameter: the record \<open>miniscript\<close> holds the calls the code makes,
  over its own type of keys. \<open>serde_json\<close> is the pair of its two calls. A \<open>[KeyContribution; 3]\<close> is a
  list of three.

  The lemmas show that a stored document loads exactly when it is what building from its keys gives,
  that a stored wallet is read back, and that the independent parser of \<open>trinity-verify\<close> accepts what
  is built here.
\<close>

section \<open>Definitions\<close>

subsection \<open>Errors and sources\<close>

datatype descriptor_error =
    DE_DuplicateFingerprint string
  | DE_MultipathForbidden
  | DE_PrivateKeyForbidden
  | DE_InvalidOriginPath string
  | DE_InvalidKeyExpression string
  | DE_ForeignGrammar string
  | DE_Construction string
  | DE_Json string
  | DE_InvalidDocument string

datatype key_source_kind = InApp | Hardware string

fun is_hardware :: "key_source_kind \<Rightarrow> bool" where
  "is_hardware (Hardware model) = True"
| "is_hardware InApp = False"

subsection \<open>The miniscript library\<close>

datatype 'k descriptor = DWshSortedMulti nat "'k list" | DWshMs | DSh | DWpkh | DPkh | DTr | DBare

record 'k miniscript =
  ms_key_from_str :: "string \<Rightarrow> ('k, string) res"
  ms_is_multipath :: "'k \<Rightarrow> bool"
  ms_new_wsh_sortedmulti :: "nat \<Rightarrow> 'k list \<Rightarrow> ('k descriptor, string) res"
  ms_descriptor_text :: "'k descriptor \<Rightarrow> string"
  ms_descriptor_from_str :: "string \<Rightarrow> ('k descriptor, string) res"
  ms_bip32_text :: "bip32_error \<Rightarrow> string"

subsection \<open>BIP-48 paths\<close>

definition BIP48_PURPOSE :: u32 where "BIP48_PURPOSE = 48"
definition BIP48_SCRIPT_P2WSH :: u32 where "BIP48_SCRIPT_P2WSH = 2"
definition BIP48_ACCOUNT :: u32 where "BIP48_ACCOUNT = 0"

definition u32_text :: "u32 \<Rightarrow> string" where
  "u32_text n = digits_of (unat n)"

definition bip48_origin_path :: "network \<Rightarrow> string" where
  "bip48_origin_path net =
     u32_text BIP48_PURPOSE @ [CHR 0x27, CHR ''/''] @ u32_text (coin_type net) @ [CHR 0x27, CHR ''/'']
     @ u32_text BIP48_ACCOUNT @ [CHR 0x27, CHR ''/''] @ u32_text BIP48_SCRIPT_P2WSH @ [CHR 0x27]"

definition expected_bip48_children :: "network \<Rightarrow> (child_number list, descriptor_error) res" where
  "expected_bip48_children net =
     for_in (\<lambda>_ idx out. res_bind (expect (res_ok (child_from_idx Hardened idx))) (\<lambda>c. Ok (out @ [c]))) 0
       [BIP48_PURPOSE, coin_type net, BIP48_ACCOUNT, BIP48_SCRIPT_P2WSH] []"

definition strip_m_prefix :: "string \<Rightarrow> string" where
  "strip_m_prefix path = (case strip_prefix ''m/'' path of Some r \<Rightarrow> r | None \<Rightarrow> path)"

definition validate_bip48_origin :: "'k miniscript \<Rightarrow> string \<Rightarrow> network \<Rightarrow> (unit, descriptor_error) res" where
  "validate_bip48_origin ms path net =
     (if CHR ''<'' \<in> set path \<or> CHR '';'' \<in> set path \<or> CHR ''*'' \<in> set path then Err DE_MultipathForbidden
      else
        res_bind (res_map_err (\<lambda>e. DE_InvalidOriginPath (path @ '' ('' @ ms_bip32_text ms e @ '')''))
            (derivation_path_from_str (strip_m_prefix path))) (\<lambda>actual.
        res_bind (expected_bip48_children net) (\<lambda>expected.
        if actual \<noteq> expected then Err (DE_InvalidOriginPath path) else Ok ())))"

definition validate_public_xpub :: "string \<Rightarrow> (unit, descriptor_error) res" where
  "validate_public_xpub xpub =
     (let lower = str_to_ascii_lowercase xpub in
      if starts_with lower ''xprv'' \<or> starts_with lower ''tprv'' then Err DE_PrivateKeyForbidden
      else if CHR ''<'' \<in> set xpub \<or> CHR '';'' \<in> set xpub then Err DE_MultipathForbidden
      else if \<not> (starts_with xpub ''xpub'' \<or> starts_with xpub ''tpub'')
      then Err (DE_InvalidKeyExpression (''expected xpub or tpub, got prefix from '' @ xpub))
      else Ok ())"

subsection \<open>Documents\<close>

definition FORMAT_VERSION :: u32 where "FORMAT_VERSION = 1"

record key_contribution =
  kc_slot :: key_slot
  kc_xpub :: xpub_with_origin
  kc_birthday_height :: u32
  kc_word_count :: word_count
  kc_source :: key_source_kind
  kc_policy_id :: "string option"

record descriptor_setup =
  su_network :: network
  su_keys :: "key_contribution list"
  su_created_at_unix :: u64

record wallet_descriptors =
  wd_format_version :: u32
  wd_network :: network
  wd_created_at_unix :: u64
  wd_receive_descriptor :: string
  wd_change_descriptor :: string
  wd_keys :: "key_contribution list"

subsection \<open>Building\<close>

definition MULTISIG_THRESHOLD :: nat where "MULTISIG_THRESHOLD = 2"
definition RECEIVE_SUFFIX :: string where "RECEIVE_SUFFIX = ''0/*''"
definition CHANGE_SUFFIX :: string where "CHANGE_SUFFIX = ''1/*''"

fun slot_text :: "key_slot \<Rightarrow> string" where
  "slot_text SlotA = ''A''"
| "slot_text SlotB = ''B''"
| "slot_text SlotC = ''C''"

definition slot_index :: "key_contribution \<Rightarrow> nat" where
  "slot_index k = unat (slot_as_u8 (kc_slot k))"

definition order_by_slot :: "key_contribution list \<Rightarrow> (key_contribution list, descriptor_error) res" where
  "order_by_slot keys =
     (let out = foldl (\<lambda>out k. out[slot_index k := Some k]) [None, None, None] keys in
      res_bind (expect (out ! 0)) (\<lambda>a.
      res_bind (expect (out ! 1)) (\<lambda>b.
      res_bind (expect (out ! 2)) (\<lambda>c. Ok [a, b, c]))))"

definition check_distinct_fingerprints :: "key_contribution list \<Rightarrow> (unit, descriptor_error) res" where
  "check_distinct_fingerprints keys =
     for_check (\<lambda>i a. for_check (\<lambda>_ b.
         if xo_fingerprint (kc_xpub a) = xo_fingerprint (kc_xpub b)
         then Err (DE_DuplicateFingerprint (fp_to_hex (xo_fingerprint (kc_xpub a)))) else Ok ())
       0 (drop (i + 1) keys)) 0 keys"

definition validate_slots_and_fingerprints :: "key_contribution list \<Rightarrow> (unit, descriptor_error) res" where
  "validate_slots_and_fingerprints keys =
     res_bind (for_in (\<lambda>_ k seen.
         if seen ! slot_index k then Err (DE_InvalidDocument (''duplicate key slot '' @ slot_text (kc_slot k)))
         else Ok (seen[slot_index k := True])) 0 keys [False, False, False]) (\<lambda>seen.
     if seen \<noteq> [True, True, True] then Err (DE_InvalidDocument ''keys must cover slots A, B, and C'')
     else check_distinct_fingerprints keys)"

definition key_expression_text :: "xpub_with_origin \<Rightarrow> string \<Rightarrow> string" where
  "key_expression_text x suffix =
     ''['' @ fp_to_hex (xo_fingerprint x) @ ''/'' @ strip_m_prefix (xo_origin_path x) @ '']'' @ xo_xpub x @ ''/'' @ suffix"

definition key_expression :: "'k miniscript \<Rightarrow> xpub_with_origin \<Rightarrow> string \<Rightarrow> ('k, descriptor_error) res" where
  "key_expression ms x suffix =
     (let expr = key_expression_text x suffix in
      if CHR ''<'' \<in> set expr \<or> CHR '';'' \<in> set expr then Err DE_MultipathForbidden
      else res_map_err (\<lambda>e. DE_InvalidKeyExpression (expr @ '': '' @ e)) (ms_key_from_str ms expr))"

definition build_sortedmulti_string ::
    "'k miniscript \<Rightarrow> key_contribution list \<Rightarrow> string \<Rightarrow> (string, descriptor_error) res" where
  "build_sortedmulti_string ms keys suffix =
     res_bind (res_traverse (\<lambda>k. key_expression ms (kc_xpub k) suffix) keys) (\<lambda>pks.
     res_bind (res_map_err DE_Construction (ms_new_wsh_sortedmulti ms MULTISIG_THRESHOLD pks)) (\<lambda>desc.
     Ok (ms_descriptor_text ms desc)))"

definition build_sortedmulti_permutation ::
    "'k miniscript \<Rightarrow> xpub_with_origin list \<Rightarrow> string \<Rightarrow> (string, descriptor_error) res" where
  "build_sortedmulti_permutation ms xpubs suffix =
     res_bind (res_traverse (\<lambda>x. res_bind (validate_public_xpub (xo_xpub x)) (\<lambda>_. key_expression ms x suffix)) xpubs) (\<lambda>pks.
     res_bind (res_map_err DE_Construction (ms_new_wsh_sortedmulti ms MULTISIG_THRESHOLD pks)) (\<lambda>desc.
     Ok (ms_descriptor_text ms desc)))"

definition assert_no_multipath :: "string \<Rightarrow> (unit, descriptor_error) res" where
  "assert_no_multipath desc =
     (if CHR ''<'' \<in> set desc \<or> CHR '';'' \<in> set desc then Err DE_MultipathForbidden else Ok ())"

definition assert_distinct_receive_change :: "string \<Rightarrow> string \<Rightarrow> (unit, descriptor_error) res" where
  "assert_distinct_receive_change receive change =
     (if contains_str receive ''/1/*'' \<or> contains_str change ''/0/*''
      then Err (DE_Construction ''receive/change chain suffixes swapped'')
      else if receive = change then Err (DE_Construction ''receive and change descriptors must differ'')
      else Ok ())"

definition is_ascii_alphanumeric :: "char \<Rightarrow> bool" where
  "is_ascii_alphanumeric c \<longleftrightarrow> (let n = (of_char c :: nat) in
     48 \<le> n \<and> n \<le> 57 \<or> 65 \<le> n \<and> n \<le> 90 \<or> 97 \<le> n \<and> n \<le> 122)"

text \<open>\<open>split_once\<close> at the first occurrence.\<close>

definition split_once :: "char \<Rightarrow> string \<Rightarrow> (string \<times> string) option" where
  "split_once c s =
     (let b = takeWhile (\<lambda>x. x \<noteq> c) s
      in if length b = length s then None else Some (b, drop (Suc (length b)) s))"

definition inspect_descriptor :: "'k miniscript \<Rightarrow> 'k descriptor \<Rightarrow> (unit, descriptor_error) res" where
  "inspect_descriptor ms parsed =
     (case parsed of
        DWshSortedMulti k pks \<Rightarrow>
          if k \<noteq> MULTISIG_THRESHOLD
          then Err (DE_ForeignGrammar (''threshold must be 2, got '' @ digits_of k))
          else if length pks \<noteq> 3 then Err (DE_ForeignGrammar (''expected 3 keys, got '' @ digits_of (length pks)))
          else for_check (\<lambda>_ pk. if ms_is_multipath ms pk then Err DE_MultipathForbidden else Ok ()) 0 pks
      | DWshMs \<Rightarrow> Err (DE_ForeignGrammar
          (''wsh(miniscript) is not Trinity grammar; need wsh(sortedmulti(2,'' @ map char_of [0xE2 :: nat, 0x80, 0xA6] @ ''))''))
      | _ \<Rightarrow> Err (DE_ForeignGrammar (''only wsh(sortedmulti(2,'' @ map char_of [0xE2 :: nat, 0x80, 0xA6] @ '')) is accepted'')))"

definition validate_trinity_descriptor :: "'k miniscript \<Rightarrow> string \<Rightarrow> (unit, descriptor_error) res" where
  "validate_trinity_descriptor ms desc =
     res_bind (assert_no_multipath desc) (\<lambda>_.
     res_bind (case split_once (CHR ''#'') desc of
         Some (b, checksum) \<Rightarrow>
           if length checksum \<noteq> 8 \<or> \<not> list_all is_ascii_alphanumeric checksum
           then Err (DE_ForeignGrammar ''invalid or missing BIP-380 checksum'') else Ok b
       | None \<Rightarrow> Err (DE_ForeignGrammar ''checksum required (BIP-380)'')) (\<lambda>body.
     res_bind (res_map_err (\<lambda>e. DE_ForeignGrammar (''miniscript parse failed: '' @ e)) (ms_descriptor_from_str ms desc)) (\<lambda>parsed.
     res_bind (inspect_descriptor ms parsed) (\<lambda>_.
     if contains_str body ''multi('' \<and> \<not> contains_str body ''sortedmulti(''
     then Err (DE_ForeignGrammar ''multi is forbidden; use sortedmulti (BIP-67)'')
     else if \<not> starts_with body ''wsh(sortedmulti(2,''
     then Err (DE_ForeignGrammar (''expected wsh(sortedmulti(2,'' @ map char_of [0xE2 :: nat, 0x80, 0xA6] @ ''))''))
     else Ok ()))))"

definition validate_key :: "'k miniscript \<Rightarrow> network \<Rightarrow> key_contribution \<Rightarrow> (unit, descriptor_error) res" where
  "validate_key ms net k =
     res_bind (validate_public_xpub (xo_xpub (kc_xpub k))) (\<lambda>_.
     res_bind (validate_bip48_origin ms (xo_origin_path (kc_xpub k)) net) (\<lambda>_.
     if \<not> is_hardware (kc_source k) \<and> kc_policy_id k \<noteq> None
     then Err (DE_InvalidDocument ''policy_id is only valid for Hardware source keys'')
     else Ok ()))"

definition build_wallet_descriptors ::
    "'k miniscript \<Rightarrow> network \<Rightarrow> key_contribution list \<Rightarrow> u64 \<Rightarrow> (wallet_descriptors, descriptor_error) res" where
  "build_wallet_descriptors ms net keys created_at_unix =
     res_bind (validate_slots_and_fingerprints keys) (\<lambda>_.
     res_bind (for_check (\<lambda>_ k. validate_key ms net k) 0 keys) (\<lambda>_.
     res_bind (order_by_slot keys) (\<lambda>ordered.
     res_bind (build_sortedmulti_string ms ordered RECEIVE_SUFFIX) (\<lambda>receive.
     res_bind (build_sortedmulti_string ms ordered CHANGE_SUFFIX) (\<lambda>change.
     res_bind (assert_no_multipath receive) (\<lambda>_.
     res_bind (assert_no_multipath change) (\<lambda>_.
     res_bind (assert_distinct_receive_change receive change) (\<lambda>_.
     res_bind (validate_trinity_descriptor ms receive) (\<lambda>_.
     res_bind (validate_trinity_descriptor ms change) (\<lambda>_.
     Ok \<lparr>wd_format_version = FORMAT_VERSION, wd_network = net, wd_created_at_unix = created_at_unix,
         wd_receive_descriptor = receive, wd_change_descriptor = change, wd_keys = ordered\<rparr>))))))))))"

definition setup_build :: "'k miniscript \<Rightarrow> descriptor_setup \<Rightarrow> (wallet_descriptors, descriptor_error) res" where
  "setup_build ms su = build_wallet_descriptors ms (su_network su) (su_keys su) (su_created_at_unix su)"

subsection \<open>The document on disk\<close>

record word_count_map =
  wm_a :: u8
  wm_b :: u8
  wm_c :: u8

record wire_key =
  wk_slot :: key_slot
  wk_fingerprint :: string
  wk_origin_path :: string
  wk_xpub :: string
  wk_birthday_height :: u32
  wk_source :: key_source_kind
  wk_policy_id :: "string option"

record wire_document =
  wi_format_version :: u32
  wi_network :: network
  wi_created_at_unix :: u64
  wi_receive_descriptor :: string
  wi_change_descriptor :: string
  wi_word_count :: word_count_map
  wi_keys :: "wire_key list"

definition word_count_map_of :: "wallet_descriptors \<Rightarrow> word_count_map" where
  "word_count_map_of w = \<lparr>wm_a = wc_words (kc_word_count (wd_keys w ! 0)),
     wm_b = wc_words (kc_word_count (wd_keys w ! 1)), wm_c = wc_words (kc_word_count (wd_keys w ! 2))\<rparr>"

definition key_of_slot :: "wallet_descriptors \<Rightarrow> key_slot \<Rightarrow> key_contribution" where
  "key_of_slot w slot = wd_keys w ! unat (slot_as_u8 slot)"

definition wire_key_from_contrib :: "key_contribution \<Rightarrow> wire_key" where
  "wire_key_from_contrib k = \<lparr>wk_slot = kc_slot k, wk_fingerprint = fp_to_hex (xo_fingerprint (kc_xpub k)),
     wk_origin_path = xo_origin_path (kc_xpub k), wk_xpub = xo_xpub (kc_xpub k),
     wk_birthday_height = kc_birthday_height k, wk_source = kc_source k, wk_policy_id = kc_policy_id k\<rparr>"

definition wire_from_wallet :: "wallet_descriptors \<Rightarrow> wire_document" where
  "wire_from_wallet w = \<lparr>wi_format_version = wd_format_version w, wi_network = wd_network w,
     wi_created_at_unix = wd_created_at_unix w, wi_receive_descriptor = wd_receive_descriptor w,
     wi_change_descriptor = wd_change_descriptor w, wi_word_count = word_count_map_of w,
     wi_keys = [wire_key_from_contrib (wd_keys w ! 0), wire_key_from_contrib (wd_keys w ! 1),
                wire_key_from_contrib (wd_keys w ! 2)]\<rparr>"

fun fingerprint_error_text :: "fingerprint_parse_error \<Rightarrow> string" where
  "fingerprint_error_text InvalidLength = ''fingerprint hex must be exactly 8 characters''"
| "fingerprint_error_text InvalidHex = ''fingerprint hex contains a non-hex character''"

definition to_contrib :: "wire_key \<Rightarrow> u8 \<Rightarrow> (key_contribution, descriptor_error) res" where
  "to_contrib k words =
     res_bind (ok_or (wc_from_words words)
         (DE_InvalidDocument (''word_count must be 12 or 24, got '' @ digits_of (unat words)))) (\<lambda>wc.
     res_bind (res_map_err (\<lambda>e. DE_InvalidKeyExpression (''fingerprint: '' @ fingerprint_error_text e))
         (fp_from_hex (wk_fingerprint k))) (\<lambda>fp.
     if \<not> is_hardware (wk_source k) \<and> wk_policy_id k \<noteq> None
     then Err (DE_InvalidDocument ''policy_id is only valid for Hardware source keys'')
     else Ok \<lparr>kc_slot = wk_slot k,
            kc_xpub = \<lparr>xo_fingerprint = fp, xo_origin_path = wk_origin_path k, xo_xpub = wk_xpub k\<rparr>,
            kc_birthday_height = wk_birthday_height k, kc_word_count = wc, kc_source = wk_source k,
            kc_policy_id = wk_policy_id k\<rparr>))"

text \<open>The second half of \<open>into_wallet\<close>, on the keys in slot order.\<close>

definition wallet_from_keys ::
    "'k miniscript \<Rightarrow> wire_document \<Rightarrow> key_contribution list \<Rightarrow> (wallet_descriptors, descriptor_error) res" where
  "wallet_from_keys ms d keys =
     (if kc_slot (keys ! 0) \<noteq> SlotA \<or> kc_slot (keys ! 1) \<noteq> SlotB \<or> kc_slot (keys ! 2) \<noteq> SlotC
      then Err (DE_InvalidDocument ''keys must be slots A, B, C'')
      else if wc_words (kc_word_count (keys ! 0)) \<noteq> wm_a (wi_word_count d)
         \<or> wc_words (kc_word_count (keys ! 1)) \<noteq> wm_b (wi_word_count d)
         \<or> wc_words (kc_word_count (keys ! 2)) \<noteq> wm_c (wi_word_count d)
      then Err (DE_InvalidDocument ''word_count map inconsistent with key records'')
      else
        res_bind (build_wallet_descriptors ms (wi_network d) keys (wi_created_at_unix d)) (\<lambda>rebuilt.
        if wd_receive_descriptor rebuilt \<noteq> wi_receive_descriptor d
           \<or> wd_change_descriptor rebuilt \<noteq> wi_change_descriptor d
        then Err (DE_InvalidDocument ''stored descriptors do not match keys (possible tampering)'')
        else Ok \<lparr>wd_format_version = wi_format_version d, wd_network = wi_network d,
               wd_created_at_unix = wi_created_at_unix d, wd_receive_descriptor = wi_receive_descriptor d,
               wd_change_descriptor = wi_change_descriptor d, wd_keys = keys\<rparr>))"

definition into_wallet :: "'k miniscript \<Rightarrow> wire_document \<Rightarrow> (wallet_descriptors, descriptor_error) res" where
  "into_wallet ms d =
     (if wi_format_version d \<noteq> FORMAT_VERSION
      then Err (DE_InvalidDocument (''unsupported format_version '' @ u32_text (wi_format_version d)))
      else
        res_bind (validate_trinity_descriptor ms (wi_receive_descriptor d)) (\<lambda>_.
        res_bind (validate_trinity_descriptor ms (wi_change_descriptor d)) (\<lambda>_.
        if contains_str (wi_receive_descriptor d) ''/1/*'' \<or> \<not> contains_str (wi_receive_descriptor d) ''/0/*''
           \<or> contains_str (wi_change_descriptor d) ''/0/*'' \<or> \<not> contains_str (wi_change_descriptor d) ''/1/*''
        then Err (DE_InvalidDocument ''receive must use /0/* and change /1/* (O8, no multipath)'')
        else if CHR ''<'' \<in> set (wi_receive_descriptor d) \<or> CHR ''<'' \<in> set (wi_change_descriptor d)
        then Err DE_MultipathForbidden
        else
          res_bind (to_contrib (wi_keys d ! 0) (wm_a (wi_word_count d))) (\<lambda>k0.
          res_bind (to_contrib (wi_keys d ! 1) (wm_b (wi_word_count d))) (\<lambda>k1.
          res_bind (to_contrib (wi_keys d ! 2) (wm_c (wi_word_count d))) (\<lambda>k2.
          wallet_from_keys ms d (sort_key (\<lambda>k. slot_as_u8 (kc_slot k)) [k0, k1, k2])))))))"

text \<open>The two calls of \<open>serde_json\<close>, as arguments.\<close>

definition wallet_to_json ::
    "(wire_document \<Rightarrow> (string, string) res) \<Rightarrow> wallet_descriptors \<Rightarrow> (string, descriptor_error) res" where
  "wallet_to_json to_string w = res_map_err DE_Json (to_string (wire_from_wallet w))"

definition wallet_from_json ::
    "(string \<Rightarrow> (wire_document, string) res) \<Rightarrow> 'k miniscript \<Rightarrow> string \<Rightarrow> (wallet_descriptors, descriptor_error) res" where
  "wallet_from_json from_str ms json = res_bind (res_map_err DE_Json (from_str json)) (into_wallet ms)"

subsection \<open>What is relied on and expected\<close>

definition sortedmulti_body :: "nat \<Rightarrow> string list \<Rightarrow> string" where
  "sortedmulti_body k texts = ''wsh(sortedmulti('' @ digits_of k @ concat (map (\<lambda>t. CHR '','' # t) texts) @ ''))''"

text \<open>A key expression in canonical form: hexadecimal fingerprint, decimal indices with an apostrophe.\<close>

definition canonical_key_text :: "network \<Rightarrow> key_contribution \<Rightarrow> string \<Rightarrow> string" where
  "canonical_key_text net k suffix =
     ''['' @ fp_to_hex (xo_fingerprint (kc_xpub k)) @ ''/'' @ bip48_origin_path net @ '']'' @ xo_xpub (kc_xpub k) @ ''/'' @ suffix"

text \<open>Miniscript prints a descriptor as its body with the BIP-380 checksum, and the keys at hand in
  canonical form.\<close>

definition miniscript_prints ::
    "'k miniscript \<Rightarrow> ('k \<Rightarrow> string) \<Rightarrow> network \<Rightarrow> key_contribution list \<Rightarrow> bool" where
  "miniscript_prints ms key_text net keys \<longleftrightarrow>
     (\<forall>k pks d. ms_new_wsh_sortedmulti ms k pks = Ok d \<longrightarrow>
        create_checksum (sortedmulti_body k (map key_text pks)) = Ok (ms_descriptor_text ms d))
     \<and> (\<forall>k \<in> set keys. \<forall>suffix \<in> {RECEIVE_SUFFIX, CHANGE_SUFFIX}. \<forall>key.
        ms_key_from_str ms (key_expression_text (kc_xpub k) suffix) = Ok key \<longrightarrow>
        key_text key = canonical_key_text net k suffix)"

text \<open>What the parser of \<open>trinity-verify\<close> reads from a key.\<close>

definition parsed_key :: "network \<Rightarrow> derivation_branch \<Rightarrow> key_contribution \<Rightarrow> key_expr" where
  "parsed_key net b k = \<lparr>ke_fingerprint = xo_fingerprint (kc_xpub k), ke_origin_path = bip48_origin_path net,
     ke_xpub = xo_xpub (kc_xpub k), ke_derivation = b\<rparr>"

definition swap_first_keys :: "wire_document \<Rightarrow> wire_document" where
  "swap_first_keys d = d\<lparr>wi_keys := [wi_keys d ! 1, wi_keys d ! 0, wi_keys d ! 2]\<rparr>"

subsection \<open>A concrete library and wallet\<close>

definition sample_miniscript :: "string miniscript" where
  "sample_miniscript = \<lparr>ms_key_from_str = Ok, ms_is_multipath = (\<lambda>_. False),
     ms_new_wsh_sortedmulti = (\<lambda>k pks. case create_checksum (sortedmulti_body k pks) of
         Ok _ \<Rightarrow> Ok (DWshSortedMulti k pks) | _ \<Rightarrow> Err ''invalid character''),
     ms_descriptor_text = (\<lambda>d. case d of
         DWshSortedMulti k pks \<Rightarrow> (case create_checksum (sortedmulti_body k pks) of Ok s \<Rightarrow> s | _ \<Rightarrow> [])
       | _ \<Rightarrow> []),
     ms_descriptor_from_str = (\<lambda>s. Ok (DWshSortedMulti 2 [''A'', ''B'', ''C''])),
     ms_bip32_text = (\<lambda>_. [])\<rparr>"

definition sample_contribution :: "key_slot \<Rightarrow> u8 \<Rightarrow> word_count \<Rightarrow> key_contribution" where
  "sample_contribution slot n wc = \<lparr>kc_slot = slot,
     kc_xpub = \<lparr>xo_fingerprint = Fingerprint n n n n, xo_origin_path = bip48_origin_path Bitcoin, xo_xpub = ''xpub'' @ slot_text slot\<rparr>,
     kc_birthday_height = 840000, kc_word_count = wc, kc_source = InApp, kc_policy_id = None\<rparr>"

definition sample_keys :: "key_contribution list" where
  "sample_keys = [sample_contribution SlotC 2 Words24, sample_contribution SlotA 3 Words12, sample_contribution SlotB 1 Words24]"

section \<open>Lemmas\<close>

subsection \<open>Slots\<close>

lemma slot_index_cases: "slot_index k = (case kc_slot k of SlotA \<Rightarrow> 0 | SlotB \<Rightarrow> 1 | SlotC \<Rightarrow> 2)"
  by (cases "kc_slot k") (simp_all add: slot_index_def)

lemma slot_index_less: "slot_index k < 3"
  by (simp add: slot_index_cases split: key_slot.split)

lemma seen_loop:
  "for_in (\<lambda>i k seen. if seen ! slot_index k then Err (e k) else Ok (seen[slot_index k := True])) i keys seen = Ok seen' \<Longrightarrow>
   length seen = 3 \<Longrightarrow>
   length seen' = 3 \<and> distinct (map slot_index keys) \<and> (\<forall>k \<in> set keys. \<not> seen ! slot_index k)
   \<and> (\<forall>j < 3. seen' ! j \<longleftrightarrow> seen ! j \<or> j \<in> slot_index ` set keys)"
proof (induction keys arbitrary: i seen)
  case (Cons k keys)
  let ?s = "seen[slot_index k := True]"
  have k: "\<not> seen ! slot_index k" using Cons.prems(1) by (auto split: if_splits)
  have r: "for_in (\<lambda>i k seen. if seen ! slot_index k then Err (e k) else Ok (seen[slot_index k := True])) (Suc i) keys ?s = Ok seen'"
    using Cons.prems(1) k by simp
  have n: "?s ! j \<longleftrightarrow> j = slot_index k \<or> seen ! j" if "j < 3" for j
    using that Cons.prems(2) slot_index_less [of k] by (auto simp: nth_list_update)
  show ?case
    using Cons.IH [OF r] Cons.prems(2) k n slot_index_less by (auto simp: image_iff)
qed simp

lemma three_distinct:
  assumes "distinct (map slot_index keys)" "slot_index ` set keys = {0, 1, 2}"
  shows "\<exists>x y z. keys = [x, y, z]"
proof -
  have "card (slot_index ` set keys) = length keys" using assms(1) by (metis distinct_card length_map list.set_map)
  then have "length keys = 3" using assms(2) by simp
  then show ?thesis by (auto simp: numeral_eq_Suc length_Suc_conv)
qed

text \<open>Accepted slots are a permutation of A, B, C, and ordering brings them into this order.\<close>

lemma validate_slots_Ok:
  assumes "validate_slots_and_fingerprints keys = Ok ()"
  shows "\<exists>a b c. order_by_slot keys = Ok [a, b, c] \<and> kc_slot a = SlotA \<and> kc_slot b = SlotB \<and> kc_slot c = SlotC
    \<and> set keys = {a, b, c} \<and> length keys = 3 \<and> distinct (map (\<lambda>k. xo_fingerprint (kc_xpub k)) [a, b, c])"
proof -
  obtain seen where l: "for_in (\<lambda>_ k seen.
         if seen ! slot_index k then Err (DE_InvalidDocument (''duplicate key slot '' @ slot_text (kc_slot k)))
         else Ok (seen[slot_index k := True])) 0 keys [False, False, False] = Ok seen"
    and s: "seen = [True, True, True]" and f: "check_distinct_fingerprints keys = Ok ()"
    using assms by (auto simp: validate_slots_and_fingerprints_def res_simps split: if_splits)
  have d: "distinct (map slot_index keys)" and j: "\<forall>j < 3. seen ! j \<longleftrightarrow> [False, False, False] ! j \<or> j \<in> slot_index ` set keys"
    using seen_loop [OF l] by auto
  have "j \<in> slot_index ` set keys" if "j < 3" for j
    using j that s by (auto simp: numeral_eq_Suc less_Suc_eq)
  then have "{0, 1, 2} \<subseteq> slot_index ` set keys" by simp
  moreover have "slot_index ` set keys \<subseteq> {0, 1, 2}" by (auto simp: slot_index_cases split: key_slot.split)
  ultimately have "slot_index ` set keys = {0, 1, 2}" by (rule subset_antisym [rotated])
  with d obtain x y z where k: "keys = [x, y, z]" using three_distinct by blast
  have fp: "distinct (map (\<lambda>k. xo_fingerprint (kc_xpub k)) [x, y, z])"
    using f by (auto simp: k check_distinct_fingerprints_def res_simps split: if_splits)
  show ?thesis
    using d fp unfolding k
    by (cases "kc_slot x"; cases "kc_slot y"; cases "kc_slot z") (auto simp: slot_index_cases order_by_slot_def Let_def)
qed

lemma validate_slots_ordered:
  assumes "kc_slot a = SlotA" "kc_slot b = SlotB" "kc_slot c = SlotC"
    and "distinct (map (\<lambda>k. xo_fingerprint (kc_xpub k)) [a, b, c])"
  shows "validate_slots_and_fingerprints [a, b, c] = Ok ()" "order_by_slot [a, b, c] = Ok [a, b, c]"
  using assms
  by (simp_all add: validate_slots_and_fingerprints_def check_distinct_fingerprints_def slot_index_cases order_by_slot_def)

subsection \<open>Building again\<close>

lemma for_check_set: "for_check (\<lambda>_. f) i xs = Ok () \<longleftrightarrow> (\<forall>x \<in> set xs. f x = Ok ())"
  by (simp add: for_check_Ok all_set_conv_all_nth)

lemma build_parts:
  assumes "build_wallet_descriptors ms net keys created = Ok w"
  shows "validate_slots_and_fingerprints keys = Ok ()" "\<forall>k \<in> set keys. validate_key ms net k = Ok ()"
    "order_by_slot keys = Ok (wd_keys w)"
    "build_sortedmulti_string ms (wd_keys w) RECEIVE_SUFFIX = Ok (wd_receive_descriptor w)"
    "build_sortedmulti_string ms (wd_keys w) CHANGE_SUFFIX = Ok (wd_change_descriptor w)"
    "assert_distinct_receive_change (wd_receive_descriptor w) (wd_change_descriptor w) = Ok ()"
    "validate_trinity_descriptor ms (wd_receive_descriptor w) = Ok ()"
    "validate_trinity_descriptor ms (wd_change_descriptor w) = Ok ()"
    "wd_format_version w = FORMAT_VERSION" "wd_network w = net" "wd_created_at_unix w = created"
  using assms by (auto simp: build_wallet_descriptors_def res_simps for_check_set)

lemma build_from_parts:
  assumes "validate_slots_and_fingerprints keys = Ok ()" "\<forall>k \<in> set keys. validate_key ms net k = Ok ()"
    "order_by_slot keys = Ok (wd_keys w)"
    "build_sortedmulti_string ms (wd_keys w) RECEIVE_SUFFIX = Ok (wd_receive_descriptor w)"
    "build_sortedmulti_string ms (wd_keys w) CHANGE_SUFFIX = Ok (wd_change_descriptor w)"
    "assert_distinct_receive_change (wd_receive_descriptor w) (wd_change_descriptor w) = Ok ()"
    "validate_trinity_descriptor ms (wd_receive_descriptor w) = Ok ()"
    "validate_trinity_descriptor ms (wd_change_descriptor w) = Ok ()"
    "wd_format_version w = FORMAT_VERSION" "wd_network w = net" "wd_created_at_unix w = created"
  shows "build_wallet_descriptors ms net keys created = Ok w"
proof -
  have "assert_no_multipath d = Ok ()" if "validate_trinity_descriptor ms d = Ok ()" for d
    using that by (auto simp: validate_trinity_descriptor_def res_bind_eq_Ok)
  then show ?thesis
    using assms by (simp add: build_wallet_descriptors_def for_check_set [THEN iffD2])
qed

lemma rebuild:
  assumes "build_wallet_descriptors ms net keys created = Ok w"
  obtains a b c where "wd_keys w = [a, b, c]" "kc_slot a = SlotA" "kc_slot b = SlotB" "kc_slot c = SlotC"
    "set keys = {a, b, c}" "distinct (map (\<lambda>k. xo_fingerprint (kc_xpub k)) [a, b, c])"
    "build_wallet_descriptors ms net [a, b, c] created = Ok w"
proof -
  note p = build_parts [OF assms]
  obtain a b c where o: "order_by_slot keys = Ok [a, b, c]" and s: "kc_slot a = SlotA" "kc_slot b = SlotB" "kc_slot c = SlotC"
    and k: "set keys = {a, b, c}" and f: "distinct (map (\<lambda>k. xo_fingerprint (kc_xpub k)) [a, b, c])"
    using validate_slots_Ok [OF p(1)] by blast
  have w: "wd_keys w = [a, b, c]" using p(3) o by simp
  have "\<forall>k \<in> set [a, b, c]. validate_key ms net k = Ok ()" using p(2) k by simp
  then have "build_wallet_descriptors ms net [a, b, c] created = Ok w"
    using validate_slots_ordered [OF s f] p(4-11) w by (intro build_from_parts) simp_all
  from that [OF w s k f this] show thesis .
qed

lemma sort_slots:
  assumes "kc_slot a = SlotA" "kc_slot b = SlotB" "kc_slot c = SlotC"
  shows "sort_key (\<lambda>k. slot_as_u8 (kc_slot k)) [a, b, c] = [a, b, c]"
    "sort_key (\<lambda>k. slot_as_u8 (kc_slot k)) [b, a, c] = [a, b, c]"
  using assms by simp_all

subsection \<open>Printed descriptors\<close>

lemma contains_str_iff: "contains_str s p \<longleftrightarrow> (\<exists>u v. s = u @ p @ v)"
proof (induction s)
  case (Cons c s)
  have "take (length p) (c # s) = p \<longleftrightarrow> (\<exists>v. c # s = p @ v)"
    by (metis append_eq_conv_conj append_take_drop_id)
  moreover have "(\<exists>u v. c # s = u @ p @ v) \<longleftrightarrow> (\<exists>v. c # s = p @ v) \<or> (\<exists>u v. s = u @ p @ v)"
    by (auto simp: Cons_eq_append_conv)
  ultimately show ?case using Cons.IH by simp
qed auto

lemma contains_str_append: "contains_str s p \<Longrightarrow> contains_str (u @ s @ v) p"
  unfolding contains_str_iff by (metis append.assoc)

lemma key_expression_Ok: "key_expression ms x suffix = Ok k \<Longrightarrow> ms_key_from_str ms (key_expression_text x suffix) = Ok k"
  by (auto simp: key_expression_def Let_def res_map_err_eq_Ok split: if_splits)

lemma built_text:
  assumes ms: "miniscript_prints ms key_text net keys" and sub: "set [a, b, c] \<subseteq> set keys"
    and s: "suffix \<in> {RECEIVE_SUFFIX, CHANGE_SUFFIX}" and b: "build_sortedmulti_string ms [a, b, c] suffix = Ok d"
  shows "create_checksum (''wsh(sortedmulti(2,'' @ canonical_key_text net a suffix @ '','' @ canonical_key_text net b suffix
    @ '','' @ canonical_key_text net c suffix @ ''))'') = Ok d"
proof -
  obtain ka kb kc desc where k: "key_expression ms (kc_xpub a) suffix = Ok ka" "key_expression ms (kc_xpub b) suffix = Ok kb"
      "key_expression ms (kc_xpub c) suffix = Ok kc"
    and d: "ms_new_wsh_sortedmulti ms MULTISIG_THRESHOLD [ka, kb, kc] = Ok desc" "d = ms_descriptor_text ms desc"
    using b by (auto simp: build_sortedmulti_string_def res_simps)
  have t: "key_text ka = canonical_key_text net a suffix" "key_text kb = canonical_key_text net b suffix"
    "key_text kc = canonical_key_text net c suffix"
    using ms sub s k [THEN key_expression_Ok] by (auto simp: miniscript_prints_def)
  have "create_checksum (sortedmulti_body MULTISIG_THRESHOLD (map key_text [ka, kb, kc])) = Ok d"
    using ms d unfolding miniscript_prints_def by blast
  moreover have "digits_of MULTISIG_THRESHOLD = ''2''" by code_simp
  ultimately show ?thesis by (simp add: sortedmulti_body_def t)
qed

lemma contains_suffix:
  assumes "create_checksum (u @ canonical_key_text net k suffix @ v) = Ok d" "u \<noteq> []"
  shows "contains_str d (CHR ''/'' # suffix)"
proof -
  obtain cs where "d = (u @ canonical_key_text net k suffix @ v) @ ''#'' @ cs"
    using create_checksum_verifies(2) [OF _ assms(1)] assms(2) by auto
  then have "d = (u @ ''['' @ fp_to_hex (xo_fingerprint (kc_xpub k)) @ ''/'' @ bip48_origin_path net @ '']'' @ xo_xpub (kc_xpub k))
      @ (CHR ''/'' # suffix) @ (v @ ''#'' @ cs)"
    by (simp add: canonical_key_text_def)
  then show ?thesis unfolding contains_str_iff by blast
qed

lemma built_contains:
  assumes ms: "miniscript_prints ms key_text net keys" and b: "build_wallet_descriptors ms net keys created = Ok w"
  shows "contains_str (wd_receive_descriptor w) ''/0/*''" "contains_str (wd_change_descriptor w) ''/1/*''"
proof -
  obtain a b' c where k: "wd_keys w = [a, b', c]" "set keys = {a, b', c}" using rebuild [OF b] .
  have sub: "set [a, b', c] \<subseteq> set keys" using k(2) by simp
  note p = build_parts [OF b, unfolded k(1)]
  from contains_suffix [OF built_text [OF ms sub _ p(4)]]
  show "contains_str (wd_receive_descriptor w) ''/0/*''" by (simp add: RECEIVE_SUFFIX_def)
  from contains_suffix [OF built_text [OF ms sub _ p(5)]]
  show "contains_str (wd_change_descriptor w) ''/1/*''" by (simp add: CHANGE_SUFFIX_def)
qed

lemma to_contrib_from_contrib:
  "validate_key ms net k = Ok () \<Longrightarrow>
   to_contrib (wire_key_from_contrib k) (wc_words wc) = Ok (k\<lparr>kc_word_count := wc\<rparr>)"
  by (auto simp: to_contrib_def wire_key_from_contrib_def validate_key_def res_simps split: if_splits)

text \<open>Loading what was built comes down to the keys.\<close>

lemma into_wallet_keys:
  assumes ms: "miniscript_prints ms key_text net keys" and b: "build_wallet_descriptors ms net keys created = Ok w"
    and d: "wi_format_version d = wd_format_version w" "wi_receive_descriptor d = wd_receive_descriptor w"
      "wi_change_descriptor d = wd_change_descriptor w"
    and k: "to_contrib (wi_keys d ! 0) (wm_a (wi_word_count d)) = Ok k0" "to_contrib (wi_keys d ! 1) (wm_b (wi_word_count d)) = Ok k1"
      "to_contrib (wi_keys d ! 2) (wm_c (wi_word_count d)) = Ok k2"
    and s: "sort_key (\<lambda>k. slot_as_u8 (kc_slot k)) [k0, k1, k2] = ks"
  shows "into_wallet ms d = wallet_from_keys ms d ks"
proof -
  note p = build_parts [OF b] and c = built_contains [OF ms b]
  have n: "\<not> contains_str (wd_receive_descriptor w) ''/1/*''" "\<not> contains_str (wd_change_descriptor w) ''/0/*''"
    using p(6) by (auto simp: assert_distinct_receive_change_def split: if_splits)
  have m: "CHR ''<'' \<notin> set (wd_receive_descriptor w)" "CHR ''<'' \<notin> set (wd_change_descriptor w)"
    using p(7,8) by (auto simp: validate_trinity_descriptor_def assert_no_multipath_def res_bind_eq_Ok split: if_splits)
  show ?thesis
    unfolding into_wallet_def d k res_bind.simps s using p(7,8,9) c n m by simp
qed

lemma into_wallet_Ok:
  assumes "into_wallet ms d = Ok w"
  obtains ks where "wallet_from_keys ms d ks = Ok w" "length ks = 3" "wi_format_version d = FORMAT_VERSION"
proof -
  obtain k0 k1 k2 where "wallet_from_keys ms d (sort_key (\<lambda>k. slot_as_u8 (kc_slot k)) [k0, k1, k2]) = Ok w"
    and "wi_format_version d = FORMAT_VERSION"
    using assms unfolding into_wallet_def res_bind_eq_Ok by (auto simp only: res_bind_eq_Ok split: if_splits)
  moreover have "length (sort_key (\<lambda>k. slot_as_u8 (kc_slot k)) [k0, k1, k2]) = 3" by (simp only: length_sort) simp
  ultimately show thesis using that by blast
qed

lemma wallet_from_keys_built:
  assumes "build_wallet_descriptors ms (wd_network w) [a, b, c] (wd_created_at_unix w) = Ok w"
    and "kc_slot a = SlotA" "kc_slot b = SlotB" "kc_slot c = SlotC" "wd_keys w = [a, b, c]"
    and "wi_format_version d = wd_format_version w" "wi_receive_descriptor d = wd_receive_descriptor w"
      "wi_change_descriptor d = wd_change_descriptor w" "wi_network d = wd_network w"
      "wi_created_at_unix d = wd_created_at_unix w" "wi_word_count d = word_count_map_of w"
  shows "wallet_from_keys ms d [a, b, c] = Ok w"
  using assms by (cases w) (simp add: wallet_from_keys_def word_count_map_of_def)

lemma word_count_self: "k\<lparr>kc_word_count := kc_word_count k\<rparr> = k"
  by (cases k) simp

lemma origin_grammar_bip48: "origin_grammar (bip48_origin_path net)"
proof -
  have t: "u32_text 48 = ''48''" "u32_text 0 = ''0''" "u32_text 1 = ''1''" "u32_text 2 = ''2''" by code_simp+
  have "bip48_origin_path net = ''48'' @ [CHR 0x27] @ ''/'' @ u32_text (coin_type net) @ [CHR 0x27] @ ''/0'' @ [CHR 0x27] @ ''/2'' @ [CHR 0x27]"
    by (simp add: bip48_origin_path_def BIP48_PURPOSE_def BIP48_ACCOUNT_def BIP48_SCRIPT_P2WSH_def t)
  moreover have "u32_text (coin_type net) \<in> {''0'', ''1''}" using t by (cases net) auto
  ultimately show ?thesis unfolding origin_grammar_def hardened_markers_def by auto
qed

subsection \<open>The concrete wallet\<close>

lemma stored_document_loads:
  assumes "build_wallet_descriptors ms net keys created = Ok w" "miniscript_prints ms key_text net keys"
  shows "into_wallet ms (wire_from_wallet w) = Ok w"
proof -
  obtain a b c where k: "wd_keys w = [a, b, c]" and s: "kc_slot a = SlotA" "kc_slot b = SlotB" "kc_slot c = SlotC"
    and r: "set keys = {a, b, c}" "build_wallet_descriptors ms net [a, b, c] created = Ok w"
    using rebuild [OF assms(1)] by metis
  note p = build_parts [OF assms(1)]
  have v: "to_contrib (wire_key_from_contrib x) (wc_words (kc_word_count x)) = Ok x" if "x \<in> set keys" for x
    using to_contrib_from_contrib [OF p(2) [rule_format, OF that]] by (simp add: word_count_self)
  have "into_wallet ms (wire_from_wallet w) = wallet_from_keys ms (wire_from_wallet w) [a, b, c]"
    using r(1) v by (intro into_wallet_keys [OF assms(2,1) _ _ _ _ _ _ sort_slots(1) [OF s]])
      (simp_all add: wire_from_wallet_def word_count_map_of_def k)
  also have "\<dots> = Ok w"
    using r(2) s k p(10,11) by (intro wallet_from_keys_built) (simp_all add: wire_from_wallet_def)
  finally show ?thesis .
qed

lemma checksummed_form:
  assumes "create_checksum body = Ok d" "body \<noteq> []"
  obtains cs where "d = body @ ''#'' @ cs" "length cs = 8" "set cs \<subseteq> set CHECKSUM_CHARSET"
proof -
  obtain cs where cs: "d = body @ ''#'' @ cs" "length cs = 8" using create_checksum_verifies(2) [OF assms(2,1)] by blast
  then have "list_all (\<lambda>c. c \<in> set CHECKSUM_CHARSET) cs"
    using create_checksum_verifies(1) [OF assms(2,1)] verify_checksum_split [of cs body] by simp
  with cs show thesis using that by (auto simp: list_all_iff)
qed

text \<open>A text whose last character no checksum has occurs in a descriptor only if it occurs in the body.\<close>

lemma contains_in_body:
  assumes "contains_str (body @ ''#'' @ cs) p" "set cs \<subseteq> set CHECKSUM_CHARSET" "p \<noteq> []"
    "last p \<notin> insert (CHR ''#'') (set CHECKSUM_CHARSET)"
  shows "contains_str body p"
proof -
  obtain u v where e: "body @ ''#'' @ cs = (u @ p) @ v" using assms(1) unfolding contains_str_iff by auto
  show ?thesis
  proof (cases "length (u @ p) \<le> length body")
    case True
    then have "u @ p @ drop (length (u @ p)) body = body"
      using e by (metis append_eq_append_conv_if append_take_drop_id append.assoc)
    then show ?thesis unfolding contains_str_iff by metis
  next
    case False
    obtain us where "body = (u @ p) @ us \<and> us @ ''#'' @ cs = v \<or> body @ us = u @ p \<and> ''#'' @ cs = us @ v"
      using iffD1 [OF append_eq_append_conv2 e] by blast
    then obtain t where t: "u @ p = body @ t" "''#'' @ cs = t @ v" "t \<noteq> []"
      using False by (metis append_Nil2 le_add1 length_append order_refl)
    then have "last p = last t" using assms(3) by (metis last_appendR)
    moreover have "last t \<in> set (''#'' @ cs)" using t(2,3) by simp
    ultimately show ?thesis using assms(2,4) by auto
  qed
qed

lemma sample_keys_valid:
  "validate_slots_and_fingerprints sample_keys = Ok ()" "\<forall>k \<in> set sample_keys. validate_key sample_miniscript Bitcoin k = Ok ()"
  "order_by_slot sample_keys = Ok [sample_contribution SlotA 3 Words12, sample_contribution SlotB 1 Words24, sample_contribution SlotC 2 Words24]"
proof -
  have path: "bip48_origin_path Bitcoin = ''48'' @ [CHR 0x27, CHR ''/'', CHR ''0'', CHR 0x27, CHR ''/'', CHR ''0'', CHR 0x27, CHR ''/'', CHR ''2'', CHR 0x27]"
    "expected_bip48_children Bitcoin = Ok [Hardened 48, Hardened 0, Hardened 0, Hardened 2]" by code_simp+
  have child: "child_number_from_str (''48'' @ [CHR 0x27]) = Ok (Hardened 48)" "child_number_from_str (''0'' @ [CHR 0x27]) = Ok (Hardened 0)"
    "child_number_from_str (''2'' @ [CHR 0x27]) = Ok (Hardened 2)"
    by (simp_all add: child_number_from_str_def parse_uint_def decimal_value_def is_ascii_digit_def child_from_idx_def)
  have "validate_bip48_origin sample_miniscript (bip48_origin_path Bitcoin) Bitcoin = Ok ()"
    using child by (simp add: validate_bip48_origin_def path derivation_path_from_str_def strip_m_prefix_def strip_prefix_def Let_def)
  moreover have "validate_public_xpub ''xpubA'' = Ok ()" "validate_public_xpub ''xpubB'' = Ok ()" "validate_public_xpub ''xpubC'' = Ok ()"
    by code_simp+
  ultimately show "\<forall>k \<in> set sample_keys. validate_key sample_miniscript Bitcoin k = Ok ()"
    by (simp add: sample_keys_def sample_contribution_def validate_key_def)
  show "validate_slots_and_fingerprints sample_keys = Ok ()"
    "order_by_slot sample_keys = Ok [sample_contribution SlotA 3 Words12, sample_contribution SlotB 1 Words24, sample_contribution SlotC 2 Words24]"
    by (simp_all add: validate_slots_and_fingerprints_def check_distinct_fingerprints_def order_by_slot_def sample_keys_def
      sample_contribution_def slot_index_cases)
qed

lemma sample_body_facts:
  fixes suffix :: string
  assumes "suffix \<in> {RECEIVE_SUFFIX, CHANGE_SUFFIX}"
    and "ks = [sample_contribution SlotA 3 Words12, sample_contribution SlotB 1 Words24, sample_contribution SlotC 2 Words24]"
    and "body = sortedmulti_body 2 (map (\<lambda>k. key_expression_text (kc_xpub k) suffix) ks)"
  shows "list_all (\<lambda>c. c \<in> set INPUT_CHARSET \<and> c \<noteq> CHR ''<'' \<and> c \<noteq> CHR '';'' \<and> c \<noteq> CHR ''#'') body"
    and "starts_with body ''wsh(sortedmulti(2,'' \<and> contains_str body ''sortedmulti(''"
    and "\<not> contains_str body (if suffix = RECEIVE_SUFFIX then ''/1/*'' else ''/0/*'')"
    and "list_all (\<lambda>k. CHR ''<'' \<notin> set (key_expression_text (kc_xpub k) suffix) \<and> CHR '';'' \<notin> set (key_expression_text (kc_xpub k) suffix)) ks"
proof -
  have s: "suffix = RECEIVE_SUFFIX \<or> suffix = CHANGE_SUFFIX" using assms(1) by blast
  show "list_all (\<lambda>c. c \<in> set INPUT_CHARSET \<and> c \<noteq> CHR ''<'' \<and> c \<noteq> CHR '';'' \<and> c \<noteq> CHR ''#'') body"
    using s unfolding assms(3) unfolding assms(2) by (elim disjE; hypsubst; code_simp)
  show "starts_with body ''wsh(sortedmulti(2,'' \<and> contains_str body ''sortedmulti(''"
    using s unfolding assms(3) unfolding assms(2) by (elim disjE; hypsubst; code_simp)
  show "\<not> contains_str body (if suffix = RECEIVE_SUFFIX then ''/1/*'' else ''/0/*'')"
    using s unfolding assms(3) unfolding assms(2) by (elim disjE; hypsubst; code_simp)
  show "list_all (\<lambda>k. CHR ''<'' \<notin> set (key_expression_text (kc_xpub k) suffix) \<and> CHR '';'' \<notin> set (key_expression_text (kc_xpub k) suffix)) ks"
    using s unfolding assms(2) by (elim disjE; hypsubst; code_simp)
qed

lemma sample_descriptor_valid:
  fixes suffix :: string
  assumes "suffix \<in> {RECEIVE_SUFFIX, CHANGE_SUFFIX}"
    and "ks = [sample_contribution SlotA 3 Words12, sample_contribution SlotB 1 Words24, sample_contribution SlotC 2 Words24]"
    and body: "body = sortedmulti_body 2 (map (\<lambda>k. key_expression_text (kc_xpub k) suffix) ks)"
  obtains cs where "build_sortedmulti_string sample_miniscript ks suffix = Ok (body @ ''#'' @ cs)"
    "set cs \<subseteq> set CHECKSUM_CHARSET" "validate_trinity_descriptor sample_miniscript (body @ ''#'' @ cs) = Ok ()"
    "\<not> contains_str body (if suffix = RECEIVE_SUFFIX then ''/1/*'' else ''/0/*'')"
proof -
  note c = sample_body_facts [OF assms]
  obtain d where d: "create_checksum body = Ok d"
    using create_checksum_eq [of body] c(1) by (auto simp: list_all_iff)
  have ne: "body \<noteq> []" by (simp add: body sortedmulti_body_def)
  obtain cs where cs: "d = body @ ''#'' @ cs" "length cs = 8" "set cs \<subseteq> set CHECKSUM_CHARSET"
    using checksummed_form [OF d ne] .
  have "list_all is_ascii_alphanumeric CHECKSUM_CHARSET" and al: "CHR ''<'' \<notin> set CHECKSUM_CHARSET" "CHR '';'' \<notin> set CHECKSUM_CHARSET"
    by code_simp+
  then have a: "list_all is_ascii_alphanumeric cs" using cs(3) by (auto simp: list_all_iff)
  have "takeWhile (\<lambda>x. x \<noteq> CHR ''#'') (body @ ''#'' @ cs) = body" using c(1) by (simp add: takeWhile_append list_all_iff)
  then have sp: "split_once (CHR ''#'') (body @ ''#'' @ cs) = Some (body, cs)" by (simp add: split_once_def)
  have m: "assert_no_multipath (body @ ''#'' @ cs) = Ok ()"
    using c(1) cs(3) al by (auto simp: assert_no_multipath_def list_all_iff)
  have v: "validate_trinity_descriptor sample_miniscript (body @ ''#'' @ cs) = Ok ()"
    using c(2) a cs(2) unfolding validate_trinity_descriptor_def m sp
    by (simp add: inspect_descriptor_def sample_miniscript_def MULTISIG_THRESHOLD_def)
  have "key_expression sample_miniscript (kc_xpub k) suffix = Ok (key_expression_text (kc_xpub k) suffix)" if "k \<in> set ks" for k
    using c(4) that by (auto simp: key_expression_def sample_miniscript_def Let_def list_all_iff)
  then have "build_sortedmulti_string sample_miniscript ks suffix = Ok (body @ ''#'' @ cs)"
    using d cs(1) body
    by (simp add: build_sortedmulti_string_def assms(2) MULTISIG_THRESHOLD_def) (simp add: sample_miniscript_def)
  from that [OF this cs(3) v c(3)] show thesis .
qed

lemma sample_build: "\<exists>w. build_wallet_descriptors sample_miniscript Bitcoin sample_keys 1700000000 = Ok w
    \<and> kc_word_count (key_of_slot w SlotA) \<noteq> kc_word_count (key_of_slot w SlotB)"
proof -
  let ?ks = "[sample_contribution SlotA 3 Words12, sample_contribution SlotB 1 Words24, sample_contribution SlotC 2 Words24]"
  let ?b = "\<lambda>suffix. sortedmulti_body 2 (map (\<lambda>k. key_expression_text (kc_xpub k) suffix) ?ks)"
  obtain r where r: "build_sortedmulti_string sample_miniscript ?ks RECEIVE_SUFFIX = Ok (?b RECEIVE_SUFFIX @ ''#'' @ r)"
      "set r \<subseteq> set CHECKSUM_CHARSET" "validate_trinity_descriptor sample_miniscript (?b RECEIVE_SUFFIX @ ''#'' @ r) = Ok ()"
      "\<not> contains_str (?b RECEIVE_SUFFIX) ''/1/*''"
    using sample_descriptor_valid [OF _ refl refl, of RECEIVE_SUFFIX] by auto
  have ne: "CHANGE_SUFFIX \<noteq> RECEIVE_SUFFIX" by (simp add: CHANGE_SUFFIX_def RECEIVE_SUFFIX_def)
  obtain c where c: "build_sortedmulti_string sample_miniscript ?ks CHANGE_SUFFIX = Ok (?b CHANGE_SUFFIX @ ''#'' @ c)"
      "set c \<subseteq> set CHECKSUM_CHARSET" "validate_trinity_descriptor sample_miniscript (?b CHANGE_SUFFIX @ ''#'' @ c) = Ok ()"
      "\<not> contains_str (?b CHANGE_SUFFIX) ''/0/*''"
    using sample_descriptor_valid [OF _ refl refl, of CHANGE_SUFFIX] ne by auto
  let ?w = "\<lparr>wd_format_version = FORMAT_VERSION, wd_network = Bitcoin, wd_created_at_unix = 1700000000,
    wd_receive_descriptor = ?b RECEIVE_SUFFIX @ ''#'' @ r, wd_change_descriptor = ?b CHANGE_SUFFIX @ ''#'' @ c, wd_keys = ?ks\<rparr>"
  have st: "CHR ''*'' \<notin> insert (CHR ''#'') (set CHECKSUM_CHARSET)" by code_simp
  have n: "\<not> contains_str (?b RECEIVE_SUFFIX @ ''#'' @ r) ''/1/*''" "\<not> contains_str (?b CHANGE_SUFFIX @ ''#'' @ c) ''/0/*''"
    using contains_in_body [OF _ r(2), of "?b RECEIVE_SUFFIX" "''/1/*''"] contains_in_body [OF _ c(2), of "?b CHANGE_SUFFIX" "''/0/*''"] r(4) c(4) st
    by auto
  have "contains_str (?b RECEIVE_SUFFIX) ''/0/*''" by code_simp
  then have "contains_str (?b RECEIVE_SUFFIX @ ''#'' @ r) ''/0/*''" using contains_str_append [of _ _ "[]"] by simp
  then have "assert_distinct_receive_change (?b RECEIVE_SUFFIX @ ''#'' @ r) (?b CHANGE_SUFFIX @ ''#'' @ c) = Ok ()"
    using n by (auto simp: assert_distinct_receive_change_def)
  then have "build_wallet_descriptors sample_miniscript Bitcoin sample_keys 1700000000 = Ok ?w"
    using sample_keys_valid r(1,3) c(1,3) by (intro build_from_parts) simp_all
  moreover have "kc_word_count (key_of_slot ?w SlotA) \<noteq> kc_word_count (key_of_slot ?w SlotB)"
    by (simp add: key_of_slot_def sample_contribution_def)
  ultimately show ?thesis by blast
qed

lemma sample_prints: "miniscript_prints sample_miniscript id Bitcoin sample_keys"
proof -
  have "strip_m_prefix (bip48_origin_path Bitcoin) = bip48_origin_path Bitcoin" by code_simp
  then show ?thesis
    by (auto simp: miniscript_prints_def sample_miniscript_def sample_keys_def sample_contribution_def key_expression_text_def
      canonical_key_text_def split: res.splits)
qed

lemmas sample_loads = stored_document_loads [OF _ sample_prints]

section \<open>Properties\<close>

text \<open>C26: A stored document is read back: what building from three keys gives, written to the wire
  form, loads to the same wallet again, whatever order the keys were given in. The hypothesis is that
  miniscript prints keys and descriptors in canonical form.\<close>

theorem descriptor_document_roundtrip:
  assumes "build_wallet_descriptors ms net keys created = Ok w" "miniscript_prints ms key_text net keys"
  shows "into_wallet ms (wire_from_wallet w) = Ok w"
  by (rule stored_document_loads [OF assms])

theorem descriptor_document_roundtrip_witness:
  "\<exists>w. build_wallet_descriptors sample_miniscript Bitcoin sample_keys 1700000000 = Ok w
    \<and> into_wallet sample_miniscript (wire_from_wallet w) = Ok w"
  using sample_build descriptor_document_roundtrip [OF _ sample_prints] by blast



text \<open>C11: Every descriptor pair the watch side builds is accepted by the independent parser of the
  verifier, which reads the same three keys in slot order, the receive descriptor on the external
  branch and the change descriptor on the internal one. The hypotheses are that miniscript prints in
  canonical form and that the keys are base58 extended public keys.\<close>

theorem built_descriptors_parse:
  assumes "build_wallet_descriptors ms net keys created = Ok w" "miniscript_prints ms key_text net keys"
    and "\<forall>k \<in> set keys. xpub_from_str pr (xo_xpub (kc_xpub k)) \<noteq> None \<and> set (xo_xpub (kc_xpub k)) \<inter> set ''<;*,)'' = {}"
  shows "parse pr (wd_receive_descriptor w) = Ok \<lparr>pd_k = 2, pd_keys = map (parsed_key net BranchExternal) (wd_keys w)\<rparr>
    \<and> parse pr (wd_change_descriptor w) = Ok \<lparr>pd_k = 2, pd_keys = map (parsed_key net BranchInternal) (wd_keys w)\<rparr>"
proof -
  obtain a b c where k: "wd_keys w = [a, b, c]" "set keys = {a, b, c}" using rebuild [OF assms(1)] by metis
  note p = build_parts [OF assms(1), unfolded k(1)]
  have o: "origin_grammar (bip48_origin_path net)" by (rule origin_grammar_bip48)
  have g: "key_grammar pr (parsed_key net br x) (canonical_key_text net x suffix)"
    if "x \<in> {a, b, c}" "branch_suffix br = CHR ''/'' # suffix" for x br suffix
  proof -
    have "validate_key ms net x = Ok ()" using p(2) k(2) that(1) by blast
    then have "starts_with (xo_xpub (kc_xpub x)) ''xpub'' \<or> starts_with (xo_xpub (kc_xpub x)) ''tpub''"
      by (auto simp: validate_key_def validate_public_xpub_def Let_def res_bind_eq_Ok split: if_splits)
    moreover have "x \<in> set keys" using k(2) that(1) by simp
    ultimately have "xpub_grammar pr (xo_xpub (kc_xpub x))" using assms(3) unfolding xpub_grammar_def by blast
    then show ?thesis
      using o that(2) unfolding key_grammar_def parsed_key_def canonical_key_text_def
      by (auto intro!: exI [of _ "fp_to_hex (xo_fingerprint (kc_xpub x))"])
  qed
  have tk: "take (length t - 9) t = body" if "t = body @ ''#'' @ cs" "length cs = 8" for t body cs :: string
    using that by simp
  have main: "parse pr d = Ok \<lparr>pd_k = 2, pd_keys = map (parsed_key net br) [a, b, c]\<rparr>"
    if "build_sortedmulti_string ms [a, b, c] suffix = Ok d" "suffix \<in> {RECEIVE_SUFFIX, CHANGE_SUFFIX}"
      "branch_suffix br = CHR ''/'' # suffix" for d br suffix
  proof -
    let ?body = "''wsh(sortedmulti(2,'' @ canonical_key_text net a suffix @ '','' @ canonical_key_text net b suffix
      @ '','' @ canonical_key_text net c suffix @ ''))''"
    have sub: "set [a, b, c] \<subseteq> set keys" using k(2) by simp
    have t: "create_checksum ?body = Ok d" by (rule built_text [OF assms(2) sub that(2,1)])
    have ne: "?body \<noteq> []" by simp
    obtain cs where "d = ?body @ ''#'' @ cs" "length cs = 8" using create_checksum_verifies(2) [OF ne t] by blast
    then have "take (length d - 9) d = ?body" by (rule tk)
    moreover have "descriptor_grammar pr \<lparr>pd_k = 2, pd_keys = map (parsed_key net br) [a, b, c]\<rparr> ?body"
      unfolding descriptor_grammar_def using g [OF _ that(3)] by auto
    ultimately show ?thesis using create_checksum_verifies(1) [OF ne t] by (simp add: parse_body)
  qed
  show ?thesis
    using main [OF p(4), of BranchExternal] main [OF p(5), of BranchInternal]
    by (simp add: k(1) branch_suffix_def RECEIVE_SUFFIX_def CHANGE_SUFFIX_def)
qed

theorem built_descriptors_parse_witness:
  "\<exists>w. build_wallet_descriptors sample_miniscript Bitcoin sample_keys 1700000000 = Ok w
    \<and> parse sample_prims (wd_receive_descriptor w)
        = Ok \<lparr>pd_k = 2, pd_keys = map (parsed_key Bitcoin BranchExternal) (wd_keys w)\<rparr>"
proof -
  obtain w where w: "build_wallet_descriptors sample_miniscript Bitcoin sample_keys 1700000000 = Ok w"
    using sample_build by blast
  have "\<forall>k \<in> set sample_keys. xpub_from_str sample_prims (xo_xpub (kc_xpub k)) \<noteq> None
      \<and> set (xo_xpub (kc_xpub k)) \<inter> set ''<;*,)'' = {}"
    by (simp add: sample_keys_def sample_contribution_def sample_prims_def)
  from built_descriptors_parse [OF w sample_prints this] w show ?thesis by blast
qed

text \<open>C40: Reading back depends on the stored order of the keys: a built document whose first two key
  records are stored in the other order loads only if these two keys have the same word count. With
  different word counts it is refused as inconsistent, because the counts are assigned by stored
  position before the keys are put into slot order.\<close>

theorem reordered_document:
  assumes "build_wallet_descriptors ms net keys created = Ok w" "miniscript_prints ms key_text net keys"
  shows "into_wallet ms (swap_first_keys (wire_from_wallet w)) =
    (if kc_word_count (key_of_slot w SlotA) = kc_word_count (key_of_slot w SlotB) then Ok w
     else Err (DE_InvalidDocument ''word_count map inconsistent with key records''))"
proof -
  obtain a b c where k: "wd_keys w = [a, b, c]" and s: "kc_slot a = SlotA" "kc_slot b = SlotB" "kc_slot c = SlotC"
    and r: "set keys = {a, b, c}" "build_wallet_descriptors ms net [a, b, c] created = Ok w"
    using rebuild [OF assms(1)] by metis
  note p = build_parts [OF assms(1)]
  have v: "to_contrib (wire_key_from_contrib x) (wc_words wc) = Ok (x\<lparr>kc_word_count := wc\<rparr>)" if "x \<in> set keys" for x wc
    using to_contrib_from_contrib [OF p(2) [rule_format, OF that]] .
  let ?a = "a\<lparr>kc_word_count := kc_word_count b\<rparr>" and ?b = "b\<lparr>kc_word_count := kc_word_count a\<rparr>"
  let ?d = "swap_first_keys (wire_from_wallet w)"
  have s': "kc_slot ?a = SlotA" "kc_slot ?b = SlotB" using s by simp_all
  have d: "wi_format_version ?d = wd_format_version w" "wi_receive_descriptor ?d = wd_receive_descriptor w"
    "wi_change_descriptor ?d = wd_change_descriptor w" "wi_network ?d = wd_network w"
    "wi_created_at_unix ?d = wd_created_at_unix w" "wi_word_count ?d = word_count_map_of w"
    by (simp_all add: swap_first_keys_def wire_from_wallet_def)
  have i: "into_wallet ms ?d = wallet_from_keys ms ?d [?a, ?b, c]"
    using r(1) v [of b "kc_word_count a"] v [of a "kc_word_count b"] v [of c "kc_word_count c"]
    by (intro into_wallet_keys [OF assms(2,1) d(1-3) _ _ _ sort_slots(2) [OF s' s(3)]])
      (simp_all add: swap_first_keys_def wire_from_wallet_def word_count_map_of_def k word_count_self)
  show ?thesis
  proof (cases "kc_word_count a = kc_word_count b")
    case True
    then have "?a = a" "?b = b" by (cases a; cases b; simp)+
    then have "wallet_from_keys ms ?d [?a, ?b, c] = Ok w"
      using r(2) s k p(10,11) d by (simp add: wallet_from_keys_built)
    then show ?thesis using i True by (simp add: key_of_slot_def k)
  next
    case False
    then have "wc_words (kc_word_count b) \<noteq> wc_words (kc_word_count a)"
      by (cases "kc_word_count a"; cases "kc_word_count b") simp_all
    then show ?thesis
      using i False s by (simp add: wallet_from_keys_def d(6) word_count_map_of_def key_of_slot_def k)
  qed
qed

theorem reordered_document_witness:
  "\<exists>w. build_wallet_descriptors sample_miniscript Bitcoin sample_keys 1700000000 = Ok w
    \<and> into_wallet sample_miniscript (swap_first_keys (wire_from_wallet w))
        = Err (DE_InvalidDocument ''word_count map inconsistent with key records'')"
  using sample_build reordered_document [OF _ sample_prints] by auto

text \<open>The prefix check alone lets an extended key with further derivation steps pass: only miniscript
  and the parser of \<open>trinity-verify\<close> look at the rest of the text.\<close>

lemma xpub_check_is_a_prefix_check:
  assumes "validate_public_xpub x = Ok ()" "CHR ''<'' \<notin> set y" "CHR '';'' \<notin> set y"
  shows "validate_public_xpub (x @ y) = Ok ()"
  using assms
  by (auto simp: validate_public_xpub_def starts_with_def str_to_ascii_lowercase_def Let_def take_map split: if_splits)

end
