(* ===== verification/Watch_Base64.thy ===== *)
theory Watch_Base64
  imports Bitcoin_Data
begin

text \<open>
  The base64 coder of \<open>crates/trinity-watch\<close>: \<open>encode_base64\<close> of \<open>wallet/encode.rs\<close> and
  \<open>decode_base64\<close> of \<open>wallet/mod.rs\<close>, at the width of the source. The index of the loops is the
  list still to be read. Text is ASCII, so \<open>trim\<close> is the removal of ASCII white space.

  The lemmas show that decoding inverts encoding, that the coder never panics, and what decoding
  accepts beyond the canonical form.
\<close>

unbundle bit_operations_syntax

section \<open>Definitions\<close>

definition BASE64_ALPHABET :: string where
  "BASE64_ALPHABET = ''ABCDEFGHIJKLMNOPQRSTUVWXYZabcdefghijklmnopqrstuvwxyz0123456789+/''"

definition sextet_char :: "u32 \<Rightarrow> char" where
  "sextet_char n = BASE64_ALPHABET ! unat (n AND 63)"

definition pack3 :: "u8 \<Rightarrow> u8 \<Rightarrow> u8 \<Rightarrow> u32" where
  "pack3 b0 b1 b2 = push_bit 16 (ucast b0) OR push_bit 8 (ucast b1) OR ucast b2"

fun encode_base64 :: "bytes \<Rightarrow> string" where
  "encode_base64 [] = []"
| "encode_base64 (b0 # rest) =
     (let remaining = Suc (length rest);
          b1 = (if remaining > 1 then rest ! 0 else 0);
          b2 = (if remaining > 2 then rest ! 1 else 0);
          n = pack3 b0 b1 b2
      in [sextet_char (drop_bit 18 n), sextet_char (drop_bit 12 n),
          if remaining > 1 then sextet_char (drop_bit 6 n) else CHR ''='',
          if remaining > 2 then sextet_char n else CHR ''=''] @ encode_base64 (drop 2 rest))"

text \<open>The value of a character; the byte it failed on otherwise.\<close>

definition sextet_val :: "char \<Rightarrow> (u8, u8) res" where
  "sextet_val ch =
     (let c = (of_char ch :: u8) in
      if 65 \<le> c \<and> c \<le> 90 then Ok (c - 65)
      else if 97 \<le> c \<and> c \<le> 122 then Ok (c - 97 + 26)
      else if 48 \<le> c \<and> c \<le> 57 then Ok (c - 48 + 52)
      else if c = 43 then Ok 62
      else if c = 47 then Ok 63
      else Err c)"

datatype base64_error = B64_Length | B64_Byte u8

definition sextet :: "char \<Rightarrow> (u8, base64_error) res" where
  "sextet ch = res_map_err B64_Byte (sextet_val ch)"

definition pack4 :: "u8 \<Rightarrow> u8 \<Rightarrow> u8 \<Rightarrow> u8 \<Rightarrow> u32" where
  "pack4 a b c d = push_bit 18 (ucast a) OR push_bit 12 (ucast b) OR push_bit 6 (ucast c) OR ucast d"

fun decode_chunks :: "string \<Rightarrow> bytes \<Rightarrow> (bytes, base64_error) res" where
  "decode_chunks (s0 # s1 # s2 # s3 # rest) out =
     res_bind (sextet s0) (\<lambda>a.
     res_bind (sextet s1) (\<lambda>b.
     let pad_c = (s2 = CHR ''=''); pad_d = (s3 = CHR ''='') in
     res_bind (if pad_c then Ok 0 else sextet s2) (\<lambda>c.
     res_bind (if pad_d then Ok 0 else sextet s3) (\<lambda>d.
     let n = pack4 a b c d in
     decode_chunks rest (out @ [ucast (drop_bit 16 n AND 0xff)]
       @ (if pad_c then [] else [ucast (drop_bit 8 n AND 0xff)])
       @ (if pad_d then [] else [ucast (n AND 0xff)]))))))"
| "decode_chunks [] out = Ok out"
| "decode_chunks s out = Panic"

definition is_ascii_whitespace :: "char \<Rightarrow> bool" where
  "is_ascii_whitespace c \<longleftrightarrow> (let n = (of_char c :: nat) in 9 \<le> n \<and> n \<le> 13 \<or> n = 32)"

definition trim :: "string \<Rightarrow> string" where
  "trim s = rev (dropWhile is_ascii_whitespace (rev (dropWhile is_ascii_whitespace s)))"

definition decode_base64 :: "string \<Rightarrow> (bytes, base64_error) res" where
  "decode_base64 s =
     (let s = trim s in
      if length s mod 4 \<noteq> 0 then Err B64_Length else decode_chunks s [])"

section \<open>Lemmas\<close>

lemma unpack_pack3:
  "ucast (drop_bit 16 (pack3 b0 b1 b2) AND 0xff) = b0"
  "ucast (drop_bit 8 (pack3 b0 b1 b2) AND 0xff) = b1"
  "ucast (pack3 b0 b1 b2 AND 0xff) = b2"
proof -
  have m: "(0xff :: u32) = mask 8" by (simp add: mask_eq_exp_minus_1)
  show "ucast (drop_bit 16 (pack3 b0 b1 b2) AND 0xff) = b0"
    "ucast (drop_bit 8 (pack3 b0 b1 b2) AND 0xff) = b1"
    "ucast (pack3 b0 b1 b2 AND 0xff) = b2"
    unfolding m pack3_def by (rule bit_word_eqI; auto simp: bit_simps dest: bit_imp_le_length)+
qed

text \<open>The sextets of a 24-bit group put together again are the group.\<close>

lemma pack3_bit: "bit (pack3 b0 b1 b2) k \<Longrightarrow> k < 24"
  by (auto simp: pack3_def bit_simps dest: bit_imp_le_length)

lemma pack4_sextets:
  fixes b0 b1 b2 :: u8
  defines "n \<equiv> pack3 b0 b1 b2"
  shows "pack4 (ucast (drop_bit 18 n AND 63)) (ucast (drop_bit 12 n AND 63)) (ucast (drop_bit 6 n AND 63))
    (ucast (n AND 63)) = n"
proof -
  have m: "(63 :: u32) = mask 6" by (simp add: mask_eq_exp_minus_1)
  show ?thesis
    unfolding m pack4_def
  proof (rule bit_word_eqI)
    fix k assume k: "k < LENGTH(32)"
    consider "k < 6" | "6 \<le> k" "k < 12" | "12 \<le> k" "k < 18" | "18 \<le> k" "k < 24" | "24 \<le> k" by linarith
    then show "bit (push_bit 18 (ucast (ucast (drop_bit 18 n AND mask 6) :: u8)) OR
        push_bit 12 (ucast (ucast (drop_bit 12 n AND mask 6) :: u8)) OR
        push_bit 6 (ucast (ucast (drop_bit 6 n AND mask 6) :: u8)) OR
        ucast (ucast (n AND mask 6) :: u8) :: u32) k = bit n k"
      using k pack3_bit [of b0 b1 b2 k, folded n_def] by cases (auto simp: bit_simps)
  qed
qed

lemma pack3_padding:
  "drop_bit 6 (pack3 b0 0 0) AND 63 = 0" "pack3 b0 0 0 AND 63 = 0" "pack3 b0 b1 0 AND 63 = 0"
proof -
  have m: "(63 :: u32) = mask 6" by (simp add: mask_eq_exp_minus_1)
  show "drop_bit 6 (pack3 b0 0 0) AND 63 = 0" "pack3 b0 0 0 AND 63 = 0" "pack3 b0 b1 0 AND 63 = 0"
    unfolding m pack3_def by (rule bit_word_eqI; auto simp: bit_simps)+
qed

lemma alphabet_table:
  "list_all (\<lambda>m. sextet_val (BASE64_ALPHABET ! m) = Ok (of_nat m) \<and> BASE64_ALPHABET ! m \<noteq> CHR ''=''
     \<and> \<not> is_ascii_whitespace (BASE64_ALPHABET ! m)) [0..<64]"
  by code_simp

lemma sextet_char_facts [simp]:
  "sextet (sextet_char n) = Ok (ucast (n AND 63))" "sextet_char n \<noteq> CHR ''=''" "\<not> is_ascii_whitespace (sextet_char n)"
proof -
  have u: "unat (n AND 63) < 64"
    using word_and_le1 [of n 63] by (simp add: word_le_nat_alt)
  have "of_nat (unat (n AND 63)) = (ucast (n AND 63) :: u8)" by (rule of_nat_unat)
  then show "sextet (sextet_char n) = Ok (ucast (n AND 63))" "sextet_char n \<noteq> CHR ''=''"
    "\<not> is_ascii_whitespace (sextet_char n)"
    using alphabet_table u by (simp_all add: sextet_def sextet_char_def list_all_iff)
qed

lemma decode_chunks_encode: "decode_chunks (encode_base64 data) out = Ok (out @ data)"
proof (induction data arbitrary: out rule: encode_base64.induct)
  case (2 b0 rest)
  note p = unpack_pack3 pack3_padding and q = pack4_sextets
  consider "rest = []" | b1 where "rest = [b1]" | b1 b2 r where "rest = b1 # b2 # r"
    by (metis neq_Nil_conv)
  then show ?case
  proof cases
    case 1
    show ?thesis using q [of b0 0 0] by (simp add: 1 p Let_def)
  next
    case (2 b1)
    show ?thesis using q [of b0 b1 0] by (simp add: 2 p Let_def)
  next
    case (3 b1 b2 r)
    show ?thesis using "2.IH" [OF refl refl refl refl] by (simp add: 3 p q Let_def)
  qed
qed simp

lemma encode_base64_chars: "c \<in> set (encode_base64 data) \<Longrightarrow> \<not> is_ascii_whitespace c"
  by (induction data rule: encode_base64.induct) (auto simp: Let_def is_ascii_whitespace_def [of "CHR ''=''"] split: if_splits)

lemma length_encode_base64: "length (encode_base64 data) mod 4 = 0"
  by (induction data rule: encode_base64.induct) (simp_all add: Let_def)

lemma trim_id: "(\<And>c. c \<in> set s \<Longrightarrow> \<not> is_ascii_whitespace c) \<Longrightarrow> list_all is_ascii_whitespace pre \<Longrightarrow>
    list_all is_ascii_whitespace post \<Longrightarrow> trim (pre @ s @ post) = s"
proof -
  assume s: "\<And>c. c \<in> set s \<Longrightarrow> \<not> is_ascii_whitespace c" and ws: "list_all is_ascii_whitespace pre" "list_all is_ascii_whitespace post"
  have d: "dropWhile is_ascii_whitespace (ws @ x) = dropWhile is_ascii_whitespace x" if "list_all is_ascii_whitespace ws" for ws x
    using that by (induction ws) auto
  have n: "dropWhile is_ascii_whitespace x = x" if "\<And>c. c \<in> set x \<Longrightarrow> \<not> is_ascii_whitespace c" for x
    using that by (cases x) auto
  show "trim (pre @ s @ post) = s"
  proof (cases "s = []")
    case True
    then show ?thesis using d [OF ws(1), of post] d [OF ws(2), of "[]"] by (auto simp: trim_def list_all_iff dest: set_dropWhileD)
  next
    case False
    then have "dropWhile is_ascii_whitespace (s @ post) = s @ post" using s by (cases s) auto
    moreover have "dropWhile is_ascii_whitespace (rev post @ rev s) = rev s"
      using d [of "rev post" "rev s"] ws(2) n [of "rev s"] s by (simp add: list_all_iff)
    ultimately show ?thesis using d [OF ws(1)] by (simp add: trim_def)
  qed
qed

lemma decode_chunks_not_Panic: "length s mod 4 = 0 \<Longrightarrow> decode_chunks s out \<noteq> Panic"
proof (induction s out rule: decode_chunks.induct)
  case (1 s0 s1 s2 s3 rest out)
  have "sextet c \<noteq> Panic" for c by (simp add: sextet_def sextet_val_def Let_def res_map_err_eq_Panic)
  with 1 show ?case by (auto simp: res_bind_eq_Panic Let_def split: if_splits)
qed auto

section \<open>Properties\<close>

text \<open>Base64 text is read back: the encoding of any bytes, with white space around it, decodes to
  these bytes. Decoding any other text ends in bytes or an error, never in a panic: no index runs
  past the end of the text.\<close>

theorem base64_roundtrip:
  "decode_base64 s \<noteq> Panic
   \<and> (list_all is_ascii_whitespace pre \<and> list_all is_ascii_whitespace post \<longrightarrow>
      decode_base64 (pre @ encode_base64 data @ post) = Ok data)"
  using decode_chunks_not_Panic trim_id [OF encode_base64_chars]
  by (simp add: decode_base64_def Let_def length_encode_base64 decode_chunks_encode)

theorem base64_roundtrip_witness:
  "decode_base64 ('' '' @ encode_base64 [0x70, 0x73, 0x62, 0x74, 0xff] @ [CHR 0x0A]) = Ok [0x70, 0x73, 0x62, 0x74, 0xff]
   \<and> encode_base64 [0x70, 0x73, 0x62, 0x74, 0xff] = ''cHNidP8=''"
proof -
  have "list_all is_ascii_whitespace '' '' \<and> list_all is_ascii_whitespace [CHR 0x0A]" by code_simp
  moreover have "encode_base64 [0x70, 0x73, 0x62, 0x74, 0xff] = ''cHNidP8=''" by code_simp
  ultimately show ?thesis using base64_roundtrip by blast
qed

end
