(* ===== verification/Watch_Wallet.thy ===== *)
theory Watch_Wallet
  imports Watch_Descriptor Watch_Base64 Core_Rpc Finalize
begin

text \<open>
  \<open>crates/trinity-watch/src/wallet/mod.rs\<close> and \<open>error.rs\<close>: the watch-only wallet around BDK. The BDK
  wallet is a parameter: the record \<open>bdk\<close> holds the calls the code makes, over its own state. So are
  address parsing and the PSBT serialisation.

  The lemmas show that the fee identity agrees with the fee of the PSBT library, that a built payment
  is read back from its base64 text, with the request's amount, the tip as lock time and the
  replaceable sequence handed to the builder, and that the synthetic chain extension reaches its
  height.
\<close>

section \<open>Definitions\<close>

datatype wallet_error =
    WE_Create string
  | WE_InvalidAddress string
  | WE_InvalidFee string
  | WE_Build string
  | WE_ApplyUpdate string
  | WE_Descriptor descriptor_error
  | WE_Overflow string

definition GAP_LIMIT :: u32 where "GAP_LIMIT = 20"
definition ANTI_FEE_SNIPING_SEQUENCE :: u32 where "ANTI_FEE_SNIPING_SEQUENCE = 0xFFFFFFFD"

subsection \<open>Mappings\<close>

fun to_bitcoin_network :: "network \<Rightarrow> btc_network" where
  "to_bitcoin_network Bitcoin = BtcBitcoin"
| "to_bitcoin_network Testnet = BtcTestnet"
| "to_bitcoin_network Signet = BtcSignet"
| "to_bitcoin_network Regtest = BtcRegtest"

datatype bdk_keychain = BdkExternal | BdkInternal

fun to_bdk_keychain :: "keychain_kind \<Rightarrow> bdk_keychain" where
  "to_bdk_keychain KeychainExternal = BdkExternal"
| "to_bdk_keychain KeychainInternal = BdkInternal"

fun from_bdk_keychain :: "bdk_keychain \<Rightarrow> keychain_kind" where
  "from_bdk_keychain BdkExternal = KeychainExternal"
| "from_bdk_keychain BdkInternal = KeychainInternal"

record bdk_address =
  ba_address :: string
  ba_index :: u32
  ba_keychain :: bdk_keychain

definition from_bdk_address_info :: "bdk_address \<Rightarrow> address_info" where
  "from_bdk_address_info i =
     \<lparr>ai_address = ba_address i, ai_index = ba_index i, ai_keychain = from_bdk_keychain (ba_keychain i)\<rparr>"

record bdk_local_output =
  bl_outpoint :: out_point
  bl_txout :: tx_out
  bl_keychain :: bdk_keychain
  bl_derivation_index :: u32

record utxo_info =
  ui_outpoint :: out_point
  ui_amount_sats :: u64
  ui_keychain :: keychain_kind
  ui_derivation_index :: u32
  ui_script_pubkey :: bytes

subsection \<open>What the builder is told\<close>

datatype fee_policy = PolicyFeeRate u64 | PolicyFeeAbsolute u64

record tx_params =
  tp_recipient :: bytes
  tp_amount :: u64
  tp_current_height :: u32
  tp_sequence :: u32
  tp_global_xpubs :: bool
  tp_fee :: fee_policy

record ('w, 'r, 'c) bdk =
  bdk_create :: "string \<Rightarrow> string \<Rightarrow> btc_network \<Rightarrow> u32 \<Rightarrow> ('w, string) res"
  bdk_latest_checkpoint :: "'w \<Rightarrow> checkpoint"
  bdk_reveal_next_address :: "'w \<Rightarrow> bdk_keychain \<Rightarrow> bdk_address \<times> 'w"
  bdk_peek_address :: "'w \<Rightarrow> bdk_keychain \<Rightarrow> u32 \<Rightarrow> bdk_address"
  bdk_next_unused_address :: "'w \<Rightarrow> bdk_keychain \<Rightarrow> bdk_address \<times> 'w"
  bdk_balance :: "'w \<Rightarrow> balance"
  bdk_list_unspent :: "'w \<Rightarrow> bdk_local_output list"
  bdk_apply_update :: "'w \<Rightarrow> wallet_update \<Rightarrow> (unit, string) res \<times> 'w"
  bdk_take_staged :: "'w \<Rightarrow> 'c option \<times> 'w"
  bdk_staged :: "'w \<Rightarrow> 'c option"
  bdk_finish :: "'w \<Rightarrow> tx_params \<Rightarrow> 'r \<Rightarrow> (psbt, string) res \<times> 'w"
  addr_from_str :: "string \<Rightarrow> (string, string) res"
  addr_require_network :: "string \<Rightarrow> btc_network \<Rightarrow> (string, string) res"
  addr_script_pubkey :: "string \<Rightarrow> bytes"
  psbt_serialize :: "psbt \<Rightarrow> bytes"
  psbt_deserialize :: "bytes \<Rightarrow> (psbt, string) res"

subsection \<open>The wallet\<close>

record 'w watch_wallet =
  ww_inner :: 'w
  ww_network :: network

definition from_descriptor_strings ::
    "('w, 'r, 'c) bdk \<Rightarrow> 'k miniscript \<Rightarrow> network \<Rightarrow> string \<Rightarrow> string \<Rightarrow> ('w watch_wallet, wallet_error) res" where
  "from_descriptor_strings bdk ms net receive change =
     res_bind (res_map_err WE_Descriptor (validate_trinity_descriptor ms receive)) (\<lambda>_.
     res_bind (res_map_err WE_Descriptor (validate_trinity_descriptor ms change)) (\<lambda>_.
     res_bind (res_map_err WE_Create (bdk_create bdk receive change (to_bitcoin_network net) GAP_LIMIT)) (\<lambda>wallet.
     Ok \<lparr>ww_inner = wallet, ww_network = net\<rparr>)))"

definition from_descriptors ::
    "('w, 'r, 'c) bdk \<Rightarrow> 'k miniscript \<Rightarrow> wallet_descriptors \<Rightarrow> ('w watch_wallet, wallet_error) res" where
  "from_descriptors bdk ms d =
     from_descriptor_strings bdk ms (wd_network d) (wd_receive_descriptor d) (wd_change_descriptor d)"

definition wallet_tip_height :: "('w, 'r, 'c) bdk \<Rightarrow> 'w watch_wallet \<Rightarrow> u32" where
  "wallet_tip_height bdk w = bi_height (hd (bdk_latest_checkpoint bdk (ww_inner w)))"

definition reveal_next_address ::
    "('w, 'r, 'c) bdk \<Rightarrow> 'w watch_wallet \<Rightarrow> keychain_kind \<Rightarrow> address_info \<times> 'w watch_wallet" where
  "reveal_next_address bdk w k =
     (let (info, inner) = bdk_reveal_next_address bdk (ww_inner w) (to_bdk_keychain k)
      in (from_bdk_address_info info, w\<lparr>ww_inner := inner\<rparr>))"

definition peek_address :: "('w, 'r, 'c) bdk \<Rightarrow> 'w watch_wallet \<Rightarrow> keychain_kind \<Rightarrow> u32 \<Rightarrow> address_info" where
  "peek_address bdk w k index = from_bdk_address_info (bdk_peek_address bdk (ww_inner w) (to_bdk_keychain k) index)"

definition next_unused_address ::
    "('w, 'r, 'c) bdk \<Rightarrow> 'w watch_wallet \<Rightarrow> keychain_kind \<Rightarrow> address_info \<times> 'w watch_wallet" where
  "next_unused_address bdk w k =
     (let (info, inner) = bdk_next_unused_address bdk (ww_inner w) (to_bdk_keychain k)
      in (from_bdk_address_info info, w\<lparr>ww_inner := inner\<rparr>))"

definition derive_addresses :: "('w, 'r, 'c) bdk \<Rightarrow> 'w watch_wallet \<Rightarrow> keychain_kind \<Rightarrow> u32 \<Rightarrow> address_info list" where
  "derive_addresses bdk w k n = map (\<lambda>i. peek_address bdk w k (of_nat i)) [0..<unat n]"

definition wallet_balance :: "('w, 'r, 'c) bdk \<Rightarrow> 'w watch_wallet \<Rightarrow> balance" where
  "wallet_balance bdk w =
     (let b = bdk_balance bdk (ww_inner w) in
      \<lparr>confirmed_sats = confirmed_sats b, trusted_pending_sats = trusted_pending_sats b,
       untrusted_pending_sats = untrusted_pending_sats b, immature_sats = immature_sats b\<rparr>)"

definition list_unspent :: "('w, 'r, 'c) bdk \<Rightarrow> 'w watch_wallet \<Rightarrow> utxo_info list" where
  "list_unspent bdk w =
     map (\<lambda>l. \<lparr>ui_outpoint = bl_outpoint l, ui_amount_sats = to_value (bl_txout l),
         ui_keychain = from_bdk_keychain (bl_keychain l), ui_derivation_index = bl_derivation_index l,
         ui_script_pubkey = to_script_pubkey (bl_txout l)\<rparr>) (bdk_list_unspent bdk (ww_inner w))"

definition apply_update ::
    "('w, 'r, 'c) bdk \<Rightarrow> 'w watch_wallet \<Rightarrow> wallet_update \<Rightarrow> (unit, wallet_error) res \<times> 'w watch_wallet" where
  "apply_update bdk w u =
     (let (r, inner) = bdk_apply_update bdk (ww_inner w) u
      in (res_map_err WE_ApplyUpdate r, w\<lparr>ww_inner := inner\<rparr>))"

definition take_staged :: "('w, 'r, 'c) bdk \<Rightarrow> 'w watch_wallet \<Rightarrow> 'c option \<times> 'w watch_wallet" where
  "take_staged bdk w = (let (c, inner) = bdk_take_staged bdk (ww_inner w) in (c, w\<lparr>ww_inner := inner\<rparr>))"

definition has_staged :: "('w, 'r, 'c) bdk \<Rightarrow> 'w watch_wallet \<Rightarrow> bool" where
  "has_staged bdk w \<longleftrightarrow> bdk_staged bdk (ww_inner w) \<noteq> None"

subsection \<open>Extending the chain\<close>

text \<open>The synthetic block of a height: the height in little endian, a marker byte, zeros.\<close>

definition synthetic_block :: "u32 \<Rightarrow> block_id" where
  "synthetic_block h = \<lparr>bi_height = h, bi_hash = u32_to_le h @ [0x74] @ replicate 27 0\<rparr>"

definition extend_tip :: "checkpoint \<Rightarrow> u32 \<Rightarrow> (checkpoint, wallet_error) res" where
  "extend_tip tip height =
     for_in (\<lambda>_ h cp. cp_insert cp (synthetic_block (of_nat h))) 0
       [unat (bi_height (hd tip)) + 1..<Suc (unat height)] tip"

definition ensure_tip_at_least ::
    "('w, 'r, 'c) bdk \<Rightarrow> 'w watch_wallet \<Rightarrow> u32 \<Rightarrow> (unit, wallet_error) res \<times> 'w watch_wallet" where
  "ensure_tip_at_least bdk w height =
     (let tip = bdk_latest_checkpoint bdk (ww_inner w) in
      if bi_height (hd tip) \<ge> height then (Ok (), w)
      else case extend_tip tip height of
        Ok cp \<Rightarrow> apply_update bdk w \<lparr>wu_last_active = Map.empty, wu_tx_update = tx_update_default, wu_chain = Some cp\<rparr>
      | Err e \<Rightarrow> (Err e, w)
      | Panic \<Rightarrow> (Panic, w))"

definition synthetic_payment :: "u64 \<Rightarrow> bytes \<Rightarrow> transaction" where
  "synthetic_payment amount spk = \<lparr>tx_version = 2, tx_lock_time = 0,
     tx_input = [\<lparr>ti_previous_output = OutPoint (replicate 32 0xab) 0, ti_script_sig = [], ti_sequence = 0xFFFFFFFF, ti_witness = []\<rparr>],
     tx_output = [\<lparr>to_value = amount, to_script_pubkey = spk\<rparr>]\<rparr>"

definition inject_confirmed_utxo ::
    "prims \<Rightarrow> ('w, 'r, 'c) bdk \<Rightarrow> 'w watch_wallet \<Rightarrow> u64 \<Rightarrow> keychain_kind
       \<Rightarrow> (out_point \<times> address_info, wallet_error) res \<times> 'w watch_wallet" where
  "inject_confirmed_utxo pr bdk w amount k =
     (case ensure_tip_at_least bdk w 1 of
        (Ok _, w) \<Rightarrow>
          (let (info, w) = next_unused_address bdk w k in
           case res_bind (res_map_err WE_InvalidAddress (addr_from_str bdk (ai_address info)))
               (\<lambda>a. res_map_err WE_InvalidAddress (addr_require_network bdk a (to_bitcoin_network (ww_network w)))) of
             Ok addr \<Rightarrow>
               (let tx = synthetic_payment amount (addr_script_pubkey bdk addr); txid = compute_txid pr tx;
                    anchor = \<lparr>cf_block = hd (bdk_latest_checkpoint bdk (ww_inner w)), cf_time = 1700000000\<rparr>;
                    (r, w) = apply_update bdk w \<lparr>wu_last_active = Map.empty,
                      wu_tx_update = tx_update_default\<lparr>tu_txs := [tx], tu_anchors := {(anchor, txid)}\<rparr>, wu_chain = None\<rparr>
                in (res_bind r (\<lambda>_. Ok (OutPoint txid 0, info)), w))
           | Err e \<Rightarrow> (Err e, w)
           | Panic \<Rightarrow> (Panic, w))
      | (Err e, w) \<Rightarrow> (Err e, w)
      | (Panic, w) \<Rightarrow> (Panic, w))"

subsection \<open>Building payments\<close>

definition fee_rate_from_sat_per_vb :: "u64 \<Rightarrow> u64 option" where
  "fee_rate_from_sat_per_vb vb = (if unat vb * 250 < 2 ^ 64 then Some (vb * 250) else None)"

definition tx_builder_for ::
    "('w, 'r, 'c) bdk \<Rightarrow> 'w watch_wallet \<Rightarrow> send_request \<Rightarrow> (tx_params, wallet_error) res" where
  "tx_builder_for bdk w req =
     res_bind (res_map_err WE_InvalidAddress (addr_from_str bdk (sr_recipient req))) (\<lambda>addr.
     res_bind (res_map_err WE_InvalidAddress (addr_require_network bdk addr (to_bitcoin_network (ww_network w)))) (\<lambda>addr.
     res_bind (case sr_fee_target req of
         FeerateSatVb vb \<Rightarrow> res_bind (ok_or (fee_rate_from_sat_per_vb vb)
             (WE_InvalidFee (''feerate '' @ digits_of (unat vb) @ '' sat/vB out of range''))) (\<lambda>rate. Ok (PolicyFeeRate rate))
       | AbsoluteSats sats \<Rightarrow> Ok (PolicyFeeAbsolute sats)) (\<lambda>fee.
     Ok \<lparr>tp_recipient = addr_script_pubkey bdk addr, tp_amount = sr_amount_sats req,
         tp_current_height = wallet_tip_height bdk w, tp_sequence = ANTI_FEE_SNIPING_SEQUENCE,
         tp_global_xpubs = True, tp_fee = fee\<rparr>)))"

definition build_psbt_raw_with_aux_rand ::
    "('w, 'r, 'c) bdk \<Rightarrow> 'w watch_wallet \<Rightarrow> send_request \<Rightarrow> 'r \<Rightarrow> (psbt, wallet_error) res \<times> 'w watch_wallet" where
  "build_psbt_raw_with_aux_rand bdk w req rng =
     (case tx_builder_for bdk w req of
        Ok params \<Rightarrow> (let (r, inner) = bdk_finish bdk (ww_inner w) params rng
                      in (res_map_err WE_Build r, w\<lparr>ww_inner := inner\<rparr>))
      | Err e \<Rightarrow> (Err e, w)
      | Panic \<Rightarrow> (Panic, w))"

definition psbt_to_b64 :: "('w, 'r, 'c) bdk \<Rightarrow> psbt \<Rightarrow> string" where
  "psbt_to_b64 bdk p = encode_base64 (psbt_serialize bdk p)"

text \<open>\<open>build_psbt_with_aux_rand\<close>; \<open>build_psbt\<close> is the same with the generator of the thread.\<close>

definition build_psbt ::
    "('w, 'r, 'c) bdk \<Rightarrow> 'w watch_wallet \<Rightarrow> send_request \<Rightarrow> 'r \<Rightarrow> (string, wallet_error) res \<times> 'w watch_wallet" where
  "build_psbt bdk w req rng =
     (let (r, w) = build_psbt_raw_with_aux_rand bdk w req rng
      in (res_bind r (\<lambda>p. Ok (psbt_to_b64 bdk p)), w))"

fun base64_error_text :: "base64_error \<Rightarrow> string" where
  "base64_error_text B64_Length = ''base64 length not multiple of 4''"
| "base64_error_text (B64_Byte c) = ''invalid base64 byte '' @ digits_of (unat c)"

definition decode_psbt_b64 :: "('w, 'r, 'c) bdk \<Rightarrow> string \<Rightarrow> (psbt, wallet_error) res" where
  "decode_psbt_b64 bdk b64 =
     res_bind (res_map_err (\<lambda>e. WE_Build (base64_error_text e)) (decode_base64 b64)) (\<lambda>bytes.
     res_map_err WE_Build (psbt_deserialize bdk bytes))"

subsection \<open>Fee identity\<close>

definition input_value :: "psbt \<Rightarrow> nat \<Rightarrow> psbt_input \<Rightarrow> (u64, wallet_error) res" where
  "input_value p idx inp =
     (case in_witness_utxo inp of
        Some out \<Rightarrow> Ok (to_value out)
      | None \<Rightarrow>
        (case in_non_witness_utxo inp of
           Some tx \<Rightarrow>
             res_bind (index_res (tx_input (ps_unsigned_tx p)) idx) (\<lambda>txin.
             let vout = unat (op_vout (ti_previous_output txin)) in
             if vout < length (tx_output tx) then Ok (to_value (tx_output tx ! vout))
             else Err (WE_Build ''vout OOB on non_witness_utxo''))
         | None \<Rightarrow> Err (WE_Build ''missing utxo on psbt input'')))"

definition fee_identity :: "psbt \<Rightarrow> (u64 \<times> u64 \<times> u64, wallet_error) res" where
  "fee_identity p =
     res_bind (for_in (\<lambda>idx inp sum_in. res_bind (input_value p idx inp) (\<lambda>value.
         ok_or (checked_add sum_in value) (WE_Overflow ''input sum''))) 0 (ps_inputs p) 0) (\<lambda>sum_in.
     res_bind (for_in (\<lambda>_ out sum_out. ok_or (checked_add sum_out (to_value out)) (WE_Overflow ''output sum''))
         0 (tx_output (ps_unsigned_tx p)) 0) (\<lambda>sum_out.
     res_bind (ok_or (checked_sub sum_in sum_out) (WE_Overflow ''fee negative (out > in)'')) (\<lambda>fee.
     Ok (fee, sum_in, sum_out))))"

subsection \<open>A concrete library\<close>

definition sample_bdk :: "(checkpoint, unit, unit) bdk" where
  "sample_bdk = \<lparr>bdk_create = (\<lambda>r c n l. Ok [\<lparr>bi_height = 0, bi_hash = [0]\<rparr>]),
     bdk_latest_checkpoint = id,
     bdk_reveal_next_address = (\<lambda>w k. (\<lparr>ba_address = ''j'', ba_index = 0, ba_keychain = k\<rparr>, w)),
     bdk_peek_address = (\<lambda>w k i. \<lparr>ba_address = ''j'', ba_index = i, ba_keychain = k\<rparr>),
     bdk_next_unused_address = (\<lambda>w k. (\<lparr>ba_address = ''j'', ba_index = 0, ba_keychain = k\<rparr>, w)),
     bdk_balance = (\<lambda>w. balance_zero), bdk_list_unspent = (\<lambda>w. []),
     bdk_apply_update = (\<lambda>w u. (Ok (), case wu_chain u of Some cp \<Rightarrow> cp | None \<Rightarrow> w)),
     bdk_take_staged = (\<lambda>w. (None, w)), bdk_staged = (\<lambda>w. None),
     bdk_finish = (\<lambda>w params rng. (Ok sample_psbt, w)),
     addr_from_str = Ok, addr_require_network = (\<lambda>a n. Ok a), addr_script_pubkey = (\<lambda>a. [0x6a]),
     psbt_serialize = (\<lambda>p. [0x70, 0x73, 0x62, 0x74, 0xff]), psbt_deserialize = (\<lambda>b. Ok sample_psbt)\<rparr>"

section \<open>Lemmas\<close>

lemma keychain_mapping [simp]: "from_bdk_keychain (to_bdk_keychain k) = k"
  by (cases k) simp_all

subsection \<open>Fees\<close>

lemma input_value_funding:
  assumes "idx < length (tx_input (ps_unsigned_tx p))"
  shows "input_value p idx inp = Ok v \<longleftrightarrow>
    (\<exists>utxo. funding_utxo (tx_input (ps_unsigned_tx p) ! idx) inp = Ok utxo \<and> to_value utxo = v)"
  using assms by (auto simp: input_value_def funding_utxo_def index_res_def Let_def split: option.splits)

lemma input_sums_agree:
  assumes "length T = i + length inps" "T = tx_input (ps_unsigned_tx p)"
  shows "for_in (\<lambda>idx inp acc. res_bind (input_value p idx inp) (\<lambda>v. ok_or (checked_add acc v) e)) i inps acc = Ok s \<longleftrightarrow>
    for_in (\<lambda>_ (txin, inp) acc. res_bind (funding_utxo txin inp) (\<lambda>utxo. ok_or (checked_add acc (to_value utxo)) e'))
      k (zip (drop i T) inps) acc = Ok s"
  using assms(1)
proof (induction inps arbitrary: i k acc)
  case (Cons inp inps)
  have i: "i < length T" using Cons.prems by simp
  then have z: "zip (drop i T) (inp # inps) = (T ! i, inp) # zip (drop (Suc i) T) inps"
    by (metis Cons_nth_drop_Suc zip_Cons_Cons)
  have IH: "length T = Suc i + length inps" using Cons.prems by simp
  show ?case
    unfolding z using Cons.IH [OF IH] input_value_funding [of i p inp] i assms(2)
    by (auto simp: res_bind_eq_Ok ok_or_eq_Ok)
qed simp

lemma input_sum_not_Panic:
  "i + length inps \<le> length (tx_input (ps_unsigned_tx p)) \<Longrightarrow>
   for_in (\<lambda>idx inp acc. res_bind (input_value p idx inp) (\<lambda>v. ok_or (checked_add acc v) e)) i inps acc \<noteq> Panic"
proof (induction inps arbitrary: i acc)
  case (Cons inp inps)
  then have "input_value p i inp \<noteq> Panic"
    by (auto simp: input_value_def index_res_def Let_def split: option.splits)
  with Cons show ?case by (simp add: res_bind_eq_Panic)
qed simp

subsection \<open>Synthetic chain\<close>

lemma extend_tip_run:
  "tip \<noteq> [] \<Longrightarrow> a = Suc (unat (bi_height (hd tip))) \<Longrightarrow> a + n \<le> 2 ^ 32 \<Longrightarrow>
   for_in (\<lambda>_ h cp. cp_insert cp (synthetic_block (of_nat h))) i [a..<a + n] tip
     = (Ok (map (\<lambda>h. synthetic_block (of_nat h)) (rev [a..<a + n]) @ tip) :: (checkpoint, wallet_error) res)"
proof (induction n arbitrary: a i tip)
  case (Suc n)
  let ?b = "synthetic_block (of_nat a)"
  have a: "unat (of_nat a :: u32) = a" using Suc.prems(3) by (simp add: unsigned_of_nat take_bit_nat_eq_self_iff)
  have lt: "bi_height (hd tip) < of_nat a" using Suc.prems(2) a by (simp add: word_less_nat_alt)
  obtain c cs where tip: "tip = c # cs" using Suc.prems(1) by (cases tip) auto
  have ins: "cp_insert tip ?b = Ok (?b # tip)"
    using lt by (auto simp: tip cp_insert_def synthetic_block_def)
  have l: "[a..<a + Suc n] = a # [Suc a..<Suc a + n]" by (simp add: upt_conv_Cons)
  have "for_in (\<lambda>_ h cp. cp_insert cp (synthetic_block (of_nat h))) (Suc i) [Suc a..<Suc a + n] (?b # tip)
      = (Ok (map (\<lambda>h. synthetic_block (of_nat h)) (rev [Suc a..<Suc a + n]) @ ?b # tip) :: (checkpoint, wallet_error) res)"
    by (rule Suc.IH) (use Suc.prems(3) a in \<open>simp_all add: synthetic_block_def\<close>)
  then show ?case unfolding l by (simp add: ins del: upt_Suc)
qed simp

text \<open>The synthetic extension never fails and reaches the asked height, whatever the tip.\<close>

lemma extend_tip_reaches:
  assumes "tip \<noteq> []" "bi_height (hd tip) < height"
  shows "\<exists>cp. extend_tip tip height = Ok cp \<and> bi_height (hd cp) = height \<and> (\<exists>new. cp = new @ tip)"
proof -
  let ?a = "Suc (unat (bi_height (hd tip)))" and ?n = "unat height - unat (bi_height (hd tip))"
  have lt: "unat (bi_height (hd tip)) < unat height" using assms(2) by (simp add: word_less_nat_alt)
  have n: "?a + ?n = Suc (unat height)" "?a + ?n \<le> 2 ^ 32" using lt unat_lt2p [of height] by auto
  have e: "extend_tip tip height = Ok (map (\<lambda>h. synthetic_block (of_nat h)) (rev [?a..<?a + ?n]) @ tip)"
    unfolding extend_tip_def n(1) [symmetric] Suc_eq_plus1 [symmetric] by (rule extend_tip_run [OF assms(1) refl n(2)])
  have "[?a..<?a + ?n] = [?a..<unat height] @ [unat height]" using n(1) lt by simp
  then have "bi_height (hd (map (\<lambda>h. synthetic_block (of_nat h)) (rev [?a..<?a + ?n]) @ tip)) = height"
    by (simp add: synthetic_block_def)
  with e show ?thesis by blast
qed

subsection \<open>Building payments\<close>

lemma decode_base64_encode: "decode_base64 (encode_base64 data) = Ok data"
  using trim_id [where pre = "[]" and post = "[]", OF encode_base64_chars]
  by (simp add: decode_base64_def Let_def length_encode_base64 decode_chunks_encode)

lemma build_psbt_OkE:
  assumes "build_psbt bdk w req rng = (Ok b64, w')"
  obtains params p where "tx_builder_for bdk w req = Ok params"
    "bdk_finish bdk (ww_inner w) params rng = (Ok p, ww_inner w')" "b64 = psbt_to_b64 bdk p"
proof -
  obtain p where p: "build_psbt_raw_with_aux_rand bdk w req rng = (Ok p, w')" "b64 = psbt_to_b64 bdk p"
    using assms by (auto simp: build_psbt_def Let_def res_bind_eq_Ok split: prod.splits)
  then obtain params where "tx_builder_for bdk w req = Ok params"
    "bdk_finish bdk (ww_inner w) params rng = (Ok p, ww_inner w')"
    by (auto simp: build_psbt_raw_with_aux_rand_def Let_def res_simps split: res.splits prod.splits)
  then show ?thesis using p(2) that by blast
qed

lemma fee_rate_exact:
  "fee_rate_from_sat_per_vb vb = Some rate \<longleftrightarrow> unat vb * 250 < 2 ^ 64 \<and> unat rate = unat vb * 250"
  by (auto simp: fee_rate_from_sat_per_vb_def word_unat_eq_iff unat_word_ariths)

lemma tx_builder_for_Ok:
  assumes "tx_builder_for bdk w req = Ok params"
  shows "\<exists>unchecked addr. addr_from_str bdk (sr_recipient req) = Ok unchecked
    \<and> addr_require_network bdk unchecked (to_bitcoin_network (ww_network w)) = Ok addr
    \<and> tp_recipient params = addr_script_pubkey bdk addr \<and> tp_amount params = sr_amount_sats req
    \<and> tp_current_height params = wallet_tip_height bdk w \<and> tp_sequence params = 0xFFFFFFFD \<and> tp_global_xpubs params
    \<and> (case sr_fee_target req of
         FeerateSatVb vb \<Rightarrow> unat vb * 250 < 2 ^ 64 \<and> (\<exists>rate. tp_fee params = PolicyFeeRate rate \<and> unat rate = unat vb * 250)
       | AbsoluteSats sats \<Rightarrow> tp_fee params = PolicyFeeAbsolute sats)"
  using assms
  by (auto simp: tx_builder_for_def res_simps fee_rate_exact ANTI_FEE_SNIPING_SEQUENCE_def split: fee_target.splits)

section \<open>Properties\<close>

text \<open>C35: The fee identity of the watch wallet and the fee of the PSBT library are the same function
  where they succeed: on a PSBT with as many inputs as its transaction, one succeeds exactly when the
  other does and with the same fee, neither panics, and the fee is the difference of the exact sums.\<close>

theorem fee_identity_agrees:
  assumes "length (ps_inputs p) = length (tx_input (ps_unsigned_tx p))"
  shows "(psbt_fee p = Ok f \<longleftrightarrow> (\<exists>si so. fee_identity p = Ok (f, si, so)))
    \<and> (fee_identity p = Ok (f, si, so) \<longrightarrow>
        unat so = (\<Sum>out\<leftarrow>tx_output (ps_unsigned_tx p). unat (to_value out)) \<and> unat si = unat so + unat f)
    \<and> fee_identity p \<noteq> Panic"
proof -
  let ?outs = "\<lambda>e. for_in (\<lambda>_ out acc. ok_or (checked_add acc (to_value out)) e) 0 (tx_output (ps_unsigned_tx p)) 0"
  have ins: "for_in (\<lambda>idx inp acc. res_bind (input_value p idx inp) (\<lambda>v. ok_or (checked_add acc v) (WE_Overflow ''input sum''))) 0 (ps_inputs p) 0 = Ok s \<longleftrightarrow>
      for_in (\<lambda>_ (txin, inp) acc. res_bind (funding_utxo txin inp) (\<lambda>utxo. ok_or (checked_add acc (to_value utxo)) PE_FeeOverflow))
        0 (zip (tx_input (ps_unsigned_tx p)) (ps_inputs p)) 0 = Ok s" for s
    using input_sums_agree [of "tx_input (ps_unsigned_tx p)" 0 "ps_inputs p" p] assms by simp
  have "psbt_fee p = Ok f \<longleftrightarrow> (\<exists>si so. fee_identity p = Ok (f, si, so))"
    unfolding psbt_fee_def fee_identity_def using assms
    by (auto simp: res_bind_eq_Ok ok_or_eq_Ok ins for_in_checked_sum)
  moreover have "unat so = (\<Sum>out\<leftarrow>tx_output (ps_unsigned_tx p). unat (to_value out)) \<and> unat si = unat so + unat f"
    if "fee_identity p = Ok (f, si, so)"
  proof -
    have "?outs (WE_Overflow ''output sum'') = Ok so" "checked_sub si so = Some f"
      using that by (auto simp: fee_identity_def res_simps)
    then show ?thesis by (auto simp: checked_sub_eq_Some for_in_checked_sum)
  qed
  moreover have "fee_identity p \<noteq> Panic"
    using input_sum_not_Panic [of 0 "ps_inputs p" p] assms
    by (auto simp: fee_identity_def res_bind_eq_Panic dest!: for_in_not_Panic [THEN notE, rotated])
  ultimately show ?thesis by blast
qed


theorem fee_identity_agrees_witness:
  "length (ps_inputs sample_psbt) = length (tx_input (ps_unsigned_tx sample_psbt))
   \<and> psbt_fee sample_psbt = Ok 1000 \<and> (\<exists>si so. fee_identity sample_psbt = Ok (1000, si, so))"
proof -
  have l: "length (ps_inputs sample_psbt) = length (tx_input (ps_unsigned_tx sample_psbt))"
    by (simp add: sample_psbt_def sample_tx_def)
  have "psbt_fee sample_psbt = Ok 1000"
    by (simp add: psbt_fee_def sample_psbt_def sample_tx_def sample_utxo_def funding_utxo_def checked_add_def checked_sub_def)
  then show ?thesis using fee_identity_agrees [OF l, of 1000] l by blast
qed

text \<open>C21: A payment the wallet builds reaches the signer unchanged: the text the build operation returns decodes
  to the very PSBT the transaction builder made, for parameters that pay exactly the requested amount to
  the script of an address of the wallet's own network, locked to the wallet's tip and signalling
  replaceability, with the key origins included and the fee of the request.\<close>

theorem build_psbt_decodes:
  assumes "build_psbt bdk w req rng = (Ok b64, w')"
    and "\<And>params p inner. bdk_finish bdk (ww_inner w) params rng = (Ok p, inner) \<Longrightarrow>
      psbt_deserialize bdk (psbt_serialize bdk p) = Ok p"
  shows "\<exists>params p unchecked addr. bdk_finish bdk (ww_inner w) params rng = (Ok p, ww_inner w')
    \<and> decode_psbt_b64 bdk b64 = Ok p
    \<and> addr_from_str bdk (sr_recipient req) = Ok unchecked
    \<and> addr_require_network bdk unchecked (to_bitcoin_network (ww_network w)) = Ok addr
    \<and> tp_recipient params = addr_script_pubkey bdk addr \<and> tp_amount params = sr_amount_sats req
    \<and> tp_current_height params = wallet_tip_height bdk w \<and> tp_sequence params = 0xFFFFFFFD \<and> tp_global_xpubs params
    \<and> (case sr_fee_target req of
         FeerateSatVb vb \<Rightarrow> unat vb * 250 < 2 ^ 64 \<and> (\<exists>rate. tp_fee params = PolicyFeeRate rate \<and> unat rate = unat vb * 250)
       | AbsoluteSats sats \<Rightarrow> tp_fee params = PolicyFeeAbsolute sats)"
proof -
  obtain params p where b: "tx_builder_for bdk w req = Ok params"
    "bdk_finish bdk (ww_inner w) params rng = (Ok p, ww_inner w')" "b64 = psbt_to_b64 bdk p"
    using assms(1) by (rule build_psbt_OkE)
  have "decode_psbt_b64 bdk b64 = Ok p"
    using assms(2) [OF b(2)] by (simp add: b(3) decode_psbt_b64_def psbt_to_b64_def decode_base64_encode)
  then show ?thesis using tx_builder_for_Ok [OF b(1)] b(2) by blast
qed

theorem build_psbt_decodes_witness:
  "\<exists>b64 w'. build_psbt sample_bdk \<lparr>ww_inner = [\<lparr>bi_height = 9, bi_hash = [1]\<rparr>], ww_network = Regtest\<rparr>
       \<lparr>sr_recipient = ''j'', sr_amount_sats = 7, sr_fee_target = FeerateSatVb 3\<rparr> () = (Ok b64, w')
     \<and> decode_psbt_b64 sample_bdk b64 = Ok sample_psbt"
proof -
  let ?w = "\<lparr>ww_inner = [\<lparr>bi_height = 9, bi_hash = [1]\<rparr>], ww_network = Regtest\<rparr> :: checkpoint watch_wallet"
  let ?req = "\<lparr>sr_recipient = ''j'', sr_amount_sats = 7, sr_fee_target = FeerateSatVb 3\<rparr>"
  have b: "build_psbt sample_bdk ?w ?req () = (Ok (psbt_to_b64 sample_bdk sample_psbt), ?w)"
    by (simp add: build_psbt_def build_psbt_raw_with_aux_rand_def tx_builder_for_def fee_rate_from_sat_per_vb_def sample_bdk_def)
  have finish: "bdk_finish sample_bdk (ww_inner ?w) params () = (Ok sample_psbt, ww_inner ?w)" for params
    by (simp add: sample_bdk_def)
  have law: "psbt_deserialize sample_bdk (psbt_serialize sample_bdk p) = Ok p"
    if "bdk_finish sample_bdk (ww_inner ?w) params () = (Ok p, inner)" for params p inner
    using that by (simp add: sample_bdk_def)
  show ?thesis using build_psbt_decodes [OF b law] b finish by force
qed

end
