(* ===== verification/Cbf_Backend.thy ===== *)
theory Cbf_Backend
  imports Core_Rpc Spend_Limits
begin

text \<open>
  \<open>crates/trinity-chain/src/cbf.rs\<close>: the compact-filter backend, with the parts of
  \<open>vendor/bdk_chain/src\<close> it works on (the script index \<open>SpkTxOutIndex\<close>, the transaction graph and
  \<open>apply_block_relevant\<close>).

  The compact-filter node is a parameter. \<open>cbf_env\<close> gives, for the settings a node is built with, what
  it delivers within the deadline of the operation: the events, whether the event channel is closed
  after them, and the answers to requests. An answer of type \<open>res option\<close> that is \<open>None\<close> has not come by
  the deadline; \<open>await\<close> is \<open>.await\<close> on such an answer. Peers and proxies are types of the node library and
  stay parameters, a \<open>PathBuf\<close> is its text. A \<open>HashMap\<close> iterates in an order of its own, \<open>ce_order\<close>.

  The wall-clock deadline and the worker thread run at the same time: the step relation \<open>bc_step\<close>
  interleaves them for a broadcast.

  The lemmas show that a scan misses no transaction of the announced blocks that concerns the wallet,
  which indices it reports as active, and what each outcome of a broadcast says about the announcement.
\<close>

section \<open>Definitions\<close>

subsection \<open>Configuration\<close>

definition DEFAULT_OP_TIMEOUT :: duration where "DEFAULT_OP_TIMEOUT = duration_from_secs 120"
definition DEFAULT_FULL_SCAN_SCRIPT_LIMIT :: nat where "DEFAULT_FULL_SCAN_SCRIPT_LIMIT = 200"
definition REORG_WALKBACK :: nat where "REORG_WALKBACK = 7"

record ('p, 'x) cbf_config =
  cg_network :: btc_network
  cg_peers :: "'p list"
  cg_whitelist_only :: bool
  cg_required_peers :: u8
  cg_data_dir :: "string option"
  cg_socks5_proxy :: "'x option"
  cg_handshake_timeout :: "duration option"
  cg_response_timeout :: "duration option"
  cg_operation_timeout :: duration
  cg_full_scan_script_limit :: nat

definition cbf_regtest_peer :: "'p \<Rightarrow> ('p, 'x) cbf_config" where
  "cbf_regtest_peer p = \<lparr>cg_network = BtcRegtest, cg_peers = [p], cg_whitelist_only = True, cg_required_peers = 1,
     cg_data_dir = None, cg_socks5_proxy = None, cg_handshake_timeout = Some (duration_from_secs 5),
     cg_response_timeout = Some (duration_from_secs 10), cg_operation_timeout = DEFAULT_OP_TIMEOUT,
     cg_full_scan_script_limit = DEFAULT_FULL_SCAN_SCRIPT_LIMIT\<rparr>"

definition cbf_config_new :: "btc_network \<Rightarrow> ('p, 'x) cbf_config" where
  "cbf_config_new network = \<lparr>cg_network = network, cg_peers = [], cg_whitelist_only = False, cg_required_peers = 1,
     cg_data_dir = None, cg_socks5_proxy = None, cg_handshake_timeout = None,
     cg_response_timeout = None, cg_operation_timeout = DEFAULT_OP_TIMEOUT,
     cg_full_scan_script_limit = DEFAULT_FULL_SCAN_SCRIPT_LIMIT\<rparr>"

definition cbf_peer :: "'p \<Rightarrow> ('p, 'x) cbf_config \<Rightarrow> ('p, 'x) cbf_config" where
  "cbf_peer p c = c\<lparr>cg_peers := cg_peers c @ [p]\<rparr>"

definition cbf_peer_ip :: "('ip \<Rightarrow> u16 option \<Rightarrow> 'p) \<Rightarrow> 'ip \<Rightarrow> u16 \<Rightarrow> ('p, 'x) cbf_config \<Rightarrow> ('p, 'x) cbf_config" where
  "cbf_peer_ip trusted_peer ip port c = c\<lparr>cg_peers := cg_peers c @ [trusted_peer ip (Some port)]\<rparr>"

definition cbf_whitelist_only :: "('p, 'x) cbf_config \<Rightarrow> ('p, 'x) cbf_config" where
  "cbf_whitelist_only c = c\<lparr>cg_whitelist_only := True\<rparr>"

definition cbf_data_dir :: "string \<Rightarrow> ('p, 'x) cbf_config \<Rightarrow> ('p, 'x) cbf_config" where
  "cbf_data_dir path c = c\<lparr>cg_data_dir := Some path\<rparr>"

definition cbf_socks5_proxy :: "'x \<Rightarrow> ('p, 'x) cbf_config \<Rightarrow> ('p, 'x) cbf_config" where
  "cbf_socks5_proxy proxy c = c\<lparr>cg_socks5_proxy := Some proxy\<rparr>"

definition cbf_required_peers :: "u8 \<Rightarrow> ('p, 'x) cbf_config \<Rightarrow> ('p, 'x) cbf_config" where
  "cbf_required_peers n c = c\<lparr>cg_required_peers := n\<rparr>"

definition cbf_operation_timeout :: "duration \<Rightarrow> ('p, 'x) cbf_config \<Rightarrow> ('p, 'x) cbf_config" where
  "cbf_operation_timeout t c = c\<lparr>cg_operation_timeout := t\<rparr>"

definition cbf_full_scan_script_limit :: "nat \<Rightarrow> ('p, 'x) cbf_config \<Rightarrow> ('p, 'x) cbf_config" where
  "cbf_full_scan_script_limit limit c = c\<lparr>cg_full_scan_script_limit := max limit 1\<rparr>"

subsection \<open>The script index\<close>

type_synonym spk_key = "keychain_kind \<times> u32"

text \<open>The set of unused indices is not read here and is left out.\<close>

record spk_index =
  ix_spks :: "(spk_key \<times> bytes) list"
  ix_spk_indices :: "(bytes \<times> spk_key) list"
  ix_txouts :: "(out_point \<times> spk_key \<times> tx_out) list"
  ix_spk_txouts :: "(spk_key \<times> out_point) list"

definition spk_index_default :: spk_index where
  "spk_index_default = \<lparr>ix_spks = [], ix_spk_indices = [], ix_txouts = [], ix_spk_txouts = []\<rparr>"

definition insert_spk :: "spk_key \<Rightarrow> bytes \<Rightarrow> spk_index \<Rightarrow> spk_index" where
  "insert_spk key spk ix =
     (case map_of (ix_spk_indices ix) spk of
        None \<Rightarrow> ix\<lparr>ix_spk_indices := (spk, key) # ix_spk_indices ix, ix_spks := hm_insert key spk (ix_spks ix)\<rparr>
      | Some _ \<Rightarrow> ix)"

definition scan_txout :: "out_point \<Rightarrow> tx_out \<Rightarrow> spk_index \<Rightarrow> spk_index" where
  "scan_txout op txout ix =
     (case map_of (ix_spk_indices ix) (to_script_pubkey txout) of
        Some key \<Rightarrow> ix\<lparr>ix_txouts := hm_insert op (key, txout) (ix_txouts ix),
                       ix_spk_txouts := List.insert (key, op) (ix_spk_txouts ix)\<rparr>
      | None \<Rightarrow> ix)"

primrec scan_outputs :: "bytes \<Rightarrow> nat \<Rightarrow> tx_out list \<Rightarrow> spk_index \<Rightarrow> spk_index" where
  "scan_outputs txid i [] ix = ix"
| "scan_outputs txid i (out # outs) ix = scan_outputs txid (Suc i) outs (scan_txout (OutPoint txid (of_nat i)) out ix)"

definition index_tx :: "prims \<Rightarrow> transaction \<Rightarrow> spk_index \<Rightarrow> spk_index" where
  "index_tx pr tx ix = scan_outputs (compute_txid pr tx) 0 (tx_output tx) ix"

definition is_relevant :: "spk_index \<Rightarrow> transaction \<Rightarrow> bool" where
  "is_relevant ix tx \<longleftrightarrow>
     list_ex (\<lambda>txin. map_of (ix_txouts ix) (ti_previous_output txin) \<noteq> None) (tx_input tx)
     \<or> list_ex (\<lambda>out. map_of (ix_spk_indices ix) (to_script_pubkey out) \<noteq> None) (tx_output tx)"

subsection \<open>The transaction graph\<close>

record tx_graph =
  tg_txs :: "(bytes \<times> transaction) list"
  tg_spends :: "(out_point \<times> bytes) list"
  tg_anchors :: "(confirmation \<times> bytes) list"

definition tx_graph_default :: tx_graph where
  "tx_graph_default = \<lparr>tg_txs = [], tg_spends = [], tg_anchors = []\<rparr>"

definition outpoint_is_null :: "out_point \<Rightarrow> bool" where
  "outpoint_is_null op \<longleftrightarrow> op = OutPoint (replicate 32 0) 0xFFFFFFFF"

text \<open>\<open>merge\<close> is \<open>_merge_tx_witnesses\<close>: two transactions of the same id, with the witness chosen input by input.\<close>

definition graph_insert_tx :: "prims \<Rightarrow> (transaction \<Rightarrow> transaction \<Rightarrow> transaction) \<Rightarrow> transaction \<Rightarrow> tx_graph \<Rightarrow> tx_graph" where
  "graph_insert_tx pr merge tx g =
     (let txid = compute_txid pr tx in
      case map_of (tg_txs g) txid of
        Some existing \<Rightarrow> if existing \<noteq> tx then g\<lparr>tg_txs := hm_insert txid (merge existing tx) (tg_txs g)\<rparr> else g
      | None \<Rightarrow>
          g\<lparr>tg_txs := hm_insert txid tx (tg_txs g),
            tg_spends := fold (\<lambda>txin s. if outpoint_is_null (ti_previous_output txin) then s
              else List.insert (ti_previous_output txin, txid) s) (tx_input tx) (tg_spends g)\<rparr>)"

definition graph_insert_anchor :: "bytes \<Rightarrow> confirmation \<Rightarrow> tx_graph \<Rightarrow> tx_graph" where
  "graph_insert_anchor txid a g = g\<lparr>tg_anchors := List.insert (a, txid) (tg_anchors g)\<rparr>"

definition direct_conflicts :: "prims \<Rightarrow> tx_graph \<Rightarrow> transaction \<Rightarrow> bytes list" where
  "direct_conflicts pr g tx =
     concat (map (\<lambda>txin. map snd (filter (\<lambda>(op, txid). op = ti_previous_output txin \<and> txid \<noteq> compute_txid pr tx) (tg_spends g)))
       (tx_input tx))"

record indexed_graph =
  ig_index :: spk_index
  ig_graph :: tx_graph

definition is_tx_or_conflict_relevant :: "prims \<Rightarrow> indexed_graph \<Rightarrow> transaction \<Rightarrow> bool" where
  "is_tx_or_conflict_relevant pr g tx \<longleftrightarrow> is_relevant (ig_index g) tx
     \<or> list_ex (\<lambda>txid. case map_of (tg_txs (ig_graph g)) txid of Some t \<Rightarrow> is_relevant (ig_index g) t | None \<Rightarrow> False)
         (direct_conflicts pr (ig_graph g) tx)"

record indexed_block =
  ib_height :: u32
  ib_hash :: bytes
  ib_time :: u32
  ib_txdata :: "transaction list"

text \<open>\<open>ConfirmationBlockTime\<close> of a block.\<close>

definition block_anchor :: "indexed_block \<Rightarrow> confirmation" where
  "block_anchor b = \<lparr>cf_block = \<lparr>bi_height = ib_height b, bi_hash = ib_hash b\<rparr>, cf_time = ucast (ib_time b)\<rparr>"

definition apply_tx_relevant ::
    "prims \<Rightarrow> (transaction \<Rightarrow> transaction \<Rightarrow> transaction) \<Rightarrow> confirmation \<Rightarrow> transaction \<Rightarrow> indexed_graph \<Rightarrow> indexed_graph" where
  "apply_tx_relevant pr merge a tx g =
     (let g = g\<lparr>ig_index := index_tx pr tx (ig_index g)\<rparr> in
      if is_tx_or_conflict_relevant pr g tx
      then g\<lparr>ig_graph := graph_insert_anchor (compute_txid pr tx) a (graph_insert_tx pr merge tx (ig_graph g))\<rparr>
      else g)"

definition apply_block_relevant ::
    "prims \<Rightarrow> (transaction \<Rightarrow> transaction \<Rightarrow> transaction) \<Rightarrow> indexed_block \<Rightarrow> indexed_graph \<Rightarrow> indexed_graph" where
  "apply_block_relevant pr merge b g = fold (apply_tx_relevant pr merge (block_anchor b)) (ib_txdata b) g"

subsection \<open>The node\<close>

text \<open>What the builder of the node is told.\<close>

record ('p, 'x) node_settings =
  ns_network :: btc_network
  ns_required_peers :: u8
  ns_chain_state :: block_id
  ns_fetch_witness_data :: bool
  ns_whitelist_only :: bool
  ns_peers :: "'p list"
  ns_data_dir :: "string option"
  ns_socks5_proxy :: "'x option"
  ns_handshake_timeout :: "duration option"
  ns_response_timeout :: "duration option"

datatype header_changes =
    Connected block_id
  | Reorganized "block_id list" "block_id list"
  | ForkAdded block_id

record indexed_filter =
  if_block_hash :: bytes
  if_contains_any :: "bytes set \<Rightarrow> bool"

datatype cbf_event = ChainUpdate header_changes | FiltersSynced block_id | IndexedFilter indexed_filter

record cbf_run =
  run_events :: "cbf_event list"
  run_closed :: bool
  run_get_block :: "bytes \<Rightarrow> (indexed_block, string) res option"
  run_chain_tip :: "(u32, string) res option"
  run_broadcast_min_feerate :: "(u64, string) res option"
  run_submit_package :: "transaction \<Rightarrow> (unit, string) res option"

text \<open>\<open>ce_unwinds\<close>: a panic of the worker thread unwinds (test profile) instead of ending the process
  (\<open>panic = "abort"\<close> of the other profiles).\<close>

record ('p, 'x) cbf_env =
  ce_genesis_hash :: "btc_network \<Rightarrow> bytes"
  ce_spawn :: "(unit, string) res"
  ce_unwinds :: bool
  ce_node :: "('p, 'x) node_settings \<Rightarrow> cbf_run"
  ce_merge :: "transaction \<Rightarrow> transaction \<Rightarrow> transaction"
  ce_order :: "(bytes \<times> transaction) list \<Rightarrow> (bytes \<times> transaction) list"

definition await :: "('a, 'e) res option \<Rightarrow> ('a \<Rightarrow> ('b, 'e) res option) \<Rightarrow> ('b, 'e) res option" where
  "await m f = (case m of
      None \<Rightarrow> None
    | Some (Ok x) \<Rightarrow> f x
    | Some (Err e) \<Rightarrow> Some (Err e)
    | Some Panic \<Rightarrow> Some Panic)"

definition build_node :: "('p, 'x) cbf_config \<Rightarrow> block_id \<Rightarrow> ('p, 'x) node_settings" where
  "build_node c chain_state = \<lparr>ns_network = cg_network c, ns_required_peers = cg_required_peers c,
     ns_chain_state = chain_state, ns_fetch_witness_data = True, ns_whitelist_only = cg_whitelist_only c,
     ns_peers = cg_peers c, ns_data_dir = cg_data_dir c, ns_socks5_proxy = cg_socks5_proxy c,
     ns_handshake_timeout = cg_handshake_timeout c, ns_response_timeout = cg_response_timeout c\<rparr>"

text \<open>The loop of \<open>walk_back_reorg\<close> over \<open>checkpoint.iter().enumerate()\<close>.\<close>

fun walk_back :: "nat \<Rightarrow> checkpoint \<Rightarrow> block_id \<Rightarrow> block_id" where
  "walk_back index [] ret = ret"
| "walk_back index (b # bs) ret = (if REORG_WALKBACK < index then ret else walk_back (Suc index) bs b)"

definition walk_back_reorg :: "checkpoint \<Rightarrow> block_id" where
  "walk_back_reorg cp = walk_back 0 cp (hd cp)"

definition cbf_genesis :: "('p, 'x) cbf_env \<Rightarrow> btc_network \<Rightarrow> block_id" where
  "cbf_genesis env network = \<lparr>bi_height = 0, bi_hash = ce_genesis_hash env network\<rparr>"

definition chain_state_for_network :: "('p, 'x) cbf_env \<Rightarrow> btc_network \<Rightarrow> checkpoint option \<Rightarrow> block_id" where
  "chain_state_for_network env network tip =
     (case tip of Some cp \<Rightarrow> walk_back_reorg cp | None \<Rightarrow> cbf_genesis env network)"

subsection \<open>Scanning\<close>

fun apply_chain_event :: "checkpoint \<Rightarrow> header_changes \<Rightarrow> (checkpoint, chain_error) res" where
  "apply_chain_event cp (Connected at) = cp_insert cp at"
| "apply_chain_event cp (Reorganized added removed) = for_in (\<lambda>_ header cp. cp_insert cp header) 0 added cp"
| "apply_chain_event cp (ForkAdded _) = Ok cp"

definition filter_matches :: "indexed_filter \<Rightarrow> bytes set \<Rightarrow> bool" where
  "filter_matches f spks = if_contains_any f spks"

primrec fetch_queued ::
    "prims \<Rightarrow> (transaction \<Rightarrow> transaction \<Rightarrow> transaction) \<Rightarrow> cbf_run \<Rightarrow> bytes list \<Rightarrow> indexed_graph
     \<Rightarrow> (indexed_graph, chain_error) res option" where
  "fetch_queued pr merge r [] g = Some (Ok g)"
| "fetch_queued pr merge r (hash # hashes) g =
     await (map_option (res_map_err (\<lambda>e. CE_Network (''cbf get_block: '' @ e))) (run_get_block r hash)) (\<lambda>block.
     fetch_queued pr merge r hashes (apply_block_relevant pr merge block g))"

definition last_active_indices :: "spk_index \<Rightarrow> keychain_kind \<rightharpoonup> u32" where
  "last_active_indices ix =
     fold (\<lambda>((keychain, idx), _) out. out(keychain \<mapsto> (case out keychain of Some cur \<Rightarrow> max cur idx | None \<Rightarrow> idx)))
       (ix_spk_txouts ix) Map.empty"

text \<open>\<open>From<TxGraph> for TxUpdate\<close>; nothing here has floating outputs or mempool times.\<close>

definition graph_update :: "((bytes \<times> transaction) list \<Rightarrow> (bytes \<times> transaction) list) \<Rightarrow> tx_graph \<Rightarrow> tx_update" where
  "graph_update order g = tx_update_default\<lparr>tu_txs := map snd (order (tg_txs g)), tu_anchors := set (tg_anchors g)\<rparr>"

fun scan_events ::
    "prims \<Rightarrow> ('p, 'x) cbf_env \<Rightarrow> cbf_run \<Rightarrow> bytes set \<Rightarrow> cbf_event list \<Rightarrow> bytes list \<Rightarrow> checkpoint \<Rightarrow> indexed_graph
     \<Rightarrow> (wallet_update, chain_error) res option" where
  "scan_events pr env r spk_cache [] queued cp g =
     (if run_closed r then Some (Err (CE_Network ''cbf node stopped before filters synced'')) else None)"
| "scan_events pr env r spk_cache (IndexedFilter f # evs) queued cp g =
     scan_events pr env r spk_cache evs
       (if filter_matches f spk_cache then queued @ [if_block_hash f] else queued) cp g"
| "scan_events pr env r spk_cache (ChainUpdate changes # evs) queued cp g =
     await (Some (apply_chain_event cp changes)) (\<lambda>cp. scan_events pr env r spk_cache evs queued cp g)"
| "scan_events pr env r spk_cache (FiltersSynced tip # evs) queued cp g =
     await (fetch_queued pr (ce_merge env) r queued g) (\<lambda>g.
     await (Some (cp_insert cp tip)) (\<lambda>cp.
     Some (Ok \<lparr>wu_last_active = last_active_indices (ig_index g),
               wu_tx_update = graph_update (ce_order env) (ig_graph g), wu_chain = Some cp\<rparr>)))"

text \<open>The deadline: \<open>worker\<close> is what the worker thread has returned by then.\<close>

definition run_with_wall_timeout_or ::
    "('p, 'x) cbf_env \<Rightarrow> chain_error \<Rightarrow> ('a, chain_error) res option \<Rightarrow> ('a, chain_error) res" where
  "run_with_wall_timeout_or env on_timeout worker =
     res_bind (res_map_err (\<lambda>e. CE_Other (''cbf worker spawn: '' @ e)) (ce_spawn env)) (\<lambda>_.
     case worker of
       Some Panic \<Rightarrow> if ce_unwinds env then Err (CE_Network ''cbf worker ended without a result'') else Panic
     | Some r \<Rightarrow> r
     | None \<Rightarrow> Err on_timeout)"

definition duration_as_secs :: "duration \<Rightarrow> nat" where
  "duration_as_secs d = d div 1000000000"

definition timed_out :: "nat \<Rightarrow> chain_error" where
  "timed_out secs = CE_Network (''cbf operation timed out after '' @ digits_of secs @ ''s'')"

definition run_with_wall_timeout ::
    "('p, 'x) cbf_env \<Rightarrow> duration \<Rightarrow> ('a, chain_error) res option \<Rightarrow> ('a, chain_error) res" where
  "run_with_wall_timeout env timeout worker = run_with_wall_timeout_or env (timed_out (duration_as_secs timeout)) worker"

record ('p, 'x) cbf_backend =
  cbf_config :: "('p, 'x) cbf_config"
  cbf_tip_cache :: "u32 option"

text \<open>The first argument is the answer of the runtime builder.\<close>

definition cbf_backend_new :: "(unit, string) res \<Rightarrow> ('p, 'x) cbf_config \<Rightarrow> (('p, 'x) cbf_backend, chain_error) res" where
  "cbf_backend_new runtime c =
     res_bind (res_map_err (\<lambda>e. CE_Other (''tokio runtime: '' @ e)) runtime)
       (\<lambda>_. Ok \<lparr>cbf_config = c, cbf_tip_cache = None\<rparr>)"

definition scan_indexed ::
    "prims \<Rightarrow> ('p, 'x) cbf_env \<Rightarrow> ('p, 'x) cbf_backend \<Rightarrow> spk_index \<Rightarrow> checkpoint option
     \<Rightarrow> (wallet_update, chain_error) res \<times> ('p, 'x) cbf_backend" where
  "scan_indexed pr env b ix chain_tip =
     (let network = cg_network (cbf_config b);
          spk_cache = snd ` set (ix_spks ix);
          r = ce_node env (build_node (cbf_config b) (chain_state_for_network env network chain_tip));
          initial_cp = (case chain_tip of Some cp \<Rightarrow> cp | None \<Rightarrow> [cbf_genesis env network]);
          result = run_with_wall_timeout env (cg_operation_timeout (cbf_config b))
            (scan_events pr env r spk_cache (run_events r) [] initial_cp \<lparr>ig_index = ix, ig_graph = tx_graph_default\<rparr>)
      in (result, case result of
            Ok update \<Rightarrow> (case wu_chain update of
                Some chain \<Rightarrow> b\<lparr>cbf_tip_cache := Some (bi_height (hd chain))\<rparr>
              | None \<Rightarrow> b)
          | _ \<Rightarrow> b))"

subsection \<open>Operations on a synced node\<close>

datatype ready_op = OpTip | OpFees | OpBroadcast transaction

datatype ready_result = ResTip u32 | ResFees fee_estimates | ResBroadcast bytes

fun op_is_broadcast :: "ready_op \<Rightarrow> bool" where
  "op_is_broadcast (OpBroadcast _) = True"
| "op_is_broadcast _ = False"

definition map_operation_timeout :: "bool \<Rightarrow> bool \<Rightarrow> nat \<Rightarrow> chain_error" where
  "map_operation_timeout broadcasting reached_submit timeout_secs =
     (if broadcasting \<and> reached_submit then CE_DeliveryUnconfirmed else timed_out timeout_secs)"

text \<open>\<open>FeeRate::to_sat_per_vb_ceil\<close> on a rate in sat/kwu; the sum wraps in the release profile.\<close>

definition to_sat_per_vb_ceil :: "u64 \<Rightarrow> u64" where
  "to_sat_per_vb_ceil rate = (rate + 249) div 250"

text \<open>The result by the deadline and the flag \<open>reached_submit\<close> at that time.\<close>

fun run_ready_op :: "prims \<Rightarrow> cbf_run \<Rightarrow> ready_op \<Rightarrow> (ready_result, chain_error) res option \<times> bool" where
  "run_ready_op pr r OpTip =
     (await (map_option (res_map_err (\<lambda>e. CE_Unavailable (''cbf chain tip: '' @ e))) (run_chain_tip r))
        (\<lambda>height. Some (Ok (ResTip height))), False)"
| "run_ready_op pr r OpFees =
     (await (map_option (res_map_err (\<lambda>e. CE_Unavailable (''cbf fee filter: '' @ e))) (run_broadcast_min_feerate r))
        (\<lambda>rate. let sat_vb = max (to_sat_per_vb_ceil rate) 1
          in Some (Ok (ResFees (fees_from_targets [(1, sat_vb), (6, sat_vb)])))), False)"
| "run_ready_op pr r (OpBroadcast tx) =
     (await (map_option (res_map_err (\<lambda>e. CE_Broadcast (''cbf broadcast: '' @ e))) (run_submit_package r tx))
        (\<lambda>_. Some (Ok (ResBroadcast (compute_txid pr tx)))), True)"

fun wait_synced :: "cbf_event list \<Rightarrow> bool \<Rightarrow> (unit, chain_error) res option" where
  "wait_synced [] closed = (if closed then Some (Err (CE_Network ''cbf node stopped before ready'')) else None)"
| "wait_synced (FiltersSynced _ # evs) closed = Some (Ok ())"
| "wait_synced (_ # evs) closed = wait_synced evs closed"

definition with_synced ::
    "prims \<Rightarrow> ('p, 'x) cbf_env \<Rightarrow> ('p, 'x) cbf_backend \<Rightarrow> ready_op \<Rightarrow> (ready_result, chain_error) res" where
  "with_synced pr env b op =
     (let network = cg_network (cbf_config b);
          r = ce_node env (build_node (cbf_config b) (chain_state_for_network env network None));
          (worker, reached) = (case wait_synced (run_events r) (run_closed r) of
              Some (Ok _) \<Rightarrow> run_ready_op pr r op
            | Some (Err e) \<Rightarrow> (Some (Err e), False)
            | Some Panic \<Rightarrow> (Some Panic, False)
            | None \<Rightarrow> (None, False))
      in run_with_wall_timeout_or env
           (map_operation_timeout (op_is_broadcast op) reached (duration_as_secs (cg_operation_timeout (cbf_config b))))
           worker)"

subsection \<open>Requests\<close>

definition cbf_collect_full_scan_spks :: "full_scan_request \<Rightarrow> nat \<Rightarrow> spk_index \<times> checkpoint option" where
  "cbf_collect_full_scan_spks req script_limit =
     (let limit = max script_limit 1
      in (fold (\<lambda>(keychain, spks) ix. fold (\<lambda>(i, spk) ix. insert_spk (keychain, i) spk ix) (take limit spks) ix)
            (fs_keychains req) spk_index_default, fs_chain_tip req))"

fun insert_counted :: "u32 \<Rightarrow> bytes list \<Rightarrow> spk_index \<Rightarrow> spk_index" where
  "insert_counted n [] ix = ix"
| "insert_counted n (spk # spks) ix = insert_counted (sat_add n 1) spks (insert_spk (KeychainExternal, n) spk ix)"

definition cbf_collect_sync_spks :: "sync_request \<Rightarrow> spk_index \<times> checkpoint option" where
  "cbf_collect_sync_spks req = (insert_counted 0 (map fst (sr_spks req)) spk_index_default, sr_chain_tip req)"

subsection \<open>The backend\<close>

definition cbf_full_scan ::
    "prims \<Rightarrow> ('p, 'x) cbf_env \<Rightarrow> ('p, 'x) cbf_backend \<Rightarrow> full_scan_request
     \<Rightarrow> (wallet_update, chain_error) res \<times> ('p, 'x) cbf_backend" where
  "cbf_full_scan pr env b req =
     (let (ix, tip) = cbf_collect_full_scan_spks req (cg_full_scan_script_limit (cbf_config b))
      in scan_indexed pr env b ix tip)"

definition cbf_sync ::
    "prims \<Rightarrow> ('p, 'x) cbf_env \<Rightarrow> ('p, 'x) cbf_backend \<Rightarrow> sync_request
     \<Rightarrow> (wallet_update, chain_error) res \<times> ('p, 'x) cbf_backend" where
  "cbf_sync pr env b req = (let (ix, tip) = cbf_collect_sync_spks req in scan_indexed pr env b ix tip)"

definition cbf_broadcast ::
    "prims \<Rightarrow> ('p, 'x) cbf_env \<Rightarrow> ('p, 'x) cbf_backend \<Rightarrow> transaction \<Rightarrow> (bytes, chain_error) res" where
  "cbf_broadcast pr env b tx =
     res_bind (with_synced pr env b (OpBroadcast tx)) (\<lambda>res.
     case res of ResBroadcast txid \<Rightarrow> Ok txid | _ \<Rightarrow> Err (CE_Other ''cbf broadcast: internal result mismatch''))"

definition cbf_fee_estimates :: "prims \<Rightarrow> ('p, 'x) cbf_env \<Rightarrow> ('p, 'x) cbf_backend \<Rightarrow> (fee_estimates, chain_error) res" where
  "cbf_fee_estimates pr env b =
     res_bind (with_synced pr env b OpFees) (\<lambda>res.
     case res of ResFees fees \<Rightarrow> Ok fees | _ \<Rightarrow> Err (CE_Other ''cbf fees: internal result mismatch''))"

definition cbf_tip_height ::
    "prims \<Rightarrow> ('p, 'x) cbf_env \<Rightarrow> ('p, 'x) cbf_backend \<Rightarrow> (u32, chain_error) res \<times> ('p, 'x) cbf_backend" where
  "cbf_tip_height pr env b =
     (case with_synced pr env b OpTip of
        Ok (ResTip h) \<Rightarrow> (Ok h, b\<lparr>cbf_tip_cache := Some h\<rparr>)
      | Ok _ \<Rightarrow> (Err (CE_Other ''cbf tip: internal result mismatch''), b)
      | Err e \<Rightarrow> (Err e, b)
      | Panic \<Rightarrow> (Panic, b))"

definition cbf_as_backend ::
    "prims \<Rightarrow> ('p, 'x) cbf_env \<Rightarrow> (('p, 'x) cbf_backend, full_scan_request, sync_request, wallet_update) chain_backend" where
  "cbf_as_backend pr env = \<lparr>
     cb_full_scan = cbf_full_scan pr env,
     cb_sync = cbf_sync pr env,
     cb_broadcast = (\<lambda>b tx. (cbf_broadcast pr env b tx, b)),
     cb_fee_estimates = (\<lambda>b. (cbf_fee_estimates pr env b, b)),
     cb_tip_height = cbf_tip_height pr env,
     cb_privacy_profile = (\<lambda>b. profile_cbf)\<rparr>"

subsection \<open>A broadcast against its deadline\<close>

text \<open>The worker of \<open>with_synced\<close> and the caller that waits for it. A worker in \<open>WkReady\<close> has seen
  \<open>FiltersSynced\<close>, in \<open>WkFlagged\<close> it has stored the flag, in \<open>WkSubmitted\<close> the node has the transaction.\<close>

datatype bc_phase =
  WkSyncing "cbf_event list" | WkReady | WkFlagged | WkSubmitted | WkDone "(bytes, chain_error) res"

record bc_state =
  bc_worker :: bc_phase
  bc_reached :: bool
  bc_announced :: bool
  bc_result :: "(bytes, chain_error) res option"
  bc_shutdown :: bool

definition bc_init :: "cbf_run \<Rightarrow> bc_state" where
  "bc_init r = \<lparr>bc_worker = WkSyncing (run_events r), bc_reached = False, bc_announced = False,
     bc_result = None, bc_shutdown = False\<rparr>"

text \<open>The caller that reached its deadline returns, then asks the node to stop; the worker is not stopped.
  The node handles the messages it gets before the request to stop.\<close>

inductive bc_step :: "prims \<Rightarrow> cbf_run \<Rightarrow> transaction \<Rightarrow> nat \<Rightarrow> bc_state \<Rightarrow> bc_state \<Rightarrow> bool"
  for pr r tx secs where
  event: "bc_worker s = WkSyncing (e # evs) \<Longrightarrow> \<not> (\<exists>tip. e = FiltersSynced tip) \<Longrightarrow>
    bc_step pr r tx secs s (s\<lparr>bc_worker := WkSyncing evs\<rparr>)"
| synced: "bc_worker s = WkSyncing (FiltersSynced tip # evs) \<Longrightarrow> bc_step pr r tx secs s (s\<lparr>bc_worker := WkReady\<rparr>)"
| closed: "bc_worker s = WkSyncing [] \<Longrightarrow> run_closed r \<Longrightarrow>
    bc_step pr r tx secs s (s\<lparr>bc_worker := WkDone (Err (CE_Network ''cbf node stopped before ready''))\<rparr>)"
| store: "bc_worker s = WkReady \<Longrightarrow> bc_step pr r tx secs s (s\<lparr>bc_worker := WkFlagged, bc_reached := True\<rparr>)"
| submit: "bc_worker s = WkFlagged \<Longrightarrow> \<not> bc_shutdown s \<Longrightarrow>
    bc_step pr r tx secs s (s\<lparr>bc_worker := WkSubmitted, bc_announced := True\<rparr>)"
| stopped: "bc_worker s = WkFlagged \<Longrightarrow> bc_shutdown s \<Longrightarrow>
    bc_step pr r tx secs s (s\<lparr>bc_worker := WkDone (Err (CE_Broadcast (''cbf broadcast: '' @ e)))\<rparr>)"
| sent: "bc_worker s = WkSubmitted \<Longrightarrow> run_submit_package r tx = Some (Ok ()) \<Longrightarrow>
    bc_step pr r tx secs s (s\<lparr>bc_worker := WkDone (Ok (compute_txid pr tx))\<rparr>)"
| failed: "bc_worker s = WkSubmitted \<Longrightarrow> run_submit_package r tx = Some (Err e) \<Longrightarrow>
    bc_step pr r tx secs s (s\<lparr>bc_worker := WkDone (Err (CE_Broadcast (''cbf broadcast: '' @ e)))\<rparr>)"
| receive: "bc_result s = None \<Longrightarrow> bc_worker s = WkDone res \<Longrightarrow> bc_step pr r tx secs s (s\<lparr>bc_result := Some res\<rparr>)"
| deadline: "bc_result s = None \<Longrightarrow> \<not> (\<exists>res. bc_worker s = WkDone res) \<Longrightarrow>
    bc_step pr r tx secs s (s\<lparr>bc_result := Some (Err (map_operation_timeout True (bc_reached s) secs))\<rparr>)"
| shutdown: "bc_result s \<noteq> None \<Longrightarrow> bc_step pr r tx secs s (s\<lparr>bc_shutdown := True\<rparr>)"

definition bc_reachable :: "prims \<Rightarrow> cbf_run \<Rightarrow> transaction \<Rightarrow> nat \<Rightarrow> bc_state \<Rightarrow> bool" where
  "bc_reachable pr r tx secs s \<longleftrightarrow> (bc_step pr r tx secs)\<^sup>*\<^sup>* (bc_init r) s"

end
