(* ===== verification/Spec2Isabelle.thy ===== *)
theory Spec2Isabelle
  imports Finalize Fake_Clock Core_Scan Watch_Wallet Cbf_Backend
begin

text \<open>
  \<^bold>\<open>Trinity: a 2-of-3 Bitcoin wallet core\<close>

  The program (Rust, \<open>crates/\<close>) keeps three keys A, B and C. A payment is built from public data, is
  checked by an independent verifier, is signed by A and then by B under a sliding spend limit, and
  is finished into a transaction. The parts and their theories, in the order of the imports:

  \<^item> \<open>Trinity_Prelude\<close>: the vocabulary of the embedding. \<open>res\<close> is \<open>Result\<close> with a third outcome
    \<open>Panic\<close> for every \<open>expect\<close>, \<open>unwrap\<close> and index out of range; \<open>for_in\<close> is a loop with early
    return; machine integers are words with the saturating and checked operations written out;
    a \<open>BTreeMap\<close> is the association list of its traversal (locale \<open>ordered_map\<close>).
  \<^item> \<open>Trinity_Types\<close>, \<open>Trinity_Errors\<close>: the value types of \<open>trinity-types\<close> and the error enums of all
    crates, one constructor for each variant.
  \<^item> \<open>Bitcoin_Data\<close>: transactions and PSBTs as the vendored \<open>bitcoin\<close> crate declares them, and the
    parameter record \<open>prims\<close> of hashes, curve operations, address encoding and script execution.
  \<^item> \<open>Verify_Checksum\<close>, \<open>Verify_Parse\<close>, \<open>Verify_Derive\<close>, \<open>Verify_Psbt\<close>: the verifier
    (\<open>trinity-verify\<close>): \<open>checksum.rs\<close>, \<open>parse.rs\<close>, \<open>ckd.rs\<close>, \<open>bip67.rs\<close>, \<open>witness.rs\<close>, \<open>derive.rs\<close>,
    \<open>verify.rs\<close>.
  \<^item> \<open>Sealed_Blob\<close>, \<open>Core_State\<close>, \<open>Keystore\<close>: the two sealed formats (\<open>core_state.rs\<close>, \<open>blob.rs\<close>), the
    slot policies and the platform key store (\<open>policy.rs\<close>, \<open>platform.rs\<close>, \<open>fake.rs\<close>).
  \<^item> \<open>Entropy\<close>: key generation from mixed sources (\<open>trinity-entropy\<close>).
  \<^item> \<open>Spend_Limits\<close>, \<open>Spend_Window\<close>, \<open>Fake_Clock\<close>: the spend policy and the sliding window
    (\<open>limits.rs\<close>, \<open>window.rs\<close>, \<open>clock.rs\<close>).
  \<^item> \<open>Signer\<close>, \<open>Finalize\<close>: the on-device signer, the composition A then B, and the finished
    transaction (\<open>sign.rs\<close>, \<open>local.rs\<close>, \<open>kind.rs\<close>, \<open>finalize.rs\<close>).
  \<^item> \<open>Chain_Backend\<close>, \<open>Core_Rpc\<close>, \<open>Core_Scan\<close>: the chain interface, its in-memory and composed
    implementations and the Bitcoin Core backend (\<open>trinity-chain\<close>).
  \<^item> \<open>Watch_Descriptor\<close>, \<open>Watch_Base64\<close>, \<open>Watch_Wallet\<close>: the watch-only side (\<open>trinity-watch\<close>).

  \<^bold>\<open>State and operations.\<close> A struct is a record, an enum a datatype, a method of \<open>&mut self\<close> a function
  that returns the new state, a trait object a record of functions over its state (\<open>signer\<close>,
  \<open>chain_backend\<close>, \<open>platform\<close>). Definitions keep the names of the source; a name that would clash is
  prefixed with its component. Code that is not part of the crates (cryptography, BIP-39, the wallet
  library, the node, the JSON codec, the operating system's generator) is a parameter, and what a
  property relies on is a hypothesis of that property: \<open>aead_correct\<close> and \<open>aead_authentic\<close> for the
  cipher, \<open>miniscript_prints\<close> for the descriptor library, \<open>txid_binds\<close> for transaction ids,
  \<open>node_serves\<close> for a working node.

  \<^bold>\<open>What is shown.\<close>
  \<^item> The verifier accepts only payments that spend known outputs of this wallet, pay only declared
    recipients and own change, conserve the amounts and keep the fee within the policy
    (\<open>verify_conserves_value\<close>, \<open>verify_inputs_own\<close>, \<open>verify_outputs_accounted\<close>). Its parser accepts
    exactly a declarative grammar (\<open>parse_iff_grammar\<close>), its checksum finds every changed character, and
    a derived output is the BIP-67 script of the three children.
  \<^item> In no stretch of window time as long as the window can more leave the wallet than the policy's cap
    (\<open>window_never_exceeds_cap\<close>), whatever the clocks, restarts and replays do. \<open>sign_ab\<close> refines this
    window: \<open>window_run\<close> is the abstract history, and every signing run is a step of it.
  \<^item> A signature of B is made only after a second verification, on the same transaction, with a valid
    signature of A (\<open>sign_ab_guards\<close>); a refused payment reaches no key. The finished transaction is the
    request with two valid signatures in key order on every input, and a signed payment does finish.
  \<^item> Both sealed formats are canonical and round-trip; the encoding of the entropy sources is injective.
  \<^item> A scan of the node reports exactly the transactions that concern the wallet, the stop-gap loop
    ends and misses no script before a full gap, a sync evicts only what the node does not know.
  \<^item> Concurrent calls of \<open>FakeClock::advance\<close> lose no increment and end: \<open>cas_step\<close> interleaves their
    atomic operations.
  \<^item> The descriptors the watch side builds are read by the verifier's parser as the same keys, a stored
    document loads exactly as what its keys build, and a built PSBT survives its base64 form.

  \<^bold>\<open>Locales.\<close> \<open>ordered_map\<close> (maps), \<open>fixed_codec\<close> and \<open>sealed_format\<close> (encodings, interpreted for the
  counter and the key blob), \<open>key_platform\<close> (the key store), \<open>careful_signer\<close> (what the composition
  relies on, interpreted for the on-device signer), \<open>announcing_backend\<close> (a backend that records what
  it announced, interpreted for the in-memory backend and for the composition with it).

  \<^bold>\<open>Bounds and fuel.\<close> No definition uses fuel. Loops of the source run over lists that are given, so their
  models are structurally recursive; the loops that scan an index range are recursive in the rest of
  the range. A keychain of a scan request is a finite list, which the wallet library's iterator is too
  (at most \<open>2^31\<close> scripts). The compare-and-exchange loop has no bound of its own: it is a step relation,
  with a measure that shows its end when the weak exchange does not fail spuriously.

  \<^bold>\<open>Not modelled.\<close>
  \<^item> \<open>electrum.rs\<close> and \<open>cbf.rs\<close> of \<open>trinity-chain\<close>: the connection to an Electrum server and the
    compact-filter node are network clients of vendored libraries with a runtime of their own.
  \<^item> \<open>trinity-export\<close>, \<open>trinity-ffi\<close>, \<open>trinity-transport\<close>: empty crates.
  \<^item> The printed layout of the verification sheet (\<open>evidence.rs\<close>), \<open>Debug\<close> and \<open>Display\<close> texts that no
    other code reads, and the erasure of memory behind \<open>Zeroizing\<close>; where the code overwrites a secret
    in place the model returns it overwritten.
  \<^item> Vendored libraries beyond the few pure functions named in the theories, tests and scripts.
\<close>

end
